(* ===== verification/Sukkal_Prelude.thy ===== *)
theory Sukkal_Prelude
  imports Main "HOL-Library.Word" "HOL-Library.Char_ord" "HOL-Library.List_Lexorder"
begin

text \<open>
  Shared ground of the development: the machine integers and byte strings of the C code, its
  error codes, the events of a binjson value, and the generic facts on lists, words and error
  results the component theories use.

  A C function that returns an error code and writes its answer through out-parameters becomes a
  function into \<open>'a res\<close>: \<open>Inl e\<close> for the negative code, \<open>Inr a\<close> for \<open>BJ_OK\<close> with the
  out-parameters. A C string is the list of its characters, without the closing NUL.
\<close>

section \<open>Types\<close>

type_synonym u64 = "64 word"
type_synonym bytes = "8 word list"

text \<open>
  The error codes the sources name; \<open>BJ_ERR_OTHER\<close> is any other negative code a library
  reports. \<open>BJ_OK\<close> is the absence of an error.
\<close>

datatype bj_err = BJ_ERR_RANGE | BJ_ERR_STATE | BJ_ERR_OOM | BJ_ERR_VERIFY | BJ_ERR_OTHER int

type_synonym 'a res = "bj_err + 'a"

definition UINT64_MAX :: u64 where
  "UINT64_MAX = 0xFFFFFFFFFFFFFFFF"

text \<open>
  One binjson value as the calls that build it and the callbacks that visit it. The decoder hands
  an integer over as a double and every reader casts it to \<open>uint64_t\<close>; \<open>EInt\<close> carries the
  result of that cast, and so do dates and pointers. A float is the 64 bits of the double, an object
  id its twelve bytes; no record of the store uses these four.
\<close>

datatype ev =
    EKey string
  | EStr string
  | EInt u64
  | EBool bool
  | ENull
  | EBin bytes
  | EFloat u64
  | EOid bytes
  | EDate u64
  | EPtr u64
  | EArr nat
  | EArrEnd
  | EObj nat
  | EObjEnd

text \<open>An array or an object with the element count the builder patches in when it closes it.\<close>

definition bj_array :: "ev list list \<Rightarrow> ev list" where
  "bj_array xs = EArr (length xs) # concat xs @ [EArrEnd]"

definition bj_object :: "(string \<times> ev list) list \<Rightarrow> ev list" where
  "bj_object kvs = EObj (length kvs) # concat (map (\<lambda>(k, v). EKey k # v) kvs) @ [EObjEnd]"

text \<open>Integers a double represents exactly, so that decoding gives back what was stored.\<close>

definition exact_int :: "u64 \<Rightarrow> bool" where
  "exact_int v \<longleftrightarrow> unat v \<le> 2 ^ 53"

fun exact_ev :: "ev \<Rightarrow> bool" where
  "exact_ev (EInt v) = exact_int v"
| "exact_ev (EDate v) = exact_int v"
| "exact_ev (EPtr v) = exact_int v"
| "exact_ev _ = True"

abbreviation exact_evs :: "ev list \<Rightarrow> bool" where
  "exact_evs \<equiv> list_all exact_ev"

section \<open>Hint collections\<close>

named_theorems store_defs \<open>definitions of the store's operations, for unfolding\<close>
named_theorems frame_simps \<open>fields an operation leaves alone\<close>

section \<open>Error results\<close>

fun is_ok :: "'a res \<Rightarrow> bool" where
  "is_ok (Inl e) = False"
| "is_ok (Inr a) = True"

lemma is_ok_iff: "is_ok r \<longleftrightarrow> (\<exists>a. r = Inr a)"
  by (cases r) auto

section \<open>Events\<close>

lemma exact_array [simp]: "exact_evs (bj_array xs) \<longleftrightarrow> (\<forall>x \<in> set xs. exact_evs x)"
  by (induction xs) (auto simp: bj_array_def list_all_iff)

lemma exact_object [simp]:
  "exact_evs (bj_object kvs) \<longleftrightarrow> (\<forall>kv \<in> set kvs. exact_evs (snd kv))"
  by (induction kvs) (auto simp: bj_object_def list_all_iff)

section \<open>Strings\<close>

text \<open>A buffer of bytes read back as a C string ends at the first NUL.\<close>

definition c_str :: "string \<Rightarrow> string" where
  "c_str s = takeWhile (\<lambda>c. c \<noteq> CHR 0x00) s"

lemma c_str_id: "CHR 0x00 \<notin> set s \<Longrightarrow> c_str s = s"
  by (induction s) (auto simp: c_str_def)

lemma c_str_no_nul: "CHR 0x00 \<notin> set (c_str s)"
  unfolding c_str_def by (auto dest: set_takeWhileD)

lemma sep_split:
  assumes "c \<notin> set a"
  shows "takeWhile (\<lambda>x. x \<noteq> c) (a @ c # r) = a" and "dropWhile (\<lambda>x. x \<noteq> c) (a @ c # r) = c # r"
    and "takeWhile (\<lambda>x. x \<noteq> c) a = a" and "dropWhile (\<lambda>x. x \<noteq> c) a = []"
  using assms by (induction a) auto

text \<open>Appending a separator that neither part contains parses back in one way only.\<close>

lemma append_sep_inj:
  assumes "c \<notin> set a" and "c \<notin> set a'"
  shows "a @ c # b = a' @ c # b' \<longleftrightarrow> a = a' \<and> b = b'"
  using assms
proof (induction a arbitrary: a')
  case Nil
  then show ?case by (cases a') auto
next
  case (Cons x a)
  then show ?case by (cases a') auto
qed

lemma prefix_range:
  fixes p k :: "string"
  assumes "x < y" and "\<And>z. x < z \<Longrightarrow> y \<le> z"
  shows "p @ [x] \<le> k \<and> k < p @ [y] \<longleftrightarrow> (\<exists>r. k = p @ x # r)"
proof (induction p arbitrary: k)
  case Nil
  show ?case
  proof (cases k)
    case Nil
    then show ?thesis by simp
  next
    case (Cons z zs)
    have "z = x" if "z < y" "\<not> z < x"
      using that assms(2) [of z] by (cases "x = z") (auto simp: not_less le_less)
    with Cons assms(1) show ?thesis by auto
  qed
next
  case (Cons a p)
  show ?case
    by (cases k) (use Cons.IH in auto)
qed

section \<open>Words\<close>

lemma unat_u64_lt: "unat (w :: u64) < 2 ^ 64"
  using unsigned_less [of w] by simp

lemma unat_add_u64: "unat a + unat b < 2 ^ 64 \<Longrightarrow> unat (a + b :: u64) = unat a + unat b"
  by (simp add: unat_word_ariths)

lemma unat_Suc_u64: "unat a + 1 < 2 ^ 64 \<Longrightarrow> unat (a + 1 :: u64) = unat a + 1"
  by (simp add: unat_word_ariths)

lemma unat_sub_u64: "b \<le> a \<Longrightarrow> unat (a - b :: u64) = unat a - unat b"
  by (simp add: unat_sub)

lemma unat_pred_u64: "0 < a \<Longrightarrow> unat (a - 1 :: u64) = unat a - 1"
  using unat_sub_u64 [of 1 a] by (simp add: word_le_nat_alt unat_gt_0 Suc_le_eq)

end
