(* ===== verification/Library.thy ===== *)
theory Library
  imports Sukkal_Prelude
begin

text \<open>
  The code the store is written against but that is not part of the repository: the binjson codec
  (\<open>bj_builder\<close>, \<open>bj_decode\<close>), the B+ tree of binjson-structures (\<open>bpt_*\<close>), its entry
  log (\<open>elog_*\<close>) and the directory entry a missing file answers with. All of it is one
  parameter \<open>L\<close> of every operation; nothing here defines what those functions compute.

  The last three fields of the record are specification views, never called by a modelled
  operation: the finite map a tree holds, and the base index and the entries of a log. The laws
  below say, in their terms, what the store relies on.
\<close>

section \<open>The parameter\<close>

record ('t, 'l) lib =
  bj_build :: "ev list \<Rightarrow> bj_err option \<times> bytes option"
    \<comment> \<open>after these puts: \<open>bj_builder_error\<close>, and what \<open>bj_builder_data\<close> returns\<close>
  bj_decode :: "bytes \<Rightarrow> bj_err + ev list"
    \<comment> \<open>the visitor callbacks of a successful decode, in order\<close>
  bj_value_size :: "bytes \<Rightarrow> bj_err + nat"
    \<comment> \<open>the length of the value that starts at offset 0\<close>
  ns_missing :: bj_err
    \<comment> \<open>what \<open>ns.open\<close> answers for a file that does not exist, without \<open>BJ_NS_CREATE\<close>\<close>
  bpt_create :: "'t option"
  bpt_search :: "'t \<Rightarrow> string \<Rightarrow> bytes option res"
  bpt_add :: "'t \<Rightarrow> string \<Rightarrow> bytes \<Rightarrow> 't \<times> unit res"
  bpt_delete :: "'t \<Rightarrow> string \<Rightarrow> 't \<times> unit res"
  bpt_reset :: "'t \<Rightarrow> 't \<times> unit res"
  bpt_sync :: "'t \<Rightarrow> 't \<times> unit res"
  bpt_cursor :: "'t \<Rightarrow> string option \<Rightarrow> string option \<Rightarrow> ((string \<times> bytes) list \<times> bj_err option) option"
    \<comment> \<open>\<open>None\<close> when \<open>bpt_cursor_open\<close> fails; else the entries \<open>bpt_cursor_next\<close> yields
       and the code that ends the walk\<close>
  elog_create :: "'l option"
  elog_append :: "'l \<Rightarrow> int \<Rightarrow> bytes \<Rightarrow> 'l \<times> u64 res"
    \<comment> \<open>at term 0, as every append of the store\<close>
  elog_sync :: "'l \<Rightarrow> 'l \<times> unit res"
  elog_base_index :: "'l \<Rightarrow> u64"
  elog_last_index :: "'l \<Rightarrow> u64"
  elog_file_len :: "'l \<Rightarrow> u64"
  elog_get :: "'l \<Rightarrow> u64 \<Rightarrow> (int \<times> bytes) res"
  elog_get_batch :: "'l \<Rightarrow> u64 \<Rightarrow> u64 \<Rightarrow> (nat \<times> bytes) res"
  elog_term_at :: "'l \<Rightarrow> u64 \<Rightarrow> u64 res"
  elog_compact :: "'l \<Rightarrow> u64 \<Rightarrow> u64 \<Rightarrow> 'l res"
  view_tree :: "'t \<Rightarrow> (string \<rightharpoonup> bytes)"
  view_base :: "'l \<Rightarrow> nat"
  view_ents :: "'l \<Rightarrow> (int \<times> bytes) list"

section \<open>What the store relies on\<close>

text \<open>
  The codec: what was built decodes to the same calls, as long as every integer is one a double
  holds exactly.
\<close>

definition bj_laws :: "('t, 'l) lib \<Rightarrow> bool" where
  "bj_laws L \<longleftrightarrow>
     (\<forall>evs e b. bj_build L evs = (e, Some b) \<longrightarrow> exact_evs evs \<longrightarrow> bj_decode L b = Inr evs)"

text \<open>
  The tree: a search that succeeds answers from the map, an addition or a deletion that succeeds
  updates it at that key and one that fails leaves it, a reset that succeeds empties it, and a
  cursor that runs to its end has yielded every entry from the lower bound up to the upper one,
  in key order and without repetition.
\<close>

definition bpt_laws :: "('t, 'l) lib \<Rightarrow> bool" where
  "bpt_laws L \<longleftrightarrow>
     (\<forall>t. bpt_create L = Some t \<longrightarrow> view_tree L t = Map.empty) \<and>
     (\<forall>t k r. bpt_search L t k = Inr r \<longrightarrow> r = view_tree L t k) \<and>
     (\<forall>t k v. view_tree L (fst (bpt_add L t k v)) =
        (if is_ok (snd (bpt_add L t k v)) then (view_tree L t)(k \<mapsto> v) else view_tree L t)) \<and>
     (\<forall>t k. view_tree L (fst (bpt_delete L t k)) =
        (if is_ok (snd (bpt_delete L t k)) then (view_tree L t)(k := None) else view_tree L t)) \<and>
     (\<forall>t. view_tree L (fst (bpt_reset L t)) =
        (if is_ok (snd (bpt_reset L t)) then Map.empty else view_tree L t)) \<and>
     (\<forall>t. view_tree L (fst (bpt_sync L t)) = view_tree L t) \<and>
     (\<forall>t lo hi es e. bpt_cursor L t lo hi = Some (es, e) \<longrightarrow>
        sorted_wrt (<) (map fst es) \<and>
        (\<forall>(k, v) \<in> set es. view_tree L t k = Some v \<and> (\<forall>l. lo = Some l \<longrightarrow> l \<le> k) \<and>
                            (\<forall>h. hi = Some h \<longrightarrow> k \<le> h)) \<and>
        (e = None \<longrightarrow> (\<forall>k v. view_tree L t k = Some v \<longrightarrow> (\<forall>l. lo = Some l \<longrightarrow> l \<le> k) \<longrightarrow>
                            (\<forall>h. hi = Some h \<longrightarrow> k < h) \<longrightarrow> (k, v) \<in> set es)))"

text \<open>
  The log: it holds the entries with the indexes above its base up to its last index, contiguously;
  an append that succeeds adds one at the end and names its index, a read that succeeds answers
  the entry, indexes outside the log answer \<open>BJ_ERR_RANGE\<close>, and a compaction drops the entries up
  to the new base and keeps the rest.
\<close>

definition elog_laws :: "('t, 'l) lib \<Rightarrow> bool" where
  "elog_laws L \<longleftrightarrow>
     (\<forall>l. unat (elog_base_index L l) = view_base L l) \<and>
     (\<forall>l. unat (elog_last_index L l) = view_base L l + length (view_ents L l)) \<and>
     (\<forall>l. elog_create L = Some l \<longrightarrow> view_base L l = 0 \<and> view_ents L l = []) \<and>
     (\<forall>l ty p. view_base L (fst (elog_append L l ty p)) = view_base L l) \<and>
     (\<forall>l ty p. view_ents L (fst (elog_append L l ty p)) =
        view_ents L l @ (if is_ok (snd (elog_append L l ty p)) then [(ty, p)] else [])) \<and>
     (\<forall>l ty p i. snd (elog_append L l ty p) = Inr i \<longrightarrow>
        i = elog_last_index L (fst (elog_append L l ty p))) \<and>
     (\<forall>l. view_base L (fst (elog_sync L l)) = view_base L l) \<and>
     (\<forall>l. view_ents L (fst (elog_sync L l)) = view_ents L l) \<and>
     (\<forall>l i ty p. elog_get L l i = Inr (ty, p) \<longrightarrow>
        view_base L l < unat i \<and> unat i \<le> view_base L l + length (view_ents L l) \<and>
        view_ents L l ! (unat i - view_base L l - 1) = (ty, p)) \<and>
     (\<forall>l i. (unat i \<le> view_base L l \<or> view_base L l + length (view_ents L l) < unat i) \<longrightarrow>
        elog_get L l i = Inl BJ_ERR_RANGE) \<and>
     (\<forall>l i m. unat i \<le> view_base L l \<longrightarrow> elog_get_batch L l i m = Inl BJ_ERR_RANGE) \<and>
     (\<forall>l i m n b. elog_get_batch L l i m = Inr (n, b) \<longrightarrow>
        view_base L l < unat i \<and>
        n \<le> view_base L l + length (view_ents L l) + 1 - unat i) \<and>
     (\<forall>l nb t l'. elog_compact L l nb t = Inr l' \<longrightarrow>
        view_base L l \<le> unat nb \<longrightarrow> unat nb \<le> view_base L l + length (view_ents L l) \<longrightarrow>
        view_base L l' = unat nb \<and> view_ents L l' = drop (unat nb - view_base L l) (view_ents L l))"

definition lib_laws :: "('t, 'l) lib \<Rightarrow> bool" where
  "lib_laws L \<longleftrightarrow> bj_laws L \<and> bpt_laws L \<and> elog_laws L"

section \<open>Batches\<close>

text \<open>
  What \<open>elog_get_batch\<close> encodes: an array of \<open>{ index, term, type, payload }\<close>, one object per entry,
  indexes counting up from the first. The store hands these bytes on unread; subscribers decode them.
\<close>

fun batch_entries :: "u64 \<Rightarrow> u64 list \<Rightarrow> (int \<times> bytes) list \<Rightarrow> ev list list" where
  "batch_entries i (t # ts) ((ty, p) # es) =
     bj_object [(''index'', [EInt i]), (''term'', [EInt t]), (''type'', [EInt (word_of_int ty)]),
       (''payload'', [EBin p])] # batch_entries (i + 1) ts es"
| "batch_entries i _ _ = []"

definition batch_events :: "u64 \<Rightarrow> u64 list \<Rightarrow> (int \<times> bytes) list \<Rightarrow> ev list" where
  "batch_events i ts es = bj_array (batch_entries i ts es)"

definition batch_law :: "('t, 'l) lib \<Rightarrow> bool" where
  "batch_law L \<longleftrightarrow>
     (\<forall>l i m n b. elog_get_batch L l i m = Inr (n, b) \<longrightarrow>
        view_base L l + length (view_ents L l) \<le> 2 ^ 53 \<longrightarrow>
        (\<exists>ts. length ts = n \<and>
           bj_decode L b = Inr (batch_events i ts (take n (drop (unat i - view_base L l - 1) (view_ents L l))))))"

section \<open>The laws as rules\<close>

lemma lib_lawsD:
  assumes "lib_laws L"
  shows "bj_laws L" and "bpt_laws L" and "elog_laws L"
  using assms by (simp_all add: lib_laws_def)

lemma decode_build:
  "bj_laws L \<Longrightarrow> bj_build L evs = (e, Some b) \<Longrightarrow> exact_evs evs \<Longrightarrow> bj_decode L b = Inr evs"
  by (simp add: bj_laws_def)

lemma bpt_createD: "bpt_laws L \<Longrightarrow> bpt_create L = Some t \<Longrightarrow> view_tree L t = Map.empty"
  by (simp add: bpt_laws_def)

lemma bpt_searchD: "bpt_laws L \<Longrightarrow> bpt_search L t k = Inr r \<Longrightarrow> r = view_tree L t k"
  by (simp add: bpt_laws_def)

lemma bpt_addD:
  "bpt_laws L \<Longrightarrow> bpt_add L t k v = (t', r) \<Longrightarrow>
     view_tree L t' = (if is_ok r then (view_tree L t)(k \<mapsto> v) else view_tree L t)"
  unfolding bpt_laws_def by (metis fst_conv snd_conv)

lemma bpt_deleteD:
  "bpt_laws L \<Longrightarrow> bpt_delete L t k = (t', r) \<Longrightarrow>
     view_tree L t' = (if is_ok r then (view_tree L t)(k := None) else view_tree L t)"
  unfolding bpt_laws_def by (metis fst_conv snd_conv)

lemma bpt_resetD:
  "bpt_laws L \<Longrightarrow> bpt_reset L t = (t', r) \<Longrightarrow>
     view_tree L t' = (if is_ok r then Map.empty else view_tree L t)"
  unfolding bpt_laws_def by (metis fst_conv snd_conv)

lemma bpt_syncD: "bpt_laws L \<Longrightarrow> bpt_sync L t = (t', r) \<Longrightarrow> view_tree L t' = view_tree L t"
  unfolding bpt_laws_def by (metis fst_conv)

lemma bpt_cursorD:
  assumes "bpt_laws L" and "bpt_cursor L t lo hi = Some (es, e)"
  shows "sorted_wrt (<) (map fst es)"
    and "(k, v) \<in> set es \<Longrightarrow> view_tree L t k = Some v"
    and "(k, v) \<in> set es \<Longrightarrow> lo = Some l \<Longrightarrow> l \<le> k"
    and "(k, v) \<in> set es \<Longrightarrow> hi = Some h \<Longrightarrow> k \<le> h"
    and "e = None \<Longrightarrow> view_tree L t k = Some v \<Longrightarrow> (\<forall>l. lo = Some l \<longrightarrow> l \<le> k) \<Longrightarrow>
         (\<forall>h. hi = Some h \<longrightarrow> k < h) \<Longrightarrow> (k, v) \<in> set es"
proof -
  have law: "sorted_wrt (<) (map fst es) \<and>
        (\<forall>(k, v) \<in> set es. view_tree L t k = Some v \<and> (\<forall>l. lo = Some l \<longrightarrow> l \<le> k) \<and>
                            (\<forall>h. hi = Some h \<longrightarrow> k \<le> h)) \<and>
        (e = None \<longrightarrow> (\<forall>k v. view_tree L t k = Some v \<longrightarrow> (\<forall>l. lo = Some l \<longrightarrow> l \<le> k) \<longrightarrow>
                            (\<forall>h. hi = Some h \<longrightarrow> k < h) \<longrightarrow> (k, v) \<in> set es))"
    using assms by (simp add: bpt_laws_def)
  show "sorted_wrt (<) (map fst es)" using law by blast
  show "(k, v) \<in> set es \<Longrightarrow> view_tree L t k = Some v" using law by blast
  show "(k, v) \<in> set es \<Longrightarrow> lo = Some l \<Longrightarrow> l \<le> k" using law by blast
  show "(k, v) \<in> set es \<Longrightarrow> hi = Some h \<Longrightarrow> k \<le> h" using law by blast
  show "e = None \<Longrightarrow> view_tree L t k = Some v \<Longrightarrow> (\<forall>l. lo = Some l \<longrightarrow> l \<le> k) \<Longrightarrow>
         (\<forall>h. hi = Some h \<longrightarrow> k < h) \<Longrightarrow> (k, v) \<in> set es" using law by blast
qed

lemma elog_indexD:
  assumes "elog_laws L"
  shows "unat (elog_base_index L l) = view_base L l"
    and "unat (elog_last_index L l) = view_base L l + length (view_ents L l)"
  using assms by (simp_all add: elog_laws_def)

lemma elog_createD:
  "elog_laws L \<Longrightarrow> elog_create L = Some l \<Longrightarrow> view_base L l = 0 \<and> view_ents L l = []"
  by (simp add: elog_laws_def)

lemma elog_appendD:
  "elog_laws L \<Longrightarrow> elog_append L l ty p = (l', r) \<Longrightarrow>
     view_base L l' = view_base L l \<and>
     view_ents L l' = view_ents L l @ (if is_ok r then [(ty, p)] else []) \<and>
     (\<forall>i. r = Inr i \<longrightarrow> i = elog_last_index L l')"
  unfolding elog_laws_def by (metis fst_conv snd_conv)

lemma elog_syncD:
  "elog_laws L \<Longrightarrow> elog_sync L l = (l', r) \<Longrightarrow>
     view_base L l' = view_base L l \<and> view_ents L l' = view_ents L l"
  unfolding elog_laws_def by (metis fst_conv)

lemma elog_getD:
  "elog_laws L \<Longrightarrow> elog_get L l i = Inr (ty, p) \<Longrightarrow>
     view_base L l < unat i \<and> unat i \<le> view_base L l + length (view_ents L l) \<and>
     view_ents L l ! (unat i - view_base L l - 1) = (ty, p)"
  by (simp add: elog_laws_def)

lemma elog_get_rangeD:
  "elog_laws L \<Longrightarrow> unat i \<le> view_base L l \<or> view_base L l + length (view_ents L l) < unat i \<Longrightarrow>
     elog_get L l i = Inl BJ_ERR_RANGE"
  unfolding elog_laws_def by metis

lemma elog_get_batchD:
  "elog_laws L \<Longrightarrow> elog_get_batch L l i m = Inr (n, b) \<Longrightarrow>
     view_base L l < unat i \<and> n \<le> view_base L l + length (view_ents L l) + 1 - unat i"
  unfolding elog_laws_def by metis

lemma elog_get_batch_rangeD:
  "elog_laws L \<Longrightarrow> unat i \<le> view_base L l \<Longrightarrow> elog_get_batch L l i m = Inl BJ_ERR_RANGE"
  by (simp add: elog_laws_def)

lemma elog_compactD:
  "elog_laws L \<Longrightarrow> elog_compact L l nb t = Inr l' \<Longrightarrow> view_base L l \<le> unat nb \<Longrightarrow>
     unat nb \<le> view_base L l + length (view_ents L l) \<Longrightarrow>
     view_base L l' = unat nb \<and> view_ents L l' = drop (unat nb - view_base L l) (view_ents L l)"
  by (simp add: elog_laws_def)

section \<open>Writing one value\<close>

text \<open>
  Two patterns recur in the store. A value is built and added under a key, where a builder without
  data answers \<open>BJ_ERR_STATE\<close>; and a listing is built and returned, where a builder error comes
  first.
\<close>

definition bpt_put :: "('t, 'l) lib \<Rightarrow> 't \<Rightarrow> string \<Rightarrow> ev list \<Rightarrow> 't \<times> unit res" where
  "bpt_put L t k evs =
     (case snd (bj_build L evs) of None \<Rightarrow> (t, Inl BJ_ERR_STATE) | Some v \<Rightarrow> bpt_add L t k v)"

definition bj_finish :: "('t, 'l) lib \<Rightarrow> ev list \<Rightarrow> bytes res" where
  "bj_finish L evs =
     (case bj_build L evs of (Some e, _) \<Rightarrow> Inl e
      | (None, None) \<Rightarrow> Inl BJ_ERR_STATE | (None, Some b) \<Rightarrow> Inr b)"

definition value_events :: "('t, 'l) lib \<Rightarrow> bytes \<Rightarrow> ev list option" where
  "value_events L b = (case bj_decode L b of Inl _ \<Rightarrow> None | Inr evs \<Rightarrow> Some evs)"

lemma bpt_putD:
  assumes laws: "bj_laws L" "bpt_laws L" and exact: "exact_evs evs"
    and put: "bpt_put L t k evs = (t', r)"
  shows "is_ok r \<Longrightarrow> \<exists>b. view_tree L t' = (view_tree L t)(k \<mapsto> b) \<and> bj_decode L b = Inr evs"
    and "\<not> is_ok r \<Longrightarrow> view_tree L t' = view_tree L t"
proof -
  obtain e d where bd: "bj_build L evs = (e, d)" by (cases "bj_build L evs")
  show "is_ok r \<Longrightarrow> \<exists>b. view_tree L t' = (view_tree L t)(k \<mapsto> b) \<and> bj_decode L b = Inr evs"
    using put bd bpt_addD [OF laws(2)] decode_build [OF laws(1) _ exact]
    by (fastforce simp: bpt_put_def split: option.splits)
  show "\<not> is_ok r \<Longrightarrow> view_tree L t' = view_tree L t"
    using put bd bpt_addD [OF laws(2)] by (fastforce simp: bpt_put_def split: option.splits)
qed

lemma bpt_put_frame:
  assumes "bpt_laws L" and "bpt_put L t k evs = (t', r)" and "k' \<noteq> k"
  shows "view_tree L t' k' = view_tree L t k'"
  using assms bpt_addD [OF assms(1)]
  by (cases "bj_build L evs") (fastforce simp: bpt_put_def split: option.splits)

lemma bj_finishD:
  "bj_laws L \<Longrightarrow> bj_finish L evs = Inr b \<Longrightarrow> exact_evs evs \<Longrightarrow> bj_decode L b = Inr evs"
  by (auto simp: bj_finish_def decode_build split: prod.splits option.splits)

end
