(* ===== verification/Names.thy ===== *)
theory Names
  imports Sukkal_Prelude
begin

text \<open>
  Names, patterns and keys (\<open>src/src/store.c\<close>): the character rules for subjects, consumers,
  groups, callbacks, tokens and dedup ids, the token-wise wildcard matching, the dead-letter name
  and the composite keys of the trees. A C string is its list of characters; the NULL pointer no
  caller passes is not represented.
\<close>

section \<open>Names\<close>

definition BJM_SUBJECT_MAX :: nat where "BJM_SUBJECT_MAX = 128"
definition BJM_CONSUMER_MAX :: nat where "BJM_CONSUMER_MAX = 128"
definition BJM_GROUP_MAX :: nat where "BJM_GROUP_MAX = 128"
definition BJM_CALLBACK_MAX :: nat where "BJM_CALLBACK_MAX = 512"
definition BJM_TOKEN_MAX :: nat where "BJM_TOKEN_MAX = 128"
definition BJM_DEDUP_ID_MAX :: nat where "BJM_DEDUP_ID_MAX = 128"
definition BJM_DEAD_SUFFIX :: string where "BJM_DEAD_SUFFIX = ''.dead''"
definition SUBJECT_SUFFIX :: string where "SUBJECT_SUFFIX = ''.elog''"

lemmas name_limits [simp] =
  BJM_SUBJECT_MAX_def BJM_CONSUMER_MAX_def BJM_GROUP_MAX_def BJM_CALLBACK_MAX_def
  BJM_TOKEN_MAX_def BJM_DEDUP_ID_MAX_def

definition token_char :: "char \<Rightarrow> bool" where
  "token_char c \<longleftrightarrow>
     (CHR ''a'' \<le> c \<and> c \<le> CHR ''z'') \<or> (CHR ''A'' \<le> c \<and> c \<le> CHR ''Z'') \<or>
     (CHR ''0'' \<le> c \<and> c \<le> CHR ''9'') \<or> c = CHR ''_'' \<or> c = CHR ''-''"

definition name_char :: "char \<Rightarrow> bool" where
  "name_char c \<longleftrightarrow> token_char c \<or> c = CHR ''.''"

text \<open>The loop of \<open>name_valid\<close>: a legal character, and no dot before another dot.\<close>

fun name_loop :: "string \<Rightarrow> bool" where
  "name_loop [] = True"
| "name_loop (c # cs) =
     (if \<not> name_char c then False
      else if c = CHR ''.'' \<and> take 1 cs = ''.'' then False
      else name_loop cs)"

definition name_valid :: "string \<Rightarrow> nat \<Rightarrow> bool" where
  "name_valid s limit =
     (let n = length s in
      if n = 0 \<or> n > limit then False
      else if s ! 0 = CHR ''.'' \<or> s ! (n - 1) = CHR ''.'' then False
      else name_loop s)"

definition bjm_subject_valid :: "string \<Rightarrow> bool" where
  "bjm_subject_valid s = name_valid s BJM_SUBJECT_MAX"

definition bjm_consumer_valid :: "string \<Rightarrow> bool" where
  "bjm_consumer_valid s = name_valid s BJM_CONSUMER_MAX"

definition bjm_group_valid :: "string \<Rightarrow> bool" where
  "bjm_group_valid s = name_valid s BJM_GROUP_MAX"

section \<open>Subject patterns\<close>

text \<open>Next token and the rest of the string, or \<open>None\<close> when the string is exhausted.\<close>

definition next_token :: "string \<Rightarrow> (string \<times> string) option" where
  "next_token p =
     (if p = [] then None
      else Some (takeWhile (\<lambda>c. c \<noteq> CHR ''.'') p, drop 1 (dropWhile (\<lambda>c. c \<noteq> CHR ''.'') p)))"

lemma next_token_shorter: "next_token p = Some (t, r) \<Longrightarrow> length r < length p"
  using length_dropWhile_le [of "\<lambda>c. c \<noteq> CHR ''.''" p]
  by (cases p) (auto simp: next_token_def split: if_splits)

definition bjm_pattern_is :: "string \<Rightarrow> bool" where
  "bjm_pattern_is s \<longleftrightarrow> CHR ''*'' \<in> set s \<or> CHR ''>'' \<in> set s"

function pattern_tokens_valid :: "string \<Rightarrow> bool" where
  "pattern_tokens_valid p =
     (case next_token p of
        None \<Rightarrow> True
      | Some (tok, rest) \<Rightarrow>
          if length tok = 0 then False
          else if tok = ''>'' then rest = []
          else if tok = ''*'' then pattern_tokens_valid rest
          else if list_all token_char tok then pattern_tokens_valid rest
          else False)"
  by pat_completeness auto
termination
  by (relation "measure length") (auto dest: next_token_shorter)

declare pattern_tokens_valid.simps [simp del]

definition bjm_pattern_valid :: "string \<Rightarrow> bool" where
  "bjm_pattern_valid s =
     (if s = [] then False
      else if length s > BJM_SUBJECT_MAX then False
      else pattern_tokens_valid s)"

function bjm_pattern_match :: "string \<Rightarrow> string \<Rightarrow> bool" where
  "bjm_pattern_match p s =
     (case next_token p of
        None \<Rightarrow> s = []
      | Some (pt, p') \<Rightarrow>
          if pt = ''>'' then s \<noteq> []
          else (case next_token s of
                  None \<Rightarrow> False
                | Some (st, s') \<Rightarrow>
                    if pt = ''*'' then bjm_pattern_match p' s'
                    else if pt \<noteq> st then False
                    else bjm_pattern_match p' s'))"
  by pat_completeness auto
termination
  by (relation "measure (\<lambda>(p, s). length p)") (auto dest: next_token_shorter)

declare bjm_pattern_match.simps [simp del]

section \<open>Callbacks, tokens and dedup ids\<close>

definition visible_char :: "char \<Rightarrow> bool" where
  "visible_char c \<longleftrightarrow> CHR 0x20 < c \<and> c < CHR 0x7F"

definition bjm_callback_valid :: "string \<Rightarrow> bool" where
  "bjm_callback_valid url =
     (let n = length url in
      if n = 0 \<or> n > BJM_CALLBACK_MAX then False
      else if take 7 url \<noteq> ''http://'' \<and> take 8 url \<noteq> ''https://'' then False
      else list_all visible_char url)"

definition bjm_token_valid :: "string \<Rightarrow> bool" where
  "bjm_token_valid s = (if length s > BJM_TOKEN_MAX then False else list_all visible_char s)"

definition bjm_dedup_id_valid :: "string \<Rightarrow> bool" where
  "bjm_dedup_id_valid s =
     (let n = length s in
      if n = 0 \<or> n > BJM_DEDUP_ID_MAX then False
      else list_all (\<lambda>c. \<not> (c = CHR ''/'' \<or> c < CHR 0x20 \<or> c = CHR 0x7F)) s)"

section \<open>The dead-letter channel\<close>

definition has_dead_suffix :: "string \<Rightarrow> bool" where
  "has_dead_suffix s \<longleftrightarrow>
     length s \<ge> length BJM_DEAD_SUFFIX \<and> drop (length s - length BJM_DEAD_SUFFIX) s = BJM_DEAD_SUFFIX"

text \<open>\<open>cap\<close> is the size of the caller's buffer, \<open>BJM_SUBJECT_MAX + 1\<close> everywhere.\<close>

definition dead_subject_of :: "string \<Rightarrow> nat \<Rightarrow> string option" where
  "dead_subject_of subject cap =
     (if has_dead_suffix subject then None
      else let out = subject @ BJM_DEAD_SUFFIX in
        if length out \<ge> cap \<or> \<not> bjm_subject_valid out then None else Some out)"

section \<open>Keys\<close>

definition cursor_key :: "string \<Rightarrow> string \<Rightarrow> string res" where
  "cursor_key subject consumer =
     (let k = subject @ ''/'' @ consumer in
      if length k \<ge> BJM_SUBJECT_MAX + BJM_CONSUMER_MAX + 2 then Inl BJ_ERR_RANGE else Inr k)"

definition dedup_key :: "string \<Rightarrow> string \<Rightarrow> string res" where
  "dedup_key subject id' =
     (let k = subject @ ''/'' @ id' in
      if length k \<ge> BJM_SUBJECT_MAX + BJM_DEDUP_ID_MAX + 2 then Inl BJ_ERR_RANGE else Inr k)"

definition queue_key :: "string \<Rightarrow> string \<Rightarrow> string res" where
  "queue_key subject grp =
     (let k = subject @ ''/'' @ grp in
      if length k \<ge> BJM_SUBJECT_MAX + BJM_GROUP_MAX + 2 then Inl BJ_ERR_RANGE else Inr k)"

definition policy_key :: "char \<Rightarrow> string \<Rightarrow> string res" where
  "policy_key kind subject =
     (let k = kind # ''/'' @ subject in
      if length k \<ge> BJM_SUBJECT_MAX + 4 then Inl BJ_ERR_RANGE else Inr k)"

definition push_key :: "string \<Rightarrow> string" where
  "push_key consumer = consumer"

text \<open>
  Bounds of one subject's keys, and the length of the common prefix. The code prints both bounds
  into buffers that hold any subject of up to \<open>BJM_SUBJECT_MAX\<close> characters.
\<close>

definition consumer_range :: "string \<Rightarrow> string \<times> string \<times> nat" where
  "consumer_range subject = (subject @ ''/'', subject @ ''0'', length subject + 1)"

definition queue_range :: "string \<Rightarrow> string \<times> string \<times> nat" where
  "queue_range subject = (subject @ ''/'', subject @ ''0'', length subject + 1)"

section \<open>What a valid name is made of\<close>

lemma name_loop_chars: "name_loop s \<Longrightarrow> c \<in> set s \<Longrightarrow> name_char c"
  by (induction s) (auto split: if_splits)

lemma name_validD:
  assumes "name_valid s n"
  shows "s \<noteq> []" and "length s \<le> n" and "c \<in> set s \<Longrightarrow> name_char c" and "name_loop s"
  using assms name_loop_chars by (auto simp: name_valid_def Let_def split: if_splits)

lemma name_char_not_special:
  "\<not> name_char CHR ''/''" "\<not> name_char CHR 0x00" "\<not> name_char CHR ''*''" "\<not> name_char CHR ''>''"
  by (simp_all add: name_char_def token_char_def less_eq_char_def)

lemma name_valid_no_special:
  assumes "name_valid s n"
  shows "CHR ''/'' \<notin> set s" and "CHR 0x00 \<notin> set s" and "CHR ''*'' \<notin> set s" and "CHR ''>'' \<notin> set s"
  using name_validD(3) [OF assms] name_char_not_special by blast+

lemmas valid_defs = bjm_subject_valid_def bjm_consumer_valid_def bjm_group_valid_def

text \<open>
  A composite key parses back in one way, and the keys between a subject's two bounds are exactly
  those that start with the subject and a slash.
\<close>

lemma key_inj:
  assumes "name_valid s n" and "name_valid s' n"
  shows "s @ ''/'' @ c = s' @ ''/'' @ c' \<longleftrightarrow> s = s' \<and> c = c'"
  using append_sep_inj [of "CHR ''/''" s s'] name_valid_no_special(1) assms by simp

lemma cursor_keyD: "cursor_key s c = Inr k \<Longrightarrow> k = s @ ''/'' @ c"
  by (auto simp: cursor_key_def Let_def split: if_splits)

lemma queue_keyD: "queue_key s c = Inr k \<Longrightarrow> k = s @ ''/'' @ c"
  by (auto simp: queue_key_def Let_def split: if_splits)

lemma dedup_keyD: "dedup_key s c = Inr k \<Longrightarrow> k = s @ ''/'' @ c"
  by (auto simp: dedup_key_def Let_def split: if_splits)

lemma policy_keyD: "policy_key c s = Inr k \<Longrightarrow> k = c # ''/'' @ s"
  by (auto simp: policy_key_def Let_def split: if_splits)

lemma slash_next: "CHR ''/'' < (z :: char) \<Longrightarrow> CHR ''0'' \<le> z"
  by (simp add: less_char_def less_eq_char_def)

lemma key_in_range:
  "p @ ''/'' \<le> k \<and> k < p @ ''0'' \<longleftrightarrow> (\<exists>r. k = p @ ''/'' @ r)"
  using prefix_range [of "CHR ''/''" "CHR ''0''" p k] slash_next
  by (simp add: less_char_def)

section \<open>Names as token lists\<close>

text \<open>The reference reading of a name: its tokens, separated by dots.\<close>

fun tokens :: "string \<Rightarrow> string list" where
  "tokens [] = [[]]"
| "tokens (c # cs) =
     (if c = CHR ''.'' then [] # tokens cs
      else (case tokens cs of [] \<Rightarrow> [[c]] | t # ts \<Rightarrow> (c # t) # ts))"

definition proper_tokens :: "string \<Rightarrow> bool" where
  "proper_tokens s \<longleftrightarrow> [] \<notin> set (tokens s)"

lemma tokens_nonempty [simp]: "tokens s \<noteq> []"
  by (induction s) (auto split: list.splits)

lemma tokens_span:
  "tokens s = takeWhile (\<lambda>c. c \<noteq> CHR ''.'') s #
     (case dropWhile (\<lambda>c. c \<noteq> CHR ''.'') s of [] \<Rightarrow> [] | _ # r \<Rightarrow> tokens r)"
  by (induction s) (auto split: list.splits)

lemma token_char_no_dot: "\<not> token_char CHR ''.''"
  by (simp add: token_char_def less_eq_char_def)

lemma tokens_chars:
  "(\<forall>t \<in> set (tokens s). list_all token_char t) \<longleftrightarrow> list_all name_char s"
proof (induction s)
  case Nil
  then show ?case by simp
next
  case (Cons c s)
  obtain t ts where t: "tokens s = t # ts" by (cases "tokens s") auto
  with Cons show ?case using token_char_no_dot by (auto simp: name_char_def)
qed

lemma proper_tokens_Cons:
  "proper_tokens (c # s) \<longleftrightarrow>
     (if c = CHR ''.'' then False
      else s = [] \<or> proper_tokens s \<or> (take 1 s = ''.'' \<and> proper_tokens (drop 1 s)))"
proof (cases s)
  case Nil
  then show ?thesis by (simp add: proper_tokens_def)
next
  case (Cons d r)
  obtain t ts where "tokens r = t # ts" by (cases "tokens r") auto
  with Cons show ?thesis by (auto simp: proper_tokens_def)
qed

text \<open>
  The loop only looks at pairs of characters, so it agrees with the token reading once the first
  and the last character are known not to be dots.
\<close>

lemma name_loop_proper:
  "s \<noteq> [] \<Longrightarrow> name_loop s \<and> last s \<noteq> CHR ''.'' \<and> hd s \<noteq> CHR ''.'' \<longleftrightarrow>
     list_all name_char s \<and> proper_tokens s"
proof (induction s rule: length_induct)
  case (1 s)
  then obtain c r where s: "s = c # r" by (cases s) auto
  have ih: "length y < length s \<Longrightarrow> y \<noteq> [] \<Longrightarrow>
      name_loop y \<and> last y \<noteq> CHR ''.'' \<and> hd y \<noteq> CHR ''.'' \<longleftrightarrow> list_all name_char y \<and> proper_tokens y" for y
    using 1(1) by blast
  show ?case
  proof (cases r)
    case Nil
    with s show ?thesis by (auto simp: proper_tokens_def)
  next
    case (Cons d q)
    show ?thesis
    proof (cases "d = CHR ''.''")
      case False
      have "name_loop r \<and> last r \<noteq> CHR ''.'' \<and> hd r \<noteq> CHR ''.'' \<longleftrightarrow> list_all name_char r \<and> proper_tokens r"
        by (rule ih) (simp_all add: s Cons)
      moreover have "proper_tokens (c # d # q) \<longleftrightarrow> c \<noteq> CHR ''.'' \<and> proper_tokens (d # q)"
        using proper_tokens_Cons [of c r] Cons False by simp
      ultimately show ?thesis using s Cons False by auto
    next
      case True
      have notr: "\<not> proper_tokens r" using Cons True by (simp add: proper_tokens_def)
      show ?thesis
      proof (cases q)
        case Nil
        with s Cons True show ?thesis by (simp add: proper_tokens_def)
      next
        case (Cons e w)
        have "name_loop q \<and> last q \<noteq> CHR ''.'' \<and> hd q \<noteq> CHR ''.'' \<longleftrightarrow> list_all name_char q \<and> proper_tokens q"
          by (rule ih) (simp_all add: s \<open>r = d # q\<close> Cons)
        moreover have "proper_tokens (c # d # q) \<longleftrightarrow> c \<noteq> CHR ''.'' \<and> proper_tokens q"
          using proper_tokens_Cons [of c r] \<open>r = d # q\<close> True notr by simp
        moreover have "name_char CHR ''.''" by (simp add: name_char_def)
        ultimately show ?thesis using s \<open>r = d # q\<close> True Cons by auto
      qed
    qed
  qed
qed

lemma next_token_tokens:
  assumes "s \<noteq> []" and "proper_tokens s"
  obtains t r where "next_token s = Some (t, r)" and "t = hd (tokens s)" and "t \<noteq> []"
    and "r = [] \<longleftrightarrow> tl (tokens s) = []" and "r \<noteq> [] \<Longrightarrow> tokens r = tl (tokens s) \<and> proper_tokens r"
proof -
  let ?t = "takeWhile (\<lambda>c. c \<noteq> CHR ''.'') s" and ?d = "dropWhile (\<lambda>c. c \<noteq> CHR ''.'') s"
  have nt: "next_token s = Some (?t, drop 1 ?d)" using assms(1) by (simp add: next_token_def)
  note sp = tokens_span [of s]
  have ne: "?t \<noteq> []" using assms(2) sp by (auto simp: proper_tokens_def)
  show thesis
  proof (cases ?d)
    case Nil
    then have nt': "next_token s = Some (?t, [])" using nt by (simp del: dropWhile_eq_Nil_conv)
    have "tokens s = [?t]" using Nil sp by (simp del: dropWhile_eq_Nil_conv)
    with ne show thesis by (intro that [OF nt']) simp_all
  next
    case (Cons c r)
    with sp have tk: "tokens s = ?t # tokens r" by simp
    then have "r \<noteq> []" using assms(2) by (auto simp: proper_tokens_def)
    with nt tk ne Cons assms(2) show thesis
      by (intro that [OF nt]) (auto simp: proper_tokens_def)
  qed
qed

text \<open>The wildcard rule over tokens: a star is one token, a final \<open>>\<close> is one or more.\<close>

fun tokens_match :: "string list \<Rightarrow> string list \<Rightarrow> bool" where
  "tokens_match [] ts = (ts = [])"
| "tokens_match (p # ps) [] = False"
| "tokens_match (p # ps) (t # ts) =
     (if p = ''>'' then True else (p = ''*'' \<or> p = t) \<and> tokens_match ps ts)"

lemma pattern_match_nil: "bjm_pattern_match [] s \<longleftrightarrow> s = []"
  by (simp add: bjm_pattern_match.simps next_token_def)

lemma pattern_match_tokens:
  "p \<noteq> [] \<Longrightarrow> proper_tokens p \<Longrightarrow> s \<noteq> [] \<Longrightarrow> proper_tokens s \<Longrightarrow>
     bjm_pattern_match p s \<longleftrightarrow> tokens_match (tokens p) (tokens s)"
proof (induction "length p" arbitrary: p s rule: less_induct)
  case less
  obtain pt pr where p: "next_token p = Some (pt, pr)" "pt = hd (tokens p)"
      "pr = [] \<longleftrightarrow> tl (tokens p) = []" "pr \<noteq> [] \<Longrightarrow> tokens pr = tl (tokens p) \<and> proper_tokens pr"
    using next_token_tokens [OF less.prems(1,2)] by metis
  obtain st sr where s: "next_token s = Some (st, sr)" "st = hd (tokens s)"
      "sr = [] \<longleftrightarrow> tl (tokens s) = []" "sr \<noteq> [] \<Longrightarrow> tokens sr = tl (tokens s) \<and> proper_tokens sr"
    using next_token_tokens [OF less.prems(3,4)] by metis
  have tp: "tokens p = pt # tl (tokens p)" and ts: "tokens s = st # tl (tokens s)"
    using p(2) s(2) by simp_all
  have rest: "bjm_pattern_match pr sr \<longleftrightarrow> tokens_match (tl (tokens p)) (tl (tokens s))"
  proof (cases "pr = []")
    case True
    with p(3) s(3) show ?thesis by (simp add: pattern_match_nil)
  next
    case pr: False
    show ?thesis
    proof (cases "sr = []")
      case True
      have "\<not> bjm_pattern_match pr []" if "hd (tokens pr) = hd (tokens pr)"
      proof -
        obtain u v where "next_token pr = Some (u, v)" using pr by (auto simp: next_token_def)
        then show ?thesis by (subst bjm_pattern_match.simps) (simp add: next_token_def)
      qed
      with True s(3) pr p(3) show ?thesis by (cases "tl (tokens p)") auto
    next
      case False
      have "length pr < length p" by (rule next_token_shorter [OF p(1)])
      from less.hyps [OF this pr _ False] p(4) [OF pr] s(4) [OF False] show ?thesis by simp
    qed
  qed
  have "bjm_pattern_match p s \<longleftrightarrow> (if pt = ''>'' then True else (pt = ''*'' \<or> pt = st) \<and> bjm_pattern_match pr sr)"
    using p(1) s(1) less.prems(3) by (subst bjm_pattern_match.simps) auto
  with rest show ?case by (subst tp, subst ts) simp
qed

section \<open>Properties\<close>

lemma name_valid_tokens:
  "name_valid s limit \<longleftrightarrow>
     length s \<le> limit \<and> (\<forall>t \<in> set (tokens s). t \<noteq> [] \<and> list_all token_char t)"
proof (cases "s = []")
  case True
  then show ?thesis by (simp add: name_valid_def)
next
  case False
  then have "name_valid s limit \<longleftrightarrow>
      length s \<le> limit \<and> name_loop s \<and> last s \<noteq> CHR ''.'' \<and> hd s \<noteq> CHR ''.''"
    by (auto simp: name_valid_def Let_def last_conv_nth hd_conv_nth)
  also have "\<dots> \<longleftrightarrow> length s \<le> limit \<and> list_all name_char s \<and> proper_tokens s"
    using name_loop_proper [OF False] by blast
  also have "\<dots> \<longleftrightarrow> length s \<le> limit \<and> (\<forall>t \<in> set (tokens s). t \<noteq> [] \<and> list_all token_char t)"
    unfolding tokens_chars [symmetric] proper_tokens_def by auto
  finally show ?thesis .
qed

text \<open>
  A name is valid exactly when it fits and splits at its dots into non-empty tokens of letters,
  digits, underscores and dashes. Such a name contains no slash, NUL or wildcard.
\<close>

theorem name_valid_iff:
  "name_valid s limit \<longleftrightarrow>
     length s \<le> limit \<and> list_all (\<lambda>t. t \<noteq> [] \<and> list_all token_char t) (tokens s)"
  by (simp add: name_valid_tokens list_all_iff)

text \<open>
  C31: Matching reads pattern and subject token by token: a star stands for exactly one token, a
  \<open>>\<close> for one or more to the end, and every other token for itself; for every pattern and subject
  without empty tokens.
\<close>

theorem pattern_match_iff:
  assumes "p \<noteq> []" and "proper_tokens p" and "bjm_subject_valid s"
  shows "bjm_pattern_match p s \<longleftrightarrow> tokens_match (tokens p) (tokens s)"
proof -
  have "s \<noteq> []" using assms(3) name_validD(1) by (auto simp: bjm_subject_valid_def)
  moreover have "proper_tokens s"
    using assms(3) name_valid_tokens by (auto simp: bjm_subject_valid_def proper_tokens_def)
  ultimately show ?thesis using pattern_match_tokens [OF assms(1,2)] by blast
qed

theorem pattern_match_iff_witness:
  "bjm_pattern_match ''orders.*.>'' ''orders.eu.late.7'' \<longleftrightarrow>
     tokens_match [''orders'', ''*'', ''>''] [''orders'', ''eu'', ''late'', ''7'']"
proof -
  have "bjm_subject_valid ''orders.eu.late.7''" "proper_tokens ''orders.*.>''" by code_simp+
  from pattern_match_iff [OF _ this(2,1)] show ?thesis by simp
qed

text \<open>
  The dead-letter channel of a subject is itself a valid subject, has none of its own, and
  belongs to one subject only.
\<close>

theorem dead_subject_sound:
  assumes "dead_subject_of s (BJM_SUBJECT_MAX + 1) = Some d"
  shows "bjm_subject_valid d \<and> dead_subject_of d cap = None \<and> d \<noteq> s \<and>
         (\<forall>s'. dead_subject_of s' (BJM_SUBJECT_MAX + 1) = Some d \<longrightarrow> s' = s)"
proof -
  have d: "d = s @ BJM_DEAD_SUFFIX" and v: "bjm_subject_valid d"
    using assms by (auto simp: dead_subject_of_def Let_def split: if_splits)
  have "dead_subject_of d cap = None"
    by (simp add: dead_subject_of_def has_dead_suffix_def d)
  moreover have "s' = s" if "dead_subject_of s' (BJM_SUBJECT_MAX + 1) = Some d" for s'
    using that d by (auto simp: dead_subject_of_def Let_def split: if_splits)
  ultimately show ?thesis using v d by (auto simp: BJM_DEAD_SUFFIX_def)
qed

theorem dead_subject_sound_witness:
  "bjm_subject_valid ''jobs.dead'' \<and> dead_subject_of ''jobs.dead'' 129 = None"
proof -
  have "dead_subject_of ''jobs'' (BJM_SUBJECT_MAX + 1) = Some ''jobs.dead''" by code_simp
  from dead_subject_sound [OF this, of 129] show ?thesis by blast
qed

text \<open>
  A callback or token that passes its check cannot end a header line or split a request: it
  contains no control character, no space and no byte above ASCII.
\<close>

theorem callback_and_token_safe:
  assumes "bjm_callback_valid u \<or> bjm_token_valid u" and "c \<in> set u"
  shows "CHR 0x20 < c \<and> c < CHR 0x7F \<and> length u \<le> 512"
  using assms
  by (auto simp: bjm_callback_valid_def bjm_token_valid_def list_all_iff visible_char_def Let_def split: if_splits)

theorem callback_and_token_safe_witness:
  "CHR 0x20 < CHR ''h'' \<and> CHR ''h'' < CHR 0x7F \<and> length ''http://h/x'' \<le> 512"
proof -
  have "bjm_callback_valid ''http://h/x''" by code_simp
  then show ?thesis using callback_and_token_safe [of "''http://h/x''" "CHR ''h''"] by simp
qed

text \<open>
  Two gaps of the pattern check: a pattern may end in a dot, although no valid subject has an
  empty last token, and such a pattern then matches as if the dot were not there.
\<close>

theorem pattern_trailing_dot:
  "bjm_pattern_valid ''orders.*.'' \<and> bjm_pattern_match ''orders.*.'' ''orders.eu''"
  by code_simp

end
