(* ===== verification/Codec.thy ===== *)
theory Codec
  imports Library Names
begin

text \<open>
  The records the store keeps in its trees, each with the events that write it and the visitor
  that reads it back (\<open>src/src/store.c\<close>): read receipts, push registrations, retention
  policies, publish-time marks, the dedup state, queue-group records and dead-letter envelopes.
  The locale \<open>record_codec\<close> states what every one of them promises, and is interpreted for
  each.
\<close>

section \<open>The interface of a record\<close>

locale record_codec =
  fixes enc :: "'r \<Rightarrow> ev list"
    and dec :: "ev list \<Rightarrow> 'r res"
    and wf :: "'r \<Rightarrow> bool"
  assumes dec_enc: "wf r \<Longrightarrow> dec (enc r) = Inr r"
    and enc_exact: "wf r \<Longrightarrow> exact_evs (enc r)"
begin

lemma decode_stored:
  "bj_laws L \<Longrightarrow> wf r \<Longrightarrow> bj_build L (enc r) = (e, Some b) \<Longrightarrow>
     (case bj_decode L b of Inl x \<Rightarrow> Inl x | Inr evs \<Rightarrow> dec evs) = Inr r"
  by (simp add: decode_build enc_exact dec_enc)

lemma stored_view:
  assumes "bj_laws L" and "bpt_laws L" and "wf r" and "bpt_put L t k (enc r) = (t', Inr ())"
  obtains b where "view_tree L t' = (view_tree L t)(k \<mapsto> b)"
    and "(case bj_decode L b of Inl x \<Rightarrow> Inl x | Inr evs \<Rightarrow> dec evs) = Inr r"
proof -
  from bpt_putD(1) [OF assms(1,2) enc_exact [OF assms(3)] assms(4)]
  obtain b where "view_tree L t' = (view_tree L t)(k \<mapsto> b)" "bj_decode L b = Inr (enc r)"
    by auto
  with that show thesis by (simp add: dec_enc assms(3))
qed

lemma stored_search:
  assumes "bj_laws L" and "bpt_laws L" and "wf r" and "bpt_put L t k (enc r) = (t', Inr ())"
    and "bpt_search L t' k = Inr found"
  shows "\<exists>b. found = Some b \<and>
           (case bj_decode L b of Inl x \<Rightarrow> Inl x | Inr evs \<Rightarrow> dec evs) = Inr r"
  using stored_view [OF assms(1-4)] bpt_searchD [OF assms(2,5)] by (metis fun_upd_same)

end

text \<open>A visitor's key buffer of \<open>cap\<close> bytes, NUL included, compared with \<open>strcmp\<close>.\<close>

definition grab_key :: "nat \<Rightarrow> string \<Rightarrow> string" where
  "grab_key cap k = c_str (take (cap - 1) k)"

section \<open>Receipts: one integer\<close>

fun grab_int :: "ev list \<Rightarrow> u64 option" where
  "grab_int [] = None"
| "grab_int (EInt v # evs) = Some v"
| "grab_int (e # evs) = grab_int evs"

definition index_of_events :: "ev list \<Rightarrow> u64 res" where
  "index_of_events evs = (case grab_int evs of None \<Rightarrow> Inl BJ_ERR_VERIFY | Some v \<Rightarrow> Inr v)"

definition decode_index :: "('t, 'l) lib \<Rightarrow> bytes \<Rightarrow> u64 res" where
  "decode_index L data =
     (case bj_decode L data of Inl e \<Rightarrow> Inl e | Inr evs \<Rightarrow> index_of_events evs)"

definition encode_index :: "u64 \<Rightarrow> ev list" where
  "encode_index i = [EInt i]"

interpretation index_codec: record_codec encode_index index_of_events exact_int
  by unfold_locales (simp_all add: encode_index_def index_of_events_def)

section \<open>Push registrations\<close>

record bjm_push_sub =
  ps_pattern :: string
  ps_callback :: string
  ps_token :: string
  ps_batch_bytes :: u64
  ps_group :: string
  ps_max_jobs :: u64

definition push_sub_zero :: bjm_push_sub where
  "push_sub_zero = \<lparr>ps_pattern = [], ps_callback = [], ps_token = [], ps_batch_bytes = 0,
     ps_group = [], ps_max_jobs = 0\<rparr>"

fun push_grab :: "ev \<Rightarrow> string \<times> bjm_push_sub \<Rightarrow> string \<times> bjm_push_sub" where
  "push_grab (EKey k) (_, s) = (grab_key 32 k, s)"
| "push_grab (EStr v) (key, s) =
     (key,
      if key = ''pattern'' then s\<lparr>ps_pattern := c_str (take BJM_SUBJECT_MAX v)\<rparr>
      else if key = ''callback'' then s\<lparr>ps_callback := c_str (take BJM_CALLBACK_MAX v)\<rparr>
      else if key = ''token'' then s\<lparr>ps_token := c_str (take BJM_TOKEN_MAX v)\<rparr>
      else if key = ''group'' then s\<lparr>ps_group := c_str (take BJM_GROUP_MAX v)\<rparr>
      else s)"
| "push_grab (EInt v) (key, s) =
     (key,
      if key = ''batch_bytes'' then s\<lparr>ps_batch_bytes := v\<rparr>
      else if key = ''max_jobs'' then s\<lparr>ps_max_jobs := v\<rparr>
      else s)"
| "push_grab _ ks = ks"

definition push_decode :: "ev list \<Rightarrow> bjm_push_sub res" where
  "push_decode evs = Inr (snd (fold push_grab evs ([], push_sub_zero)))"

definition push_encode :: "bjm_push_sub \<Rightarrow> ev list" where
  "push_encode s = bj_object
     [(''pattern'', [EStr (ps_pattern s)]), (''callback'', [EStr (ps_callback s)]),
      (''token'', [EStr (ps_token s)]), (''batch_bytes'', [EInt (ps_batch_bytes s)]),
      (''group'', [EStr (ps_group s)]), (''max_jobs'', [EInt (ps_max_jobs s)])]"

definition push_sub_wf :: "bjm_push_sub \<Rightarrow> bool" where
  "push_sub_wf s \<longleftrightarrow>
     length (ps_pattern s) \<le> BJM_SUBJECT_MAX \<and> length (ps_callback s) \<le> BJM_CALLBACK_MAX \<and>
     length (ps_token s) \<le> BJM_TOKEN_MAX \<and> length (ps_group s) \<le> BJM_GROUP_MAX \<and>
     CHR 0x00 \<notin> set (ps_pattern s) \<union> set (ps_callback s) \<union> set (ps_token s) \<union> set (ps_group s) \<and>
     exact_int (ps_batch_bytes s) \<and> exact_int (ps_max_jobs s)"

interpretation push_codec: record_codec push_encode push_decode push_sub_wf
  by unfold_locales
    (simp_all add: push_encode_def push_decode_def push_sub_wf_def bj_object_def grab_key_def
      c_str_id push_sub_zero_def)

section \<open>Retention policies\<close>

record bjm_policy =
  p_max_age_s :: u64
  p_max_messages :: u64
  p_max_bytes :: u64
  p_ignore_consumers :: bool

definition policy_zero :: bjm_policy where
  "policy_zero = \<lparr>p_max_age_s = 0, p_max_messages = 0, p_max_bytes = 0, p_ignore_consumers = False\<rparr>"

fun pol_grab :: "ev \<Rightarrow> string \<times> bjm_policy \<Rightarrow> string \<times> bjm_policy" where
  "pol_grab (EKey k) (_, p) = (grab_key 32 k, p)"
| "pol_grab (EInt v) (key, p) =
     (key,
      if key = ''max_age_s'' then p\<lparr>p_max_age_s := v\<rparr>
      else if key = ''max_messages'' then p\<lparr>p_max_messages := v\<rparr>
      else if key = ''max_bytes'' then p\<lparr>p_max_bytes := v\<rparr>
      else p)"
| "pol_grab (EBool v) (key, p) =
     (key, if key = ''ignore_consumers'' then p\<lparr>p_ignore_consumers := v\<rparr> else p)"
| "pol_grab _ kp = kp"

definition policy_of_events :: "ev list \<Rightarrow> bjm_policy res" where
  "policy_of_events evs = Inr (snd (fold pol_grab evs ([], policy_zero)))"

definition policy_decode :: "('t, 'l) lib \<Rightarrow> bytes \<Rightarrow> bjm_policy res" where
  "policy_decode L data =
     (case bj_decode L data of Inl e \<Rightarrow> Inl e | Inr evs \<Rightarrow> policy_of_events evs)"

definition policy_encode :: "bjm_policy \<Rightarrow> ev list" where
  "policy_encode p = bj_object
     [(''max_age_s'', [EInt (p_max_age_s p)]), (''max_messages'', [EInt (p_max_messages p)]),
      (''max_bytes'', [EInt (p_max_bytes p)]), (''ignore_consumers'', [EBool (p_ignore_consumers p)])]"

definition policy_wf :: "bjm_policy \<Rightarrow> bool" where
  "policy_wf p \<longleftrightarrow> exact_int (p_max_age_s p) \<and> exact_int (p_max_messages p) \<and> exact_int (p_max_bytes p)"

interpretation policy_codec: record_codec policy_encode policy_of_events policy_wf
  by unfold_locales
    (simp_all add: policy_encode_def policy_of_events_def policy_wf_def bj_object_def grab_key_def
      c_str_def policy_zero_def)

section \<open>Publish-time marks\<close>

text \<open>Index, time, index, time, \<open>\<dots>\<close> as one array of at most \<open>BJM_MARKS_MAX * 2\<close> integers.\<close>

definition BJM_MARKS_MAX :: nat where "BJM_MARKS_MAX = 256"
definition BJM_MARKS_PER_WINDOW :: u64 where "BJM_MARKS_PER_WINDOW = 128"

type_synonym marks = "u64 list"

fun mark_int :: "ev \<Rightarrow> marks \<Rightarrow> marks" where
  "mark_int (EInt v) m = (if length m < BJM_MARKS_MAX * 2 then m @ [v] else m)"
| "mark_int _ m = m"

definition marks_decode :: "ev list \<Rightarrow> marks res" where
  "marks_decode evs = Inr (fold mark_int evs [])"

definition marks_encode :: "marks \<Rightarrow> ev list" where
  "marks_encode m = bj_array (map (\<lambda>v. [EInt v]) m)"

definition marks_wf :: "marks \<Rightarrow> bool" where
  "marks_wf m \<longleftrightarrow> length m \<le> BJM_MARKS_MAX * 2 \<and> list_all exact_int m"

lemma fold_mark_int:
  "length acc + length m \<le> BJM_MARKS_MAX * 2 \<Longrightarrow> fold mark_int (map EInt m) acc = acc @ m"
  by (induction m arbitrary: acc) auto

lemma concat_ints [simp]: "concat (map (\<lambda>v. [EInt v]) m) = map EInt m"
  by (induction m) auto

interpretation marks_codec: record_codec marks_encode marks_decode marks_wf
proof unfold_locales
  fix m assume "marks_wf m"
  then show "marks_decode (marks_encode m) = Inr m"
    by (simp add: marks_decode_def marks_encode_def marks_wf_def bj_array_def fold_mark_int)
next
  fix m assume "marks_wf m"
  then show "exact_evs (marks_encode m)"
    by (simp add: marks_encode_def marks_wf_def) (simp add: list_all_iff)
qed

section \<open>The dedup state\<close>

record dd_state =
  ds_gen :: u64
  ds_rotated_ms :: u64

fun dd_grab :: "ev \<Rightarrow> string \<times> dd_state \<Rightarrow> string \<times> dd_state" where
  "dd_grab (EKey k) (_, d) = (grab_key 16 k, d)"
| "dd_grab (EInt v) (key, d) =
     (key,
      if key = ''gen'' then d\<lparr>ds_gen := v\<rparr>
      else if key = ''rotated_ms'' then d\<lparr>ds_rotated_ms := v\<rparr>
      else d)"
| "dd_grab _ kd = kd"

definition dd_decode :: "ev list \<Rightarrow> dd_state res" where
  "dd_decode evs = Inr (snd (fold dd_grab evs ([], \<lparr>ds_gen = 0, ds_rotated_ms = 0\<rparr>)))"

definition dd_encode :: "dd_state \<Rightarrow> ev list" where
  "dd_encode d = bj_object [(''gen'', [EInt (ds_gen d)]), (''rotated_ms'', [EInt (ds_rotated_ms d)])]"

interpretation dd_codec: record_codec dd_encode dd_decode
    "\<lambda>d. exact_int (ds_gen d) \<and> exact_int (ds_rotated_ms d)"
  by unfold_locales
    (simp_all add: dd_encode_def dd_decode_def bj_object_def grab_key_def c_str_def)

section \<open>Queue-group records\<close>

definition BJM_INFLIGHT_MAX :: nat where "BJM_INFLIGHT_MAX = 256"
definition BJM_DEAD_MAX :: nat where "BJM_DEAD_MAX = 64"
definition BJM_LEASE_DEFAULT_MS :: u64 where "BJM_LEASE_DEFAULT_MS = 30000"
definition BJM_MAX_ATTEMPTS_DEFAULT :: u64 where "BJM_MAX_ATTEMPTS_DEFAULT = 10"
definition BJM_BACKOFF_DEFAULT_MS :: u64 where "BJM_BACKOFF_DEFAULT_MS = 1000"
definition BJM_MAX_BACKOFF_DEFAULT_MS :: u64 where "BJM_MAX_BACKOFF_DEFAULT_MS = 300000"

text \<open>
  One entry of the inflight table. The code keeps the table flattened in \<open>fl\<close>, three integers
  per entry, read through \<open>FL_INDEX\<close>, \<open>FL_EXPIRES\<close> and \<open>FL_ATTEMPTS\<close>; the model keeps
  the list of entries and flattens it where the code writes it.
\<close>

record lease =
  l_index :: u64
  l_expires :: u64
  l_attempts :: u64

record qrec =
  q_next :: u64
  q_lease_ms :: u64
  q_max_attempts :: u64
  q_backoff_ms :: u64
  q_max_backoff_ms :: u64
  q_fl :: "lease list"
  q_dead_total :: u64
  q_dead :: "u64 list"

definition qrec_zero :: qrec where
  "qrec_zero = \<lparr>q_next = 0, q_lease_ms = 0, q_max_attempts = 0, q_backoff_ms = 0,
     q_max_backoff_ms = 0, q_fl = [], q_dead_total = 0, q_dead = []\<rparr>"

definition flatten_fl :: "lease list \<Rightarrow> u64 list" where
  "flatten_fl fl = concat (map (\<lambda>l. [l_index l, l_expires l, l_attempts l]) fl)"

text \<open>Whole triples only: \<open>nfl -= nfl % 3\<close>.\<close>

fun unflatten_fl :: "u64 list \<Rightarrow> lease list" where
  "unflatten_fl (i # x # a # vs) = \<lparr>l_index = i, l_expires = x, l_attempts = a\<rparr> # unflatten_fl vs"
| "unflatten_fl _ = []"

text \<open>The decoder's scratch: the current key, which array it is in, and \<open>fl\<close> as it fills.\<close>

record qscratch =
  g_key :: string
  g_in_array :: nat
  g_fl :: "u64 list"
  g_q :: qrec

fun q_grab :: "ev \<Rightarrow> qscratch \<Rightarrow> qscratch" where
  "q_grab (EKey k) g =
     (let key = grab_key 32 k in
      g\<lparr>g_key := key,
        g_in_array := (if key = ''inflight'' then 1 else if key = ''dead'' then 2 else 0)\<rparr>)"
| "q_grab (EInt v) g =
     (let q = g_q g; key = g_key g in
      if g_in_array g = 1 then
        (if length (g_fl g) < BJM_INFLIGHT_MAX * 3 then g\<lparr>g_fl := g_fl g @ [v]\<rparr> else g)
      else if g_in_array g = 2 then
        (if length (q_dead q) < BJM_DEAD_MAX then g\<lparr>g_q := q\<lparr>q_dead := q_dead q @ [v]\<rparr>\<rparr> else g)
      else if key = ''next'' then g\<lparr>g_q := q\<lparr>q_next := v\<rparr>\<rparr>
      else if key = ''lease_ms'' then g\<lparr>g_q := q\<lparr>q_lease_ms := v\<rparr>\<rparr>
      else if key = ''max_attempts'' then g\<lparr>g_q := q\<lparr>q_max_attempts := v\<rparr>\<rparr>
      else if key = ''dead_total'' then g\<lparr>g_q := q\<lparr>q_dead_total := v\<rparr>\<rparr>
      else if key = ''backoff_ms'' then g\<lparr>g_q := q\<lparr>q_backoff_ms := v\<rparr>\<rparr>
      else if key = ''max_backoff_ms'' then g\<lparr>g_q := q\<lparr>q_max_backoff_ms := v\<rparr>\<rparr>
      else g)"
| "q_grab EArrEnd g = g\<lparr>g_in_array := 0\<rparr>"
| "q_grab _ g = g"

definition queue_decode :: "ev list \<Rightarrow> qrec res" where
  "queue_decode evs =
     (let g = fold q_grab evs \<lparr>g_key = [], g_in_array = 0, g_fl = [], g_q = qrec_zero\<rparr>
      in Inr ((g_q g)\<lparr>q_fl := unflatten_fl (g_fl g)\<rparr>))"

definition queue_encode :: "qrec \<Rightarrow> ev list" where
  "queue_encode q = bj_object
     [(''next'', [EInt (q_next q)]), (''lease_ms'', [EInt (q_lease_ms q)]),
      (''max_attempts'', [EInt (q_max_attempts q)]), (''dead_total'', [EInt (q_dead_total q)]),
      (''backoff_ms'', [EInt (q_backoff_ms q)]), (''max_backoff_ms'', [EInt (q_max_backoff_ms q)]),
      (''inflight'', bj_array (map (\<lambda>v. [EInt v]) (flatten_fl (q_fl q)))),
      (''dead'', bj_array (map (\<lambda>v. [EInt v]) (q_dead q)))]"

definition lease_exact :: "lease \<Rightarrow> bool" where
  "lease_exact l \<longleftrightarrow> exact_int (l_index l) \<and> exact_int (l_expires l) \<and> exact_int (l_attempts l)"

definition qrec_wf :: "qrec \<Rightarrow> bool" where
  "qrec_wf q \<longleftrightarrow>
     length (q_fl q) \<le> BJM_INFLIGHT_MAX \<and> length (q_dead q) \<le> BJM_DEAD_MAX \<and>
     exact_int (q_next q) \<and> exact_int (q_lease_ms q) \<and> exact_int (q_max_attempts q) \<and>
     exact_int (q_backoff_ms q) \<and> exact_int (q_max_backoff_ms q) \<and> exact_int (q_dead_total q) \<and>
     list_all lease_exact (q_fl q) \<and> list_all exact_int (q_dead q)"

lemma unflatten_flatten [simp]: "unflatten_fl (flatten_fl fl) = fl"
  by (induction fl) (auto simp: flatten_fl_def)

lemma length_flatten [simp]: "length (flatten_fl fl) = 3 * length fl"
  by (induction fl) (auto simp: flatten_fl_def)

lemma flatten_exact: "list_all lease_exact fl \<Longrightarrow> list_all exact_int (flatten_fl fl)"
  by (induction fl) (auto simp: flatten_fl_def lease_exact_def)

lemma fold_q_grab_inflight:
  "g_in_array g = 1 \<Longrightarrow> length (g_fl g) + length vs \<le> BJM_INFLIGHT_MAX * 3 \<Longrightarrow>
     fold q_grab (map EInt vs) g = g\<lparr>g_fl := g_fl g @ vs\<rparr>"
  by (induction vs arbitrary: g) (auto simp: Let_def)

lemma fold_q_grab_dead:
  "g_in_array g = 2 \<Longrightarrow> length (q_dead (g_q g)) + length vs \<le> BJM_DEAD_MAX \<Longrightarrow>
     fold q_grab (map EInt vs) g = g\<lparr>g_q := (g_q g)\<lparr>q_dead := q_dead (g_q g) @ vs\<rparr>\<rparr>"
  by (induction vs arbitrary: g) (auto simp: Let_def)

interpretation queue_codec: record_codec queue_encode queue_decode qrec_wf
proof unfold_locales
  fix q assume "qrec_wf q"
  then show "queue_decode (queue_encode q) = Inr q"
    by (simp add: queue_decode_def queue_encode_def qrec_wf_def bj_object_def bj_array_def
        grab_key_def c_str_id fold_q_grab_inflight fold_q_grab_dead qrec_zero_def Let_def)
next
  fix q assume "qrec_wf q"
  then show "exact_evs (queue_encode q)"
    by (simp add: queue_encode_def qrec_wf_def)
      (use flatten_exact in \<open>auto simp: list_all_iff\<close>)
qed

section \<open>Dead-letter envelopes\<close>

record envelope =
  e_subject :: string
  e_payload :: "bytes option"
  e_type :: int

definition BJM_ENTRY_PLAIN :: int where "BJM_ENTRY_PLAIN = 0x01"
definition BJM_ENTRY_ENVELOPE :: int where "BJM_ENTRY_ENVELOPE = 0x10"

text \<open>\<open>(int)v\<close> of a double that holds an entry type.\<close>

definition u64_to_int :: "u64 \<Rightarrow> int" where
  "u64_to_int v = sint (ucast v :: 32 word)"

definition int_to_u64 :: "int \<Rightarrow> u64" where
  "int_to_u64 i = word_of_int i"

fun env_grab :: "ev \<Rightarrow> string \<times> envelope \<Rightarrow> string \<times> envelope" where
  "env_grab (EKey k) (_, v) = (grab_key 16 k, v)"
| "env_grab (EStr s) (key, v) =
     (key, if key \<noteq> ''subject'' then v else v\<lparr>e_subject := c_str (take BJM_SUBJECT_MAX s)\<rparr>)"
| "env_grab (EInt i) (key, v) =
     (key, if key = ''type'' then v\<lparr>e_type := u64_to_int i\<rparr> else v)"
| "env_grab (EBin b) (key, v) =
     (key, if key \<noteq> ''payload'' \<or> e_payload v \<noteq> None then v else v\<lparr>e_payload := Some b\<rparr>)"
| "env_grab _ kv = kv"

definition envelope_of_events :: "ev list \<Rightarrow> envelope" where
  "envelope_of_events evs =
     snd (fold env_grab evs ([], \<lparr>e_subject = [], e_payload = None, e_type = BJM_ENTRY_PLAIN\<rparr>))"

definition dead_envelope :: "string \<Rightarrow> string \<Rightarrow> u64 \<Rightarrow> u64 \<Rightarrow> u64 \<Rightarrow> int \<Rightarrow> bytes \<Rightarrow> ev list" where
  "dead_envelope subject grp index attempts now ty payload = bj_object
     [(''subject'', [EStr subject]), (''group'', [EStr grp]), (''index'', [EInt index]),
      (''attempts'', [EInt attempts]), (''failed_ms'', [EInt now]),
      (''type'', [EInt (int_to_u64 ty)]), (''payload'', [EBin payload])]"

lemma envelope_roundtrip:
  assumes "bjm_subject_valid s" and "ty = BJM_ENTRY_PLAIN \<or> ty = BJM_ENTRY_ENVELOPE"
  shows "envelope_of_events (dead_envelope s g i a n ty p) =
           \<lparr>e_subject = s, e_payload = Some p, e_type = ty\<rparr>"
proof -
  have "CHR 0x00 \<notin> set s" and "length s \<le> 128"
    using name_valid_no_special(2) name_validD(2) assms(1) by (auto simp: bjm_subject_valid_def)
  then show ?thesis using assms(2)
    by (auto simp: envelope_of_events_def dead_envelope_def bj_object_def grab_key_def c_str_id
        u64_to_int_def int_to_u64_def BJM_ENTRY_PLAIN_def BJM_ENTRY_ENVELOPE_def)
qed

end
