(* ===== verification/Store.thy ===== *)
theory Store
  imports Codec
begin

text \<open>
  The state of the subject store (\<open>struct bjm_store\<close>, \<open>src/src/store.c\<close>) and what every
  operation starts with: opening a tree on first use, and finding or opening a subject's log.

  The namespace is part of the state: for each name, what the host's \<open>open\<close> and the library's
  own open would answer. Allocation always succeeds in the model, and the durability of a directory
  entry (\<open>ns.sync\<close>) has no effect on it.
\<close>

section \<open>Files\<close>

datatype 'a ns_file =
    Absent               \<comment> \<open>no such name: created when \<open>BJ_NS_CREATE\<close> is given\<close>
  | Unopenable bj_err    \<comment> \<open>\<open>ns.open\<close> answers this error\<close>
  | Empty                \<comment> \<open>a file of size 0, made into a fresh tree or log\<close>
  | Unreadable           \<comment> \<open>\<open>bpt_open\<close> or \<open>elog_open\<close> returns NULL\<close>
  | Holds 'a

definition open_file :: "('t, 'l) lib \<Rightarrow> bool \<Rightarrow> 'a option \<Rightarrow> 'a ns_file \<Rightarrow> 'a ns_file \<times> 'a res" where
  "open_file L create fresh f =
     (case f of
        Unopenable e \<Rightarrow> (f, Inl e)
      | Unreadable \<Rightarrow> (f, Inl BJ_ERR_STATE)
      | Holds x \<Rightarrow> (f, Inr x)
      | Absent \<Rightarrow>
          if \<not> create then (f, Inl (ns_missing L))
          else (case fresh of None \<Rightarrow> (Empty, Inl BJ_ERR_STATE) | Some x \<Rightarrow> (Holds x, Inr x))
      | Empty \<Rightarrow> (case fresh of None \<Rightarrow> (f, Inl BJ_ERR_STATE) | Some x \<Rightarrow> (Holds x, Inr x)))"

text \<open>A tree of the store: not opened yet, or the handle.\<close>

datatype 't slot = Closed "'t ns_file" | Opened 't

definition slot_open :: "('t, 'l) lib \<Rightarrow> 't slot \<Rightarrow> 't slot \<times> 't res" where
  "slot_open L sl =
     (case sl of
        Opened t \<Rightarrow> (sl, Inr t)
      | Closed f \<Rightarrow>
          (case open_file L True (bpt_create L) f of
             (f', Inl e) \<Rightarrow> (Closed f', Inl e)
           | (f', Inr t) \<Rightarrow> (Opened t, Inr t)))"

definition slot_view :: "('t, 'l) lib \<Rightarrow> 't slot \<Rightarrow> (string \<rightharpoonup> bytes)" where
  "slot_view L sl =
     (case sl of Opened t \<Rightarrow> view_tree L t | Closed (Holds t) \<Rightarrow> view_tree L t | _ \<Rightarrow> Map.empty)"

lemma slot_view_opened [simp]: "slot_view L (Opened t) = view_tree L t"
  by (simp add: slot_view_def)

lemma slot_openD:
  assumes "bpt_laws L" and "slot_open L sl = (sl', r)"
  shows "slot_view L sl' = slot_view L sl" and "r = Inr t \<Longrightarrow> sl' = Opened t"
    and "r = Inr t \<Longrightarrow> view_tree L t = slot_view L sl"
  using assms bpt_createD [OF assms(1)]
  by (auto simp: slot_open_def slot_view_def open_file_def
      split: slot.splits ns_file.splits option.splits if_splits)

section \<open>The store\<close>

record 'l subject =
  s_name :: string
  s_log :: 'l
  s_pol :: bjm_policy
  s_pol_loaded :: bool
  s_last_mark_t :: u64

text \<open>
  \<open>st_adopt\<close> is the host's atomic replace: whether it answers \<open>BJ_OK\<close> for a pair of names.
  \<open>st_listing\<close> is what the listing hook answers. \<open>st_pubs\<close> records the calls of the
  \<open>on_pub\<close> hook in order, and \<open>st_dd\<close> is the pair \<open>dd[0]\<close>, \<open>dd[1]\<close>.
\<close>

record ('t, 'l) store =
  st_clock :: "u64 option"
  st_adopt :: "(string \<Rightarrow> string \<Rightarrow> bool) option"
  st_listing :: "string res option"
  st_subs :: "'l subject list"
  st_files :: "string \<Rightarrow> 'l ns_file"
  st_cursors :: "'t slot"
  st_policy :: "'t slot"
  st_queues :: "'t slot"
  st_push :: "'t slot"
  st_dd :: "'t slot \<times> 't slot"
  st_dd_gen :: nat
  st_dd_open :: bool
  st_dd_rotated_ms :: u64
  st_dd_window_ms :: u64
  st_on_pub :: bool
  st_pubs :: "(string \<times> u64) list"

text \<open>\<open>bjm_store_open_ns\<close>: nothing is opened, no hook is installed.\<close>

definition bjm_store_open_ns :: "(string \<Rightarrow> 'l ns_file) \<Rightarrow> (string \<Rightarrow> 't ns_file) \<Rightarrow> ('t, 'l) store" where
  "bjm_store_open_ns logs trees =
     \<lparr>st_clock = None, st_adopt = None, st_listing = None, st_subs = [], st_files = logs,
      st_cursors = Closed (trees ''_cursors.bpt''), st_policy = Closed (trees ''_policy.bpt''),
      st_queues = Closed (trees ''_queues.bpt''), st_push = Closed (trees ''_push.bpt''),
      st_dd = (Closed (trees ''_dedup0.bpt''), Closed (trees ''_dedup1.bpt'')),
      st_dd_gen = 0, st_dd_open = False, st_dd_rotated_ms = 0, st_dd_window_ms = 0,
      st_on_pub = False, st_pubs = []\<rparr>"

definition bjm_store_set_clock :: "('t, 'l) store \<Rightarrow> u64 option \<Rightarrow> ('t, 'l) store" where
  "bjm_store_set_clock st now = st\<lparr>st_clock := now\<rparr>"

definition bjm_store_set_listing :: "('t, 'l) store \<Rightarrow> string res option \<Rightarrow> ('t, 'l) store" where
  "bjm_store_set_listing st listing = st\<lparr>st_listing := listing\<rparr>"

definition bjm_store_listing :: "('t, 'l) store \<Rightarrow> string res" where
  "bjm_store_listing st = (case st_listing st of None \<Rightarrow> Inl BJ_ERR_STATE | Some r \<Rightarrow> r)"

definition bjm_store_set_adopt ::
    "('t, 'l) store \<Rightarrow> (string \<Rightarrow> string \<Rightarrow> bool) option \<Rightarrow> ('t, 'l) store" where
  "bjm_store_set_adopt st adopt = st\<lparr>st_adopt := adopt\<rparr>"

definition bjm_store_on_publish :: "('t, 'l) store \<Rightarrow> bool \<Rightarrow> ('t, 'l) store" where
  "bjm_store_on_publish st installed = st\<lparr>st_on_pub := installed\<rparr>"

text \<open>The host's clock, or zero when it installed none. One operation reads one instant.\<close>

definition now_ms :: "('t, 'l) store \<Rightarrow> u64" where
  "now_ms st = (case st_clock st of None \<Rightarrow> 0 | Some t \<Rightarrow> t)"

definition bjm_store_now_ms :: "('t, 'l) store \<Rightarrow> u64" where
  "bjm_store_now_ms st = now_ms st"

section \<open>Opening the trees\<close>

definition cursors_open :: "('t, 'l) lib \<Rightarrow> ('t, 'l) store \<Rightarrow> ('t, 'l) store \<times> 't res" where
  "cursors_open L st = (case slot_open L (st_cursors st) of (sl, r) \<Rightarrow> (st\<lparr>st_cursors := sl\<rparr>, r))"

definition push_open :: "('t, 'l) lib \<Rightarrow> ('t, 'l) store \<Rightarrow> ('t, 'l) store \<times> 't res" where
  "push_open L st = (case slot_open L (st_push st) of (sl, r) \<Rightarrow> (st\<lparr>st_push := sl\<rparr>, r))"

definition policy_open :: "('t, 'l) lib \<Rightarrow> ('t, 'l) store \<Rightarrow> ('t, 'l) store \<times> 't res" where
  "policy_open L st = (case slot_open L (st_policy st) of (sl, r) \<Rightarrow> (st\<lparr>st_policy := sl\<rparr>, r))"

definition queues_open :: "('t, 'l) lib \<Rightarrow> ('t, 'l) store \<Rightarrow> ('t, 'l) store \<times> 't res" where
  "queues_open L st = (case slot_open L (st_queues st) of (sl, r) \<Rightarrow> (st\<lparr>st_queues := sl\<rparr>, r))"

lemma tree_openD:
  assumes "bpt_laws L"
  shows "cursors_open L st = (st', r) \<Longrightarrow> st' = st\<lparr>st_cursors := st_cursors st'\<rparr> \<and>
           slot_view L (st_cursors st') = slot_view L (st_cursors st) \<and>
           (\<forall>t. r = Inr t \<longrightarrow> st_cursors st' = Opened t \<and> view_tree L t = slot_view L (st_cursors st))"
    and "push_open L st = (st', r) \<Longrightarrow> st' = st\<lparr>st_push := st_push st'\<rparr> \<and>
           slot_view L (st_push st') = slot_view L (st_push st) \<and>
           (\<forall>t. r = Inr t \<longrightarrow> st_push st' = Opened t \<and> view_tree L t = slot_view L (st_push st))"
    and "policy_open L st = (st', r) \<Longrightarrow> st' = st\<lparr>st_policy := st_policy st'\<rparr> \<and>
           slot_view L (st_policy st') = slot_view L (st_policy st) \<and>
           (\<forall>t. r = Inr t \<longrightarrow> st_policy st' = Opened t \<and> view_tree L t = slot_view L (st_policy st))"
    and "queues_open L st = (st', r) \<Longrightarrow> st' = st\<lparr>st_queues := st_queues st'\<rparr> \<and>
           slot_view L (st_queues st') = slot_view L (st_queues st) \<and>
           (\<forall>t. r = Inr t \<longrightarrow> st_queues st' = Opened t \<and> view_tree L t = slot_view L (st_queues st))"
  using slot_openD [OF assms]
  by (auto simp: cursors_open_def push_open_def policy_open_def queues_open_def split: prod.splits)

section \<open>Subjects\<close>

definition elog_file :: "string \<Rightarrow> string" where
  "elog_file name = name @ SUBJECT_SUFFIX"

definition find_sub :: "('t, 'l) store \<Rightarrow> string \<Rightarrow> 'l subject option" where
  "find_sub st name = find (\<lambda>s. s_name s = name) (st_subs st)"

definition upd_sub ::
    "('t, 'l) store \<Rightarrow> string \<Rightarrow> ('l subject \<Rightarrow> 'l subject) \<Rightarrow> ('t, 'l) store" where
  "upd_sub st name f = st\<lparr>st_subs := map (\<lambda>s. if s_name s = name then f s else s) (st_subs st)\<rparr>"

text \<open>
  Find a subject's table entry, opening (or, when asked to, creating) its log on first use. The
  entry is returned as it stands; a later write to it goes through \<open>upd_sub\<close>.
\<close>

definition subject_get ::
    "('t, 'l) lib \<Rightarrow> ('t, 'l) store \<Rightarrow> string \<Rightarrow> bool \<Rightarrow> ('t, 'l) store \<times> 'l subject res" where
  "subject_get L st name create =
     (case find_sub st name of
        Some s \<Rightarrow> (st, Inr s)
      | None \<Rightarrow>
          if length (elog_file name) \<ge> BJM_SUBJECT_MAX + length SUBJECT_SUFFIX + 1
          then (st, Inl BJ_ERR_RANGE)
          else
            (case open_file L create (elog_create L) (st_files st (elog_file name)) of
               (f, Inl e) \<Rightarrow> (st\<lparr>st_files := (st_files st)(elog_file name := f)\<rparr>, Inl e)
             | (f, Inr l) \<Rightarrow>
                 let s = \<lparr>s_name = name, s_log = l, s_pol = policy_zero, s_pol_loaded = False,
                          s_last_mark_t = 0\<rparr>
                 in (st\<lparr>st_files := (st_files st)(elog_file name := f),
                        st_subs := st_subs st @ [s]\<rparr>, Inr s)))"

section \<open>What a subject holds\<close>

text \<open>
  The log of a subject, opened or still on disk, and its contents: the base index and the messages
  above it.
\<close>

definition log_of :: "('t, 'l) store \<Rightarrow> string \<Rightarrow> 'l option" where
  "log_of st name =
     (case find_sub st name of
        Some s \<Rightarrow> Some (s_log s)
      | None \<Rightarrow> (case st_files st (elog_file name) of Holds l \<Rightarrow> Some l | _ \<Rightarrow> None))"

definition base_of :: "('t, 'l) lib \<Rightarrow> ('t, 'l) store \<Rightarrow> string \<Rightarrow> nat" where
  "base_of L st name = (case log_of st name of None \<Rightarrow> 0 | Some l \<Rightarrow> view_base L l)"

definition msgs :: "('t, 'l) lib \<Rightarrow> ('t, 'l) store \<Rightarrow> string \<Rightarrow> (int \<times> bytes) list" where
  "msgs L st name = (case log_of st name of None \<Rightarrow> [] | Some l \<Rightarrow> view_ents L l)"

text \<open>The message with a given index, if the subject holds it.\<close>

definition msg_at :: "('t, 'l) lib \<Rightarrow> ('t, 'l) store \<Rightarrow> string \<Rightarrow> nat \<Rightarrow> (int \<times> bytes) option" where
  "msg_at L st name i =
     (let b = base_of L st name; es = msgs L st name in
      if b < i \<and> i \<le> b + length es then Some (es ! (i - b - 1)) else None)"

lemma find_sub_upd [simp]:
  "(\<And>s. s_name (f s) = s_name s) \<Longrightarrow>
   find_sub (upd_sub st n f) m = (if m = n then map_option f (find_sub st n) else find_sub st m)"
proof -
  assume keep: "\<And>s. s_name (f s) = s_name s"
  have "find (\<lambda>s. s_name s = m) (map (\<lambda>s. if s_name s = n then f s else s) ss) =
        (if m = n then map_option f (find (\<lambda>s. s_name s = n) ss) else find (\<lambda>s. s_name s = m) ss)" for ss
    by (induction ss) (auto simp: keep)
  then show ?thesis by (simp add: find_sub_def upd_sub_def)
qed

lemma find_sub_name: "find_sub st n = Some s \<Longrightarrow> s_name s = n"
  unfolding find_sub_def by (induction "st_subs st" arbitrary: st) (auto simp: find_Some_iff)

lemma upd_sub_frame: "upd_sub st n f = st\<lparr>st_subs := st_subs (upd_sub st n f)\<rparr>"
  by (simp add: upd_sub_def)

lemma elog_file_inj [simp]: "elog_file a = elog_file b \<longleftrightarrow> a = b"
  by (simp add: elog_file_def)

lemma log_of_cong:
  "st_subs st' = st_subs st \<Longrightarrow> st_files st' = st_files st \<Longrightarrow> log_of st' n = log_of st n"
  by (simp add: log_of_def find_sub_def split: option.split)

lemma view_cong:
  assumes "st_subs st' = st_subs st" and "st_files st' = st_files st"
  shows "base_of L st' n = base_of L st n" and "msgs L st' n = msgs L st n"
  using log_of_cong [OF assms] by (simp_all add: base_of_def msgs_def)

lemma subject_get_frame:
  "subject_get L st n c = (st', r) \<Longrightarrow> st' = st\<lparr>st_subs := st_subs st', st_files := st_files st'\<rparr>"
  by (auto simp: subject_get_def Let_def split: option.splits prod.splits sum.splits if_splits)

lemma find_sub_append:
  "find_sub (st\<lparr>st_files := fs, st_subs := st_subs st @ [s]\<rparr>) m =
     (case find_sub st m of Some x \<Rightarrow> Some x | None \<Rightarrow> if s_name s = m then Some s else None)"
proof -
  have "find P (xs @ [s]) = (case find P xs of Some x \<Rightarrow> Some x | None \<Rightarrow> if P s then Some s else None)"
    for P xs
    by (induction xs) auto
  then show ?thesis by (simp add: find_sub_def)
qed

lemma find_sub_files: "find_sub (st\<lparr>st_files := fs\<rparr>) m = find_sub st m"
  by (simp add: find_sub_def)

lemma subject_get_found: "subject_get L st n c = (st', Inr s) \<Longrightarrow> find_sub st' n = Some s"
  by (auto simp: subject_get_def find_sub_append Let_def
      split: option.splits prod.splits sum.splits if_splits)

lemma open_fileD:
  "open_file L c fresh f = (f', Inl e) \<Longrightarrow> (\<forall>l. f \<noteq> Holds l) \<and> (\<forall>l. f' \<noteq> Holds l)"
  "open_file L c fresh f = (f', Inr l) \<Longrightarrow>
     f' = Holds l \<and> (f = Holds l \<or> (\<forall>l. f \<noteq> Holds l) \<and> fresh = Some l)"
  by (auto simp: open_file_def split: ns_file.splits option.splits if_splits)

text \<open>The two views of a subject as one function of its log.\<close>

definition contents :: "('t, 'l) lib \<Rightarrow> 'l option \<Rightarrow> nat \<times> (int \<times> bytes) list" where
  "contents L lg = (case lg of None \<Rightarrow> (0, []) | Some l \<Rightarrow> (view_base L l, view_ents L l))"

lemma contents_of: "contents L (log_of st n) = (base_of L st n, msgs L st n)"
  by (simp add: contents_def base_of_def msgs_def split: option.split)

lemma subject_get_contents:
  assumes laws: "elog_laws L" and get: "subject_get L st n c = (st', r)"
  shows "contents L (log_of st' m) = contents L (log_of st m)"
proof (cases "find_sub st n")
  case (Some s)
  with get show ?thesis by (simp add: subject_get_def)
next
  case None
  obtain f r' where op: "open_file L c (elog_create L) (st_files st (elog_file n)) = (f, r')"
    by (cases "open_file L c (elog_create L) (st_files st (elog_file n))")
  show ?thesis
  proof (cases "m = n")
    case False
    then show ?thesis using None op get
      by (cases r')
        (auto simp: subject_get_def log_of_def find_sub_append find_sub_files Let_def
          split: if_splits option.split)
  next
    case True
    show ?thesis
    proof (cases r')
      case (Inl e)
      with None op get True open_fileD(1) [OF op [unfolded Inl]] show ?thesis
        by (auto simp: subject_get_def log_of_def find_sub_def
            split: if_splits ns_file.split)
    next
      case (Inr l)
      note f = open_fileD(2) [OF op [unfolded Inr]]
      have "contents L (log_of st n) = contents L (Some l)"
        using f None elog_createD [OF laws]
        by (auto simp: log_of_def contents_def split: ns_file.split)
      with None op get True Inr show ?thesis
        by (auto simp: subject_get_def log_of_def find_sub_append Let_def split: if_splits)
    qed
  qed
qed

lemma subject_get_log:
  assumes "elog_laws L" and "subject_get L st n c = (st', r)"
  shows "base_of L st' m = base_of L st m" and "msgs L st' m = msgs L st m"
  using subject_get_contents [OF assms, of m] by (simp_all add: contents_of)

lemma subject_get_view:
  assumes "elog_laws L" and "subject_get L st n c = (st', Inr s)"
  shows "view_base L (s_log s) = base_of L st n" and "view_ents L (s_log s) = msgs L st n"
  using subject_get_log [OF assms, of n] subject_get_found [OF assms(2)]
  by (simp_all add: base_of_def msgs_def log_of_def)

lemma subject_get_again:
  "find_sub st n = Some s \<Longrightarrow> subject_get L st n c = (st, Inr s)"
  by (simp add: subject_get_def)

section \<open>Reading\<close>

text \<open>\<open>(count, batch bytes, last index)\<close>.\<close>

definition bjm_read ::
    "('t, 'l) lib \<Rightarrow> ('t, 'l) store \<Rightarrow> string \<Rightarrow> u64 \<Rightarrow> u64 \<Rightarrow> ('t, 'l) store \<times> (nat \<times> bytes \<times> u64) res"
  where
  "bjm_read L st name from max_bytes =
     (case subject_get L st name False of
        (st, Inl e) \<Rightarrow> (st, Inl e)
      | (st, Inr s) \<Rightarrow>
          let from = (if from = 0 then 1 else from) in
          (case elog_get_batch L (s_log s) from max_bytes of
             Inl e \<Rightarrow> (st, Inl e)
           | Inr (count, out) \<Rightarrow> (st, Inr (count, out, elog_last_index L (s_log s)))))"

definition bjm_last_index ::
    "('t, 'l) lib \<Rightarrow> ('t, 'l) store \<Rightarrow> string \<Rightarrow> ('t, 'l) store \<times> u64" where
  "bjm_last_index L st name =
     (case subject_get L st name False of
        (st, Inl e) \<Rightarrow> (st, 0)
      | (st, Inr s) \<Rightarrow> (st, elog_last_index L (s_log s)))"

text \<open>\<open>(base, last, bytes)\<close>.\<close>

definition bjm_subject_info ::
    "('t, 'l) lib \<Rightarrow> ('t, 'l) store \<Rightarrow> string \<Rightarrow> ('t, 'l) store \<times> (u64 \<times> u64 \<times> u64) res" where
  "bjm_subject_info L st name =
     (case subject_get L st name False of
        (st, Inl e) \<Rightarrow> (st, Inl e)
      | (st, Inr s) \<Rightarrow>
          (st, Inr (elog_base_index L (s_log s), elog_last_index L (s_log s),
                    elog_file_len L (s_log s))))"

lemma read_frame:
  "bjm_read L st n from mx = (st', r) \<Longrightarrow> st' = st\<lparr>st_subs := st_subs st', st_files := st_files st'\<rparr>"
  "bjm_last_index L st n = (st', i) \<Longrightarrow> st' = st\<lparr>st_subs := st_subs st', st_files := st_files st'\<rparr>"
  "bjm_subject_info L st n = (st', q) \<Longrightarrow> st' = st\<lparr>st_subs := st_subs st', st_files := st_files st'\<rparr>"
  by (auto simp: bjm_read_def bjm_last_index_def bjm_subject_info_def Let_def dest: subject_get_frame
      split: prod.splits sum.splits)

lemma read_log:
  assumes "elog_laws L"
  shows "bjm_read L st n from mx = (st', r) \<Longrightarrow> base_of L st' m = base_of L st m \<and> msgs L st' m = msgs L st m"
    and "bjm_last_index L st n = (st', i) \<Longrightarrow> base_of L st' m = base_of L st m \<and> msgs L st' m = msgs L st m"
    and "bjm_subject_info L st n = (st', q) \<Longrightarrow> base_of L st' m = base_of L st m \<and> msgs L st' m = msgs L st m"
  using subject_get_log [OF assms]
  by (auto simp: bjm_read_def bjm_last_index_def bjm_subject_info_def Let_def
      split: prod.splits sum.splits)

end
