(* ===== verification/Receipts.thy ===== *)
theory Receipts
  imports Store
begin

text \<open>
  Durable subscriptions (\<open>bjm_cursor_*\<close> and \<open>bjm_consumer*\<close>, \<open>src/src/store.c\<close>): the
  highest index each named consumer acknowledged on each subject, in one tree keyed
  \<open>subject/consumer\<close>. The locale \<open>receipts\<close> is the contract the delivery engine and the
  handlers rely on: an acknowledgement only ever moves a receipt forward.
\<close>

section \<open>Operations\<close>

text \<open>\<open>found\<close> and \<open>index\<close> together: \<open>None\<close> when the consumer never acked this subject.\<close>

definition bjm_cursor_get ::
    "('t, 'l) lib \<Rightarrow> ('t, 'l) store \<Rightarrow> string \<Rightarrow> string \<Rightarrow> ('t, 'l) store \<times> u64 option res" where
  "bjm_cursor_get L st subject consumer =
     (case cursors_open L st of
        (st, Inl e) \<Rightarrow> (st, Inl e)
      | (st, Inr t) \<Rightarrow>
          (case cursor_key subject consumer of
             Inl e \<Rightarrow> (st, Inl e)
           | Inr key \<Rightarrow>
               (case bpt_search L t key of
                  Inl e \<Rightarrow> (st, Inl e)
                | Inr None \<Rightarrow> (st, Inr None)
                | Inr (Some val) \<Rightarrow>
                    (case decode_index L val of
                       Inl e \<Rightarrow> (st, Inl e)
                     | Inr index \<Rightarrow> (st, Inr (Some index))))))"

text \<open>The tree \<open>bjm_cursor_get\<close> has just opened.\<close>

definition cursors_handle :: "('t, 'l) store \<Rightarrow> 't res" where
  "cursors_handle st = (case st_cursors st of Opened t \<Rightarrow> Inr t | Closed _ \<Rightarrow> Inl BJ_ERR_STATE)"

definition bjm_cursor_set ::
    "('t, 'l) lib \<Rightarrow> ('t, 'l) store \<Rightarrow> string \<Rightarrow> string \<Rightarrow> u64 \<Rightarrow> ('t, 'l) store \<times> unit res" where
  "bjm_cursor_set L st subject consumer index =
     (case bjm_cursor_get L st subject consumer of
        (st, Inl e) \<Rightarrow> (st, Inl e)
      | (st, Inr found) \<Rightarrow>
          if (case found of Some current \<Rightarrow> index \<le> current | None \<Rightarrow> False) then (st, Inr ())
          else
            (case cursor_key subject consumer of
               Inl e \<Rightarrow> (st, Inl e)
             | Inr key \<Rightarrow>
                 (case cursors_handle st of
                    Inl e \<Rightarrow> (st, Inl e)
                  | Inr t \<Rightarrow>
                      (case bpt_put L t key (encode_index index) of
                         (t, r) \<Rightarrow> (st\<lparr>st_cursors := Opened t\<rparr>, r)))))"

definition bjm_cursor_sync ::
    "('t, 'l) lib \<Rightarrow> ('t, 'l) store \<Rightarrow> ('t, 'l) store \<times> unit res" where
  "bjm_cursor_sync L st =
     (case st_cursors st of
        Closed _ \<Rightarrow> (st, Inr ())
      | Opened t \<Rightarrow> (case bpt_sync L t of (t, r) \<Rightarrow> (st\<lparr>st_cursors := Opened t\<rparr>, r)))"

text \<open>Whether there was anything to delete.\<close>

definition bjm_cursor_delete ::
    "('t, 'l) lib \<Rightarrow> ('t, 'l) store \<Rightarrow> string \<Rightarrow> string \<Rightarrow> ('t, 'l) store \<times> bool res" where
  "bjm_cursor_delete L st subject consumer =
     (case cursors_open L st of
        (st, Inl e) \<Rightarrow> (st, Inl e)
      | (st, Inr t) \<Rightarrow>
          (case cursor_key subject consumer of
             Inl e \<Rightarrow> (st, Inl e)
           | Inr key \<Rightarrow>
               (case bpt_search L t key of
                  Inl e \<Rightarrow> (st, Inl e)
                | Inr None \<Rightarrow> (st, Inr False)
                | Inr (Some _) \<Rightarrow>
                    (case bpt_delete L t key of
                       (t, Inl e) \<Rightarrow> (st\<lparr>st_cursors := Opened t\<rparr>, Inl e)
                     | (t, Inr _) \<Rightarrow>
                         (case bpt_sync L t of
                            (t, Inl e) \<Rightarrow> (st\<lparr>st_cursors := Opened t\<rparr>, Inl e)
                          | (t, Inr _) \<Rightarrow> (st\<lparr>st_cursors := Opened t\<rparr>, Inr True))))))"

text \<open>The keys that end in a slash and the consumer's name.\<close>

definition consumer_tail :: "string \<Rightarrow> string \<Rightarrow> bool" where
  "consumer_tail consumer k =
     (let clen = length consumer; n = length k in
      if n \<le> clen + 1 then False
      else k ! (n - clen - 1) = CHR ''/'' \<and> drop (n - clen) k = consumer)"

text \<open>Delete the collected keys one by one, counting the deletions that succeed.\<close>

fun delete_keys :: "('t, 'l) lib \<Rightarrow> 't \<Rightarrow> string list \<Rightarrow> nat \<Rightarrow> 't \<times> nat" where
  "delete_keys L t [] n = (t, n)"
| "delete_keys L t (k # ks) n =
     (case bpt_delete L t k of (t', r) \<Rightarrow> delete_keys L t' ks (if is_ok r then n + 1 else n))"

definition bjm_cursor_delete_consumer ::
    "('t, 'l) lib \<Rightarrow> ('t, 'l) store \<Rightarrow> string \<Rightarrow> ('t, 'l) store \<times> nat res" where
  "bjm_cursor_delete_consumer L st consumer =
     (case cursors_open L st of
        (st, Inl e) \<Rightarrow> (st, Inl e)
      | (st, Inr t) \<Rightarrow>
          (case bpt_cursor L t None None of
             None \<Rightarrow> (st, Inl BJ_ERR_STATE)
           | Some (es, Some e) \<Rightarrow> (st, Inl e)
           | Some (es, None) \<Rightarrow>
               (case delete_keys L t (filter (consumer_tail consumer) (map fst es)) 0 of
                  (t, deleted) \<Rightarrow>
                    if deleted = 0 then (st\<lparr>st_cursors := Opened t\<rparr>, Inr 0)
                    else (case bpt_sync L t of
                            (t, Inl e) \<Rightarrow> (st\<lparr>st_cursors := Opened t\<rparr>, Inl e)
                          | (t, Inr _) \<Rightarrow> (st\<lparr>st_cursors := Opened t\<rparr>, Inr deleted)))))"

text \<open>One entry of the range scan: a receipt that does not decode is skipped.\<close>

fun stats_step :: "('t, 'l) lib \<Rightarrow> string \<times> bytes \<Rightarrow> nat \<times> u64 \<Rightarrow> nat \<times> u64" where
  "stats_step L (k, val) (count, min_acked) =
     (case decode_index L val of
        Inl _ \<Rightarrow> (count, min_acked)
      | Inr acked \<Rightarrow> (count + 1, if acked < min_acked then acked else min_acked))"

text \<open>\<open>(count, min_acked)\<close>.\<close>

definition bjm_consumer_stats ::
    "('t, 'l) lib \<Rightarrow> ('t, 'l) store \<Rightarrow> string \<Rightarrow> ('t, 'l) store \<times> (nat \<times> u64) res" where
  "bjm_consumer_stats L st subject =
     (case cursors_open L st of
        (st, Inl e) \<Rightarrow> (st, Inl e)
      | (st, Inr t) \<Rightarrow>
          (case consumer_range subject of
             (lo, hi, _) \<Rightarrow>
               (case bpt_cursor L t (Some lo) (Some hi) of
                  None \<Rightarrow> (st, Inl BJ_ERR_STATE)
                | Some (es, Some e) \<Rightarrow> (st, Inl e)
                | Some (es, None) \<Rightarrow> (st, Inr (fold (stats_step L) es (0, UINT64_MAX))))))"

definition consumer_object :: "('t, 'l) lib \<Rightarrow> u64 \<Rightarrow> nat \<Rightarrow> string \<times> bytes \<Rightarrow> ev list list" where
  "consumer_object L last_ix nlo kv =
     (case kv of (k, val) \<Rightarrow>
        (case decode_index L val of
           Inl _ \<Rightarrow> []
         | Inr acked \<Rightarrow>
             if length k \<le> nlo then []
             else [bj_object [(''consumer'', [EStr (drop nlo k)]), (''acked'', [EInt acked]),
                              (''lag'', [EInt (if last_ix > acked then last_ix - acked else 0)])]]))"

definition bjm_consumers ::
    "('t, 'l) lib \<Rightarrow> ('t, 'l) store \<Rightarrow> string \<Rightarrow> ('t, 'l) store \<times> bytes res" where
  "bjm_consumers L st subject =
     (case cursors_open L st of
        (st, Inl e) \<Rightarrow> (st, Inl e)
      | (st, Inr t) \<Rightarrow>
          (case consumer_range subject of
             (lo, hi, nlo) \<Rightarrow>
               (case bjm_last_index L st subject of
                  (st, last_ix) \<Rightarrow>
                    (case bpt_cursor L t (Some lo) (Some hi) of
                       None \<Rightarrow> (st, Inl BJ_ERR_STATE)
                     | Some (es, Some e) \<Rightarrow> (st, Inl e)
                     | Some (es, None) \<Rightarrow>
                         (st, bj_finish L
                                (bj_array (concat (map (consumer_object L last_ix nlo) es))))))))"

section \<open>The receipt of a consumer\<close>

definition receipt :: "('t, 'l) lib \<Rightarrow> ('t, 'l) store \<Rightarrow> string \<Rightarrow> string \<Rightarrow> u64 option" where
  "receipt L st subject consumer =
     (case slot_view L (st_cursors st) (subject @ ''/'' @ consumer) of
        None \<Rightarrow> None
      | Some b \<Rightarrow> (case decode_index L b of Inl _ \<Rightarrow> None | Inr i \<Rightarrow> Some i))"

lemma receipt_cong:
  "slot_view L (st_cursors st') = slot_view L (st_cursors st) \<Longrightarrow> receipt L st' = receipt L st"
  by (simp add: receipt_def fun_eq_iff)

lemma cursor_getD:
  assumes "bpt_laws L" and get: "bjm_cursor_get L st s c = (st', r)"
  shows "st' = st\<lparr>st_cursors := st_cursors st'\<rparr>"
    and "slot_view L (st_cursors st') = slot_view L (st_cursors st)"
    and "r = Inr x \<Longrightarrow> receipt L st s c = x"
    and "is_ok r \<Longrightarrow> \<exists>t. st_cursors st' = Opened t"
    and "r = Inr None \<Longrightarrow> slot_view L (st_cursors st) (s @ ''/'' @ c) = None"
proof -
  obtain st1 r1 where op: "cursors_open L st = (st1, r1)" by (cases "cursors_open L st")
  note opD = tree_openD(1) [OF assms(1) op]
  have st': "st' = st1"
    using get op by (auto simp: bjm_cursor_get_def split: prod.splits sum.splits option.splits)
  show "st' = st\<lparr>st_cursors := st_cursors st'\<rparr>"
    and "slot_view L (st_cursors st') = slot_view L (st_cursors st)"
    using opD st' by auto
  show "is_ok r \<Longrightarrow> \<exists>t. st_cursors st' = Opened t"
    using opD st' get op
    by (auto simp: bjm_cursor_get_def is_ok_iff split: prod.splits sum.splits option.splits)
  show "r = Inr x \<Longrightarrow> receipt L st s c = x"
    using opD get op
    by (auto simp: bjm_cursor_get_def receipt_def dest!: cursor_keyD bpt_searchD [OF assms(1)]
        split: prod.splits sum.splits option.splits)
  show "r = Inr None \<Longrightarrow> slot_view L (st_cursors st) (s @ ''/'' @ c) = None"
    using opD get op
    by (auto simp: bjm_cursor_get_def dest!: cursor_keyD bpt_searchD [OF assms(1)]
        split: prod.splits sum.splits option.splits)
qed

lemma cursor_set_frame:
  assumes "bpt_laws L" and set: "bjm_cursor_set L st s c i = (st', r)"
  shows "st' = st\<lparr>st_cursors := st_cursors st'\<rparr>"
proof -
  obtain st1 r1 where get: "bjm_cursor_get L st s c = (st1, r1)" by (cases "bjm_cursor_get L st s c")
  from cursor_getD(1) [OF assms(1) get] obtain x where "st1 = st\<lparr>st_cursors := x\<rparr>" by blast
  with set get show ?thesis
    by (auto simp: bjm_cursor_set_def split: prod.splits sum.splits option.splits if_splits)
qed

text \<open>
  What one acknowledgement does to the tree: nothing, or a write at the consumer's own key that
  decodes to the new index.
\<close>

lemma cursor_set_tree:
  assumes laws: "bj_laws L" "bpt_laws L" and ex: "exact_int i"
    and set: "bjm_cursor_set L st s c i = (st', r)"
  shows "slot_view L (st_cursors st') = slot_view L (st_cursors st) \<and>
           (is_ok r \<longrightarrow> (\<exists>j. receipt L st s c = Some j \<and> i \<le> j)) \<or>
         (\<exists>b. is_ok r \<and> slot_view L (st_cursors st') = (slot_view L (st_cursors st))(s @ ''/'' @ c \<mapsto> b) \<and>
           decode_index L b = Inr i \<and> (\<forall>j. receipt L st s c = Some j \<longrightarrow> j < i))"
proof -
  obtain st1 r1 where get: "bjm_cursor_get L st s c = (st1, r1)" by (cases "bjm_cursor_get L st s c")
  note g = cursor_getD [OF laws(2) get]
  show ?thesis
  proof (cases r1)
    case (Inl e)
    with set get g(2) show ?thesis by (auto simp: bjm_cursor_set_def)
  next
    case (Inr found)
    note rec = g(3) [OF Inr]
    show ?thesis
    proof (cases "case found of Some current \<Rightarrow> i \<le> current | None \<Rightarrow> False")
      case True
      with set get Inr g(2) rec show ?thesis
        by (auto simp: bjm_cursor_set_def split: option.splits)
    next
      case False
      from g(4) Inr obtain t where t: "st_cursors st1 = Opened t" by auto
      show ?thesis
      proof (cases "cursor_key s c")
        case (Inl e)
        with set get Inr False g(2) \<open>r1 = Inr found\<close> show ?thesis
          by (auto simp: bjm_cursor_set_def split: option.splits)
      next
        case key: (Inr k)
        obtain t' r' where put: "bpt_put L t k (encode_index i) = (t', r')"
          by (cases "bpt_put L t k (encode_index i)")
        have res: "r = r'" "st' = st1\<lparr>st_cursors := Opened t'\<rparr>"
          using set get Inr False t key put
          by (auto simp: bjm_cursor_set_def cursors_handle_def split: option.splits)
        have lt: "\<forall>j. receipt L st s c = Some j \<longrightarrow> j < i"
          using False rec by (auto split: option.splits)
        show ?thesis
        proof (cases r')
          case (Inl e)
          then show ?thesis
            using bpt_putD(2) [OF laws index_codec.enc_exact [OF ex] put] res g(2) t by auto
        next
          case (Inr u)
          then have "bpt_put L t k (encode_index i) = (t', Inr ())" using put by simp
          from index_codec.stored_view [OF laws ex this] obtain b
            where "view_tree L t' = (view_tree L t)(k \<mapsto> b)"
              and "(case bj_decode L b of Inl x \<Rightarrow> Inl x | Inr evs \<Rightarrow> index_of_events evs) = Inr i"
            by blast
          then show ?thesis
            using res g(2) t lt cursor_keyD [OF key] Inr
            by (auto simp: decode_index_def)
        qed
      qed
    qed
  qed
qed

lemma cursor_set_receipt:
  assumes "bj_laws L" "bpt_laws L" "exact_int i" and "bjm_cursor_set L st s c i = (st', Inr ())"
  shows "receipt L st' s c = Some (case receipt L st s c of None \<Rightarrow> i | Some j \<Rightarrow> max j i)"
  using cursor_set_tree [OF assms]
  by (auto simp: receipt_def max_def split: option.splits sum.splits)

lemma cursor_set_failed:
  assumes "bj_laws L" "bpt_laws L" "exact_int i" and "bjm_cursor_set L st s c i = (st', Inl e)"
  shows "receipt L st' = receipt L st"
  using cursor_set_tree [OF assms] by (auto intro!: receipt_cong)

lemma cursor_set_other:
  assumes "bj_laws L" "bpt_laws L" "exact_int i" and "bjm_cursor_set L st s c i = (st', r)"
    and "bjm_subject_valid s" "bjm_subject_valid s'" and "(s', c') \<noteq> (s, c)"
  shows "receipt L st' s' c' = receipt L st s' c'"
proof -
  have "s' @ ''/'' @ c' \<noteq> s @ ''/'' @ c"
    using key_inj [of s' BJM_SUBJECT_MAX s c' c] assms(5-7) by (auto simp: bjm_subject_valid_def)
  with cursor_set_tree [OF assms(1-4)] show ?thesis by (auto simp: receipt_def)
qed

section \<open>The contract of an acknowledgement\<close>

text \<open>Run a list of acknowledgements, telling whether all of them succeeded.\<close>

fun run_acks :: "('s \<Rightarrow> u64 \<Rightarrow> 's \<times> unit res) \<Rightarrow> 's \<Rightarrow> u64 list \<Rightarrow> 's \<times> bool" where
  "run_acks ack s [] = (s, True)"
| "run_acks ack s (i # js) =
     (case ack s i of (s', r) \<Rightarrow> (case run_acks ack s' js of (s'', ok) \<Rightarrow> (s'', is_ok r \<and> ok)))"

locale receipts =
  fixes ok :: "'s \<Rightarrow> bool"
    and seen :: "'s \<Rightarrow> string \<Rightarrow> string \<Rightarrow> u64 option"
    and ack :: "string \<Rightarrow> string \<Rightarrow> 's \<Rightarrow> u64 \<Rightarrow> 's \<times> unit res"
  assumes ack_ok: "ok s \<Longrightarrow> ack a c s i = (s', r) \<Longrightarrow> ok s'"
    and ack_moves: "ok s \<Longrightarrow> exact_int i \<Longrightarrow> ack a c s i = (s', Inr ()) \<Longrightarrow>
      seen s' a c = Some (case seen s a c of None \<Rightarrow> i | Some j \<Rightarrow> max j i)"
    and ack_fails: "ok s \<Longrightarrow> exact_int i \<Longrightarrow> ack a c s i = (s', Inl e) \<Longrightarrow> seen s' = seen s"
    and ack_others: "ok s \<Longrightarrow> exact_int i \<Longrightarrow> ack a c s i = (s', r) \<Longrightarrow> bjm_subject_valid a \<Longrightarrow>
      bjm_subject_valid a' \<Longrightarrow> (a', c') \<noteq> (a, c) \<Longrightarrow> seen s' a' c' = seen s a' c'"
begin

lemma ack_forward:
  assumes "ok s" "exact_int i" "ack a c s i = (s', r)" "seen s a c = Some j"
  shows "\<exists>j'. seen s' a c = Some j' \<and> j \<le> j'"
proof (cases r)
  case (Inl e)
  with assms ack_fails show ?thesis by auto
next
  case (Inr u)
  with assms ack_moves [of s i a c s'] show ?thesis by auto
qed

lemma acks_forward:
  "ok s \<Longrightarrow> \<forall>i \<in> set js. exact_int i \<Longrightarrow> run_acks (ack a c) s js = (s', b) \<Longrightarrow>
     seen s a c = Some j \<Longrightarrow> \<exists>j'. seen s' a c = Some j' \<and> j \<le> j'"
proof (induction js arbitrary: s j b)
  case Nil
  then show ?case by simp
next
  case (Cons i js)
  obtain s1 r where a: "ack a c s i = (s1, r)" by (cases "ack a c s i")
  obtain j1 where j1: "seen s1 a c = Some j1" "j \<le> j1"
    using ack_forward [OF _ _ a] Cons.prems by auto
  obtain b1 where "run_acks (ack a c) s1 js = (s', b1)"
    using Cons.prems(3) a by (auto split: prod.splits)
  with Cons.IH [of s1 b1 j1] ack_ok [OF Cons.prems(1) a] Cons.prems(2) j1 show ?case
    by (auto intro: order_trans)
qed

lemma acks_max:
  "ok s \<Longrightarrow> \<forall>i \<in> set js. exact_int i \<Longrightarrow> run_acks (ack a c) s js = (s', True) \<Longrightarrow> js \<noteq> [] \<Longrightarrow>
     seen s' a c = Some (fold max js (case seen s a c of None \<Rightarrow> 0 | Some j \<Rightarrow> j))"
proof (induction js arbitrary: s)
  case Nil
  then show ?case by simp
next
  case (Cons i js)
  obtain s1 r where a: "ack a c s i = (s1, r)" by (cases "ack a c s i")
  from Cons.prems(3) a have r: "r = Inr ()" and rest: "run_acks (ack a c) s1 js = (s', True)"
    by (auto simp: is_ok_iff split: prod.splits)
  have s1: "seen s1 a c = Some (case seen s a c of None \<Rightarrow> i | Some j \<Rightarrow> max j i)"
    using ack_moves [of s i a c s1] a r Cons.prems(1,2) by simp
  show ?case
  proof (cases "js = []")
    case True
    with rest s1 show ?thesis by (auto simp: max.commute split: option.splits)
  next
    case False
    from Cons.IH [OF ack_ok [OF Cons.prems(1) a] _ rest False] Cons.prems(2) s1 show ?thesis
      by (auto simp: max.commute split: option.splits)
  qed
qed

text \<open>So the order of acknowledgements, and repeating one, make no difference.\<close>

lemma acks_order_irrelevant:
  assumes "ok s" and "\<forall>i \<in> set js. exact_int i" and "set ks = set js"
    and "run_acks (ack a c) s js = (s1, True)" and "run_acks (ack a c) s ks = (s2, True)"
  shows "seen s1 a c = seen s2 a c"
proof (cases "js = []")
  case True
  with assms show ?thesis by auto
next
  case False
  then have "ks \<noteq> []" using assms(3) by auto
  moreover have "fold max xs (z :: u64) = Max (insert z (set xs))" for xs z
    by (simp add: Max.set_eq_fold flip: list.set(2))
  ultimately show ?thesis
    using acks_max [OF assms(1,2,4) False] acks_max [OF assms(1) _ assms(5)] assms(2,3) by simp
qed

end

text \<open>
  The store provides the contract: its states are a library and a store over it.
\<close>

definition receipts_ok :: "('t, 'l) lib \<times> ('t, 'l) store \<Rightarrow> bool" where
  "receipts_ok s \<longleftrightarrow> bj_laws (fst s) \<and> bpt_laws (fst s)"

definition receipts_ack ::
    "string \<Rightarrow> string \<Rightarrow> ('t, 'l) lib \<times> ('t, 'l) store \<Rightarrow> u64 \<Rightarrow> (('t, 'l) lib \<times> ('t, 'l) store) \<times> unit res"
  where
  "receipts_ack a c s i =
     (case bjm_cursor_set (fst s) (snd s) a c i of (st', r) \<Rightarrow> ((fst s, st'), r))"

interpretation store_receipts:
  receipts receipts_ok "\<lambda>s. receipt (fst s) (snd s)" receipts_ack
proof unfold_locales
  fix s s' :: "('t, 'l) lib \<times> ('t, 'l) store" and a c i r
  assume ok: "receipts_ok s"
  obtain L st where s: "s = (L, st)" by (cases s)
  show "receipts_ack a c s i = (s', r) \<Longrightarrow> receipts_ok s'"
    using ok s by (auto simp: receipts_ack_def receipts_ok_def split: prod.splits)
  show "exact_int i \<Longrightarrow> receipts_ack a c s i = (s', Inr ()) \<Longrightarrow> receipt (fst s') (snd s') a c =
      Some (case receipt (fst s) (snd s) a c of None \<Rightarrow> i | Some j \<Rightarrow> max j i)"
    using ok s cursor_set_receipt [of L i st a c]
    by (auto simp: receipts_ack_def receipts_ok_def split: prod.splits)
  show "exact_int i \<Longrightarrow> receipts_ack a c s i = (s', Inl e) \<Longrightarrow>
      receipt (fst s') (snd s') = receipt (fst s) (snd s)" for e
    using ok s cursor_set_failed [of L i st a c]
    by (auto simp: receipts_ack_def receipts_ok_def split: prod.splits)
  show "exact_int i \<Longrightarrow> receipts_ack a c s i = (s', r) \<Longrightarrow> bjm_subject_valid a \<Longrightarrow>
      bjm_subject_valid a' \<Longrightarrow> (a', c') \<noteq> (a, c) \<Longrightarrow>
      receipt (fst s') (snd s') a' c' = receipt (fst s) (snd s) a' c'" for a' c'
    using ok s cursor_set_other [of L i st a c _ r a' c']
    by (auto simp: receipts_ack_def receipts_ok_def split: prod.splits)
qed

end
