(* ===== verification/Policies.thy ===== *)
theory Policies
  imports Store
begin

text \<open>
  Retention policies, the publish-time marks that serve age policies, and publishing
  (\<open>src/src/store.c\<close>). Policies and marks share one tree: \<open>p/subject\<close> is the policy,
  \<open>m/subject\<close> its marks.
\<close>

section \<open>Policies\<close>

definition policy_handle :: "('t, 'l) store \<Rightarrow> 't res" where
  "policy_handle st = (case st_policy st of Opened t \<Rightarrow> Inr t | Closed _ \<Rightarrow> Inl BJ_ERR_STATE)"

text \<open>\<open>None\<close> when no policy is stored; the out-parameter is then all zero.\<close>

definition bjm_policy_get ::
    "('t, 'l) lib \<Rightarrow> ('t, 'l) store \<Rightarrow> string \<Rightarrow> ('t, 'l) store \<times> bjm_policy option res" where
  "bjm_policy_get L st subject =
     (case policy_open L st of
        (st, Inl e) \<Rightarrow> (st, Inl e)
      | (st, Inr t) \<Rightarrow>
          (case policy_key CHR ''p'' subject of
             Inl e \<Rightarrow> (st, Inl e)
           | Inr key \<Rightarrow>
               (case bpt_search L t key of
                  Inl e \<Rightarrow> (st, Inl e)
                | Inr None \<Rightarrow> (st, Inr None)
                | Inr (Some val) \<Rightarrow>
                    (case policy_decode L val of
                       Inl e \<Rightarrow> (st, Inl e)
                     | Inr p \<Rightarrow> (st, Inr (Some p))))))"

text \<open>Drop any cached copy so the next publish reloads it.\<close>

definition policy_uncache :: "('t, 'l) store \<Rightarrow> string \<Rightarrow> ('t, 'l) store" where
  "policy_uncache st subject = upd_sub st subject (\<lambda>s. s\<lparr>s_pol_loaded := False\<rparr>)"

definition bjm_policy_set ::
    "('t, 'l) lib \<Rightarrow> ('t, 'l) store \<Rightarrow> string \<Rightarrow> bjm_policy \<Rightarrow> ('t, 'l) store \<times> unit res" where
  "bjm_policy_set L st subject p =
     (case policy_open L st of
        (st, Inl e) \<Rightarrow> (st, Inl e)
      | (st, Inr t) \<Rightarrow>
          (case policy_key CHR ''p'' subject of
             Inl e \<Rightarrow> (st, Inl e)
           | Inr key \<Rightarrow>
               (case bpt_put L t key (policy_encode p) of
                  (t, Inl e) \<Rightarrow> (st\<lparr>st_policy := Opened t\<rparr>, Inl e)
                | (t, Inr _) \<Rightarrow>
                    (case bpt_sync L t of
                       (t, r) \<Rightarrow> (policy_uncache (st\<lparr>st_policy := Opened t\<rparr>) subject, r)))))"

text \<open>Whether there was a policy to clear. Its marks go with it, whatever deleting them answers.\<close>

definition bjm_policy_clear ::
    "('t, 'l) lib \<Rightarrow> ('t, 'l) store \<Rightarrow> string \<Rightarrow> ('t, 'l) store \<times> bool res" where
  "bjm_policy_clear L st subject =
     (case policy_open L st of
        (st, Inl e) \<Rightarrow> (st, Inl e)
      | (st, Inr t) \<Rightarrow>
          (case policy_key CHR ''p'' subject of
             Inl e \<Rightarrow> (st, Inl e)
           | Inr key \<Rightarrow>
               (case bpt_search L t key of
                  Inl e \<Rightarrow> (st, Inl e)
                | Inr None \<Rightarrow> (st, Inr False)
                | Inr (Some _) \<Rightarrow>
                    (case bpt_delete L t key of
                       (t, Inl e) \<Rightarrow> (st\<lparr>st_policy := Opened t\<rparr>, Inl e)
                     | (t, Inr _) \<Rightarrow>
                         let t = (case policy_key CHR ''m'' subject of
                                    Inl _ \<Rightarrow> t | Inr mkey \<Rightarrow> fst (bpt_delete L t mkey))
                         in (case bpt_sync L t of
                               (t, Inl e) \<Rightarrow> (policy_uncache (st\<lparr>st_policy := Opened t\<rparr>) subject, Inl e)
                             | (t, Inr _) \<Rightarrow>
                                 (policy_uncache (st\<lparr>st_policy := Opened t\<rparr>) subject, Inr True))))))"

definition policy_object :: "('t, 'l) lib \<Rightarrow> string \<times> bytes \<Rightarrow> ev list list" where
  "policy_object L kv =
     (case kv of (k, val) \<Rightarrow>
        if length k \<le> 2 then []
        else (case policy_decode L val of
                Inl _ \<Rightarrow> []
              | Inr p \<Rightarrow> [bj_object [(''subject'', [EStr (drop 2 k)]),
                  (''max_age_s'', [EInt (p_max_age_s p)]), (''max_messages'', [EInt (p_max_messages p)]),
                  (''max_bytes'', [EInt (p_max_bytes p)]),
                  (''ignore_consumers'', [EBool (p_ignore_consumers p)])]]))"

definition bjm_policy_list :: "('t, 'l) lib \<Rightarrow> ('t, 'l) store \<Rightarrow> ('t, 'l) store \<times> bytes res" where
  "bjm_policy_list L st =
     (case policy_open L st of
        (st, Inl e) \<Rightarrow> (st, Inl e)
      | (st, Inr t) \<Rightarrow>
          (case bpt_cursor L t (Some ''p/'') (Some ''p0'') of
             None \<Rightarrow> (st, Inl BJ_ERR_STATE)
           | Some (es, Some e) \<Rightarrow> (st, Inl e)
           | Some (es, None) \<Rightarrow> (st, bj_finish L (bj_array (concat (map (policy_object L) es))))))"

section \<open>Publish-time marks\<close>

definition marks_load :: "('t, 'l) lib \<Rightarrow> ('t, 'l) store \<Rightarrow> string \<Rightarrow> marks res" where
  "marks_load L st subject =
     (case policy_key CHR ''m'' subject of
        Inl e \<Rightarrow> Inl e
      | Inr key \<Rightarrow>
          (case policy_handle st of
             Inl e \<Rightarrow> Inl e
           | Inr t \<Rightarrow>
               (case bpt_search L t key of
                  Inl e \<Rightarrow> Inl e
                | Inr None \<Rightarrow> Inr []
                | Inr (Some val) \<Rightarrow>
                    (case bj_decode L val of Inl e \<Rightarrow> Inl e | Inr evs \<Rightarrow> marks_decode evs))))"

definition marks_store ::
    "('t, 'l) lib \<Rightarrow> ('t, 'l) store \<Rightarrow> string \<Rightarrow> marks \<Rightarrow> ('t, 'l) store \<times> unit res" where
  "marks_store L st subject m =
     (case policy_key CHR ''m'' subject of
        Inl e \<Rightarrow> (st, Inl e)
      | Inr key \<Rightarrow>
          (case policy_handle st of
             Inl e \<Rightarrow> (st, Inl e)
           | Inr t \<Rightarrow>
               (case bpt_put L t key (marks_encode m) of
                  (t, r) \<Rightarrow> (st\<lparr>st_policy := Opened t\<rparr>, r))))"

text \<open>The ring: the oldest mark makes room when a new pair would not fit.\<close>

definition marks_push :: "marks \<Rightarrow> u64 \<Rightarrow> u64 \<Rightarrow> marks" where
  "marks_push m index now =
     (if length m + 2 > BJM_MARKS_MAX * 2 then drop 2 m else m) @ [index, now]"

text \<open>The subject's policy, loaded into its table entry on first use.\<close>

definition subject_policy ::
    "('t, 'l) lib \<Rightarrow> ('t, 'l) store \<Rightarrow> 'l subject \<Rightarrow> ('t, 'l) store \<times> bjm_policy option" where
  "subject_policy L st s =
     (if s_pol_loaded s then (st, Some (s_pol s))
      else (case bjm_policy_get L st (s_name s) of
              (st, Inl e) \<Rightarrow> (st, None)
            | (st, Inr found) \<Rightarrow>
                let p = (case found of None \<Rightarrow> policy_zero | Some p \<Rightarrow> p) in
                (upd_sub st (s_name s) (\<lambda>s. s\<lparr>s_pol := p, s_pol_loaded := True\<rparr>), Some p)))"

definition mark_interval :: "bjm_policy \<Rightarrow> u64" where
  "mark_interval p =
     (let interval = p_max_age_s p div BJM_MARKS_PER_WINDOW in if interval < 1 then 1 else interval)"

definition mark_publish ::
    "('t, 'l) lib \<Rightarrow> ('t, 'l) store \<Rightarrow> 'l subject \<Rightarrow> u64 \<Rightarrow> ('t, 'l) store" where
  "mark_publish L st s index =
     (case subject_policy L st s of
        (st, None) \<Rightarrow> st
      | (st, Some p) \<Rightarrow>
          if p_max_age_s p = 0 then st
          else
            let now = now_ms st div 1000 in
            if s_last_mark_t s \<noteq> 0 \<and> now - s_last_mark_t s < mark_interval p then st
            else
              (case marks_load L st (s_name s) of
                 Inl _ \<Rightarrow> st
               | Inr m \<Rightarrow>
                   (case marks_store L st (s_name s) (marks_push m index now) of
                      (st, Inl _) \<Rightarrow> st
                    | (st, Inr _) \<Rightarrow> upd_sub st (s_name s) (\<lambda>s. s\<lparr>s_last_mark_t := now\<rparr>))))"

text \<open>Marks at or below the base name no live message.\<close>

fun prune_marks :: "u64 \<Rightarrow> marks \<Rightarrow> marks" where
  "prune_marks base (i # t # m) = (if i \<le> base then prune_marks base m else i # t # prune_marks base m)"
| "prune_marks base _ = []"

definition marks_prune ::
    "('t, 'l) lib \<Rightarrow> ('t, 'l) store \<Rightarrow> string \<Rightarrow> u64 \<Rightarrow> ('t, 'l) store" where
  "marks_prune L st subject base =
     (case marks_load L st subject of
        Inl _ \<Rightarrow> st
      | Inr m \<Rightarrow>
          if m = [] then st
          else if length (prune_marks base m) = length m then st
          else fst (marks_store L st subject (prune_marks base m)))"

section \<open>Publishing\<close>

text \<open>
  Append, sync, mark, and only then tell the delivery engine. The index is the message's id.
\<close>

definition bjm_publish ::
    "('t, 'l) lib \<Rightarrow> ('t, 'l) store \<Rightarrow> string \<Rightarrow> int \<Rightarrow> bytes \<Rightarrow> ('t, 'l) store \<times> u64 res" where
  "bjm_publish L st name entry_type payload =
     (case subject_get L st name True of
        (st, Inl e) \<Rightarrow> (st, Inl e)
      | (st, Inr s) \<Rightarrow>
          (case elog_append L (s_log s) entry_type payload of
             (l, Inl e) \<Rightarrow> (upd_sub st name (\<lambda>s. s\<lparr>s_log := l\<rparr>), Inl e)
           | (l, Inr index) \<Rightarrow>
               (case elog_sync L l of
                  (l, Inl e) \<Rightarrow> (upd_sub st name (\<lambda>s. s\<lparr>s_log := l\<rparr>), Inl e)
                | (l, Inr _) \<Rightarrow>
                    let st = mark_publish L (upd_sub st name (\<lambda>s. s\<lparr>s_log := l\<rparr>)) s index in
                    (if st_on_pub st then st\<lparr>st_pubs := st_pubs st @ [(name, index)]\<rparr> else st,
                     Inr index))))"

section \<open>What publishing changes\<close>

lemma policy_getD:
  assumes "bpt_laws L" and "bjm_policy_get L st n = (st', r)"
  shows "st' = st\<lparr>st_policy := st_policy st'\<rparr>"
    and "slot_view L (st_policy st') = slot_view L (st_policy st)"
proof -
  obtain st1 r1 where op: "policy_open L st = (st1, r1)" by (cases "policy_open L st")
  have "st' = st1"
    using assms(2) op by (auto simp: bjm_policy_get_def split: prod.splits sum.splits option.splits)
  then show "st' = st\<lparr>st_policy := st_policy st'\<rparr>"
    and "slot_view L (st_policy st') = slot_view L (st_policy st)"
    using tree_openD(3) [OF assms(1) op] by auto
qed

text \<open>
  Two stores that agree on everything but the policy tree and the cached policies and mark times
  of their subjects.
\<close>

definition same_logs :: "('t, 'l) store \<Rightarrow> ('t, 'l) store \<Rightarrow> bool" where
  "same_logs st st' \<longleftrightarrow>
     st' = st\<lparr>st_policy := st_policy st', st_subs := st_subs st'\<rparr> \<and>
     map s_name (st_subs st') = map s_name (st_subs st) \<and>
     map s_log (st_subs st') = map s_log (st_subs st)"

lemma same_logs_refl [simp]: "same_logs st st"
  by (simp add: same_logs_def)

lemma same_logs_trans: "same_logs a b \<Longrightarrow> same_logs b c \<Longrightarrow> same_logs a c"
  by (cases a; cases b; cases c) (auto simp: same_logs_def)

lemma same_logs_policy [simp]: "same_logs st (st\<lparr>st_policy := x\<rparr>)"
  by (simp add: same_logs_def)

lemma same_logs_upd:
  "(\<And>s. s_name (f s) = s_name s) \<Longrightarrow> (\<And>s. s_log (f s) = s_log s) \<Longrightarrow> same_logs st (upd_sub st n f)"
  by (simp add: same_logs_def upd_sub_def o_def)

lemma find_map_eq:
  assumes "map s_name xs = map s_name ys" and "map s_log xs = map s_log ys"
  shows "map_option s_log (find (\<lambda>s. s_name s = n) xs) = map_option s_log (find (\<lambda>s. s_name s = n) ys)"
  using assms
proof (induction xs arbitrary: ys)
  case Nil
  then show ?case by simp
next
  case (Cons x xs)
  then obtain y zs where "ys = y # zs" by (cases ys) auto
  with Cons show ?case by auto
qed

lemma same_logs_log_of:
  assumes "same_logs st st'"
  shows "log_of st' n = log_of st n"
proof -
  have "map_option s_log (find_sub st' n) = map_option s_log (find_sub st n)"
    using assms find_map_eq by (auto simp: same_logs_def find_sub_def)
  moreover have "st_files st' = st_files st"
    using assms unfolding same_logs_def by (metis store.ext_inject store.surjective store.update_convs(4,7))
  ultimately show ?thesis
    by (auto simp: log_of_def map_option_case split: option.splits)
qed

lemma policy_get_same: "bpt_laws L \<Longrightarrow> bjm_policy_get L st n = (st', r) \<Longrightarrow> same_logs st st'"
  using policy_getD(1) [of L st n st' r] same_logs_policy by metis

lemma subject_policy_same:
  assumes "bpt_laws L" and "subject_policy L st s = (st', p)"
  shows "same_logs st st'"
proof -
  obtain st1 r where get: "bjm_policy_get L st (s_name s) = (st1, r)"
    by (cases "bjm_policy_get L st (s_name s)")
  show ?thesis
    using assms(2) get policy_get_same [OF assms(1) get]
    by (auto simp: subject_policy_def Let_def split: if_splits sum.splits
        intro: same_logs_trans [OF _ same_logs_upd])
qed

lemma marks_store_same: "marks_store L st n m = (st', r) \<Longrightarrow> same_logs st st'"
  by (auto simp: marks_store_def split: sum.splits prod.splits)

lemma mark_publish_same:
  assumes "bpt_laws L"
  shows "same_logs st (mark_publish L st s i)"
proof -
  obtain st1 p where pol: "subject_policy L st s = (st1, p)" by (cases "subject_policy L st s")
  note same1 = subject_policy_same [OF assms pol]
  have "same_logs st1 (fst (marks_store L st1 (s_name s) m))" for m
    using marks_store_same by (metis prod.collapse)
  with same1 pol show ?thesis
    by (auto simp: mark_publish_def Let_def split: option.splits sum.splits prod.splits
        intro: same_logs_trans [OF _ same_logs_upd] same_logs_trans)
      (metis fst_conv same_logs_trans same_logs_upd subject.select_convs(1,2) subject.surjective subject.update_convs(5))+
qed

lemma log_of_upd_log:
  assumes "find_sub st n = Some s"
  shows "log_of (upd_sub st n (\<lambda>s. s\<lparr>s_log := l\<rparr>)) m = (if m = n then Some l else log_of st m)"
  using assms by (auto simp: log_of_def upd_sub_def split: option.split)
    (simp_all add: find_sub_def [symmetric] upd_sub_def [symmetric])

text \<open>
  A publish that succeeds adds one message at the end of its subject's log and names its index; one
  that fails after the append may leave the message in the log's buffer; no other subject changes.
\<close>

lemma publish_logs:
  assumes laws: "elog_laws L" "bpt_laws L" and pub: "bjm_publish L st n ty p = (st', r)"
  shows "base_of L st' m = base_of L st m"
    and "m \<noteq> n \<Longrightarrow> msgs L st' m = msgs L st m"
    and "r = Inr i \<Longrightarrow> msgs L st' n = msgs L st n @ [(ty, p)]"
    and "r = Inr i \<Longrightarrow> unat i = base_of L st n + length (msgs L st n) + 1"
    and "msgs L st' n = msgs L st n \<or> msgs L st' n = msgs L st n @ [(ty, p)]"
proof -
  obtain st1 r1 where get: "subject_get L st n True = (st1, r1)" by (cases "subject_get L st n True")
  note log1 = subject_get_log [OF laws(1) get]
  have "base_of L st' m = base_of L st m \<and> (m \<noteq> n \<longrightarrow> msgs L st' m = msgs L st m) \<and>
      (\<forall>i. r = Inr i \<longrightarrow> msgs L st' n = msgs L st n @ [(ty, p)] \<and>
           unat i = base_of L st n + length (msgs L st n) + 1) \<and>
      (msgs L st' n = msgs L st n \<or> msgs L st' n = msgs L st n @ [(ty, p)])"
  proof (cases r1)
    case (Inl e)
    with pub get log1 show ?thesis by (auto simp: bjm_publish_def)
  next
    case (Inr s)
    note found = subject_get_found [OF get [unfolded Inr]]
    note view = subject_get_view [OF laws(1) get [unfolded Inr]]
    obtain l1 r2 where app: "elog_append L (s_log s) ty p = (l1, r2)"
      by (cases "elog_append L (s_log s) ty p")
    note a = elog_appendD [OF laws(1) app]
    obtain l2 r3 where sy: "elog_sync L l1 = (l2, r3)" by (cases "elog_sync L l1")
    note y = elog_syncD [OF laws(1) sy]
    have keep: "log_of st' m = (if m = n then Some (if is_ok r2 then l2 else l1) else log_of st1 m)" for m
    proof (cases r2)
      case (Inl e)
      with pub get Inr app show ?thesis
        by (auto simp: bjm_publish_def log_of_upd_log [OF found] \<open>r1 = Inr s\<close>)
    next
      case idx: (Inr i)
      let ?st2 = "upd_sub st1 n (\<lambda>s. s\<lparr>s_log := l2\<rparr>)"
      have "st_subs st' = st_subs (mark_publish L ?st2 s i) \<and> st_files st' = st_files (mark_publish L ?st2 s i)
          \<or> st' = ?st2"
        using pub get Inr app idx sy by (cases r3) (auto simp: bjm_publish_def Let_def)
      then have "log_of st' m = log_of ?st2 m"
        using log_of_cong same_logs_log_of [OF mark_publish_same [OF laws(2)]] by metis
      with log_of_upd_log [OF found] idx show ?thesis by simp
    qed
    have base: "base_of L st' k = base_of L st1 k \<and> (k \<noteq> n \<longrightarrow> msgs L st' k = msgs L st1 k)" for k
      using keep [of k] a y view log1 by (auto simp: base_of_def msgs_def)
    have new: "msgs L st' n = msgs L st n @ (if is_ok r2 then [(ty, p)] else [])"
      using keep [of n] a y view by (auto simp: msgs_def)
    have idx: "unat i = base_of L st n + length (msgs L st n) + 1" if "r2 = Inr i" for i
      using a view elog_indexD(2) [OF laws(1), of l1] that by auto
    have "\<forall>i. r = Inr i \<longrightarrow> r2 = Inr i"
      using pub get Inr app sy by (cases r2; cases r3) (auto simp: bjm_publish_def Let_def)
    with base new idx log1 show ?thesis by auto
  qed
  then show "base_of L st' m = base_of L st m"
    and "m \<noteq> n \<Longrightarrow> msgs L st' m = msgs L st m"
    and "r = Inr i \<Longrightarrow> msgs L st' n = msgs L st n @ [(ty, p)]"
    and "r = Inr i \<Longrightarrow> unat i = base_of L st n + length (msgs L st n) + 1"
    and "msgs L st' n = msgs L st n \<or> msgs L st' n = msgs L st n @ [(ty, p)]"
    by blast+
qed

lemma publish_frame:
  assumes laws: "bpt_laws L" and pub: "bjm_publish L st n ty p = (st', r)"
  shows "st' = st\<lparr>st_subs := st_subs st', st_files := st_files st', st_policy := st_policy st',
                  st_pubs := st_pubs st'\<rparr> \<and>
         st_pubs st' = st_pubs st @ (case r of Inr i \<Rightarrow> if st_on_pub st then [(n, i)] else [] | Inl _ \<Rightarrow> [])"
proof -
  obtain st1 r1 where get: "subject_get L st n True = (st1, r1)" by (cases "subject_get L st n True")
  obtain x y where f1: "st1 = st\<lparr>st_subs := x, st_files := y\<rparr>"
    using subject_get_frame [OF get] by blast
  show ?thesis
  proof (cases r1)
    case (Inl e)
    with pub get f1 show ?thesis by (auto simp: bjm_publish_def)
  next
    case (Inr s)
    obtain l1 r2 where app: "elog_append L (s_log s) ty p = (l1, r2)"
      by (cases "elog_append L (s_log s) ty p")
    obtain l2 r3 where sy: "elog_sync L l1 = (l2, r3)" by (cases "elog_sync L l1")
    note case_eqs = get Inr app sy f1
    show ?thesis
    proof (cases "\<exists>i u. r2 = Inr i \<and> r3 = Inr u")
      case False
      then show ?thesis
        using pub case_eqs by (cases r2; cases r3) (auto simp: bjm_publish_def upd_sub_def)
    next
      case True
      then obtain i u where ok: "r2 = Inr i" "r3 = Inr u" by blast
      obtain m where mdef: "m = mark_publish L (upd_sub st1 n (\<lambda>s. s\<lparr>s_log := l2\<rparr>)) s i" by simp
      have "same_logs (upd_sub st1 n (\<lambda>s. s\<lparr>s_log := l2\<rparr>)) m"
        unfolding mdef by (rule mark_publish_same [OF laws])
      then obtain a b where m: "m = st\<lparr>st_files := y, st_policy := b, st_subs := a\<rparr>"
        unfolding same_logs_def f1 upd_sub_def by auto
      have "st' = (if st_on_pub m then m\<lparr>st_pubs := st_pubs m @ [(n, i)]\<rparr> else m)" "r = Inr i"
        using pub case_eqs ok by (auto simp: bjm_publish_def Let_def mdef)
      then show ?thesis by (simp add: m)
    qed
  qed
qed

end
