(* ===== verification/Queue_Core.thy ===== *)
theory Queue_Core
  imports Codec "HOL-Library.Multiset"
begin

text \<open>
  What a queue group does with its record, apart from loading and storing it
  (\<open>src/src/store.c\<close>, the inflight table, \<open>bjm_take\<close>'s two loops, \<open>backoff_for\<close> and the
  changes of \<open>queue_release\<close>), and a declarative account of one take: which leases it renews,
  buries and keeps, and which messages it hands out for the first time.
\<close>

section \<open>The inflight table\<close>

text \<open>The last entry moves into the hole.\<close>

definition fl_remove :: "qrec \<Rightarrow> nat \<Rightarrow> qrec" where
  "fl_remove q i =
     (let last_e = length (q_fl q) - 1;
          fl = (if i \<noteq> last_e then (q_fl q)[i := q_fl q ! last_e] else q_fl q)
      in q\<lparr>q_fl := take last_e fl\<rparr>)"

fun fl_find_from :: "nat \<Rightarrow> lease list \<Rightarrow> u64 \<Rightarrow> nat option" where
  "fl_find_from i [] index = None"
| "fl_find_from i (l # fl) index = (if l_index l = index then Some i else fl_find_from (i + 1) fl index)"

definition fl_find :: "qrec \<Rightarrow> u64 \<Rightarrow> nat option" where
  "fl_find q index = fl_find_from 0 (q_fl q) index"

text \<open>A job that is out of attempts: counted, and listed among the most recent of them.\<close>

definition bury :: "qrec \<Rightarrow> u64 \<Rightarrow> qrec" where
  "bury q index =
     q\<lparr>q_dead_total := q_dead_total q + 1,
       q_dead := (if length (q_dead q) = BJM_DEAD_MAX then drop 1 (q_dead q) else q_dead q) @ [index]\<rparr>"

definition exhausted :: "qrec \<Rightarrow> lease \<Rightarrow> bool" where
  "exhausted q l \<longleftrightarrow> q_max_attempts q \<noteq> 0 \<and> l_attempts l \<ge> q_max_attempts q"

definition renew :: "u64 \<Rightarrow> lease \<Rightarrow> lease" where
  "renew expires l = l\<lparr>l_attempts := l_attempts l + 1, l_expires := expires\<rparr>"

section \<open>Taking\<close>

text \<open>Index and attempt number of a job.\<close>

type_synonym job = "u64 \<times> u64"

text \<open>
  Expired leases first. The scan stays on an entry it removed, since another one moved there.
\<close>

function take_expired ::
    "u64 \<Rightarrow> u64 \<Rightarrow> nat \<Rightarrow> nat \<Rightarrow> qrec \<Rightarrow> job list \<Rightarrow> job list \<Rightarrow> qrec \<times> job list \<times> job list" where
  "take_expired now lease_ms limit i q js ds =
     (if i < length (q_fl q) \<and> length js < limit then
        let l = q_fl q ! i in
        if l_expires l > now then take_expired now lease_ms limit (i + 1) q js ds
        else if exhausted q l then
          take_expired now lease_ms limit i (fl_remove (bury q (l_index l)) i) js
            (if length ds < BJM_INFLIGHT_MAX then ds @ [(l_index l, l_attempts l)] else ds)
        else
          take_expired now lease_ms limit (i + 1)
            (q\<lparr>q_fl := (q_fl q)[i := renew (now + lease_ms) l]\<rparr>)
            (js @ [(l_index l, l_attempts l + 1)]) ds
      else (q, js, ds))"
  by pat_completeness auto
termination
  by (relation "measure (\<lambda>(now, lease_ms, limit, i, q, js, ds). length (q_fl q) - i)")
    (auto simp: fl_remove_def bury_def Let_def)

text \<open>Then messages never handed out, as long as the table has room for their leases.\<close>

function take_new :: "u64 \<Rightarrow> u64 \<Rightarrow> nat \<Rightarrow> u64 \<Rightarrow> qrec \<Rightarrow> job list \<Rightarrow> qrec \<times> job list" where
  "take_new now lease_ms limit last_ix q js =
     (if length js < limit \<and> q_next q \<le> last_ix then
        if lease_ms > 0 \<and> length (q_fl q) \<ge> BJM_INFLIGHT_MAX then (q, js)
        else
          let fl = (if lease_ms > 0
                    then q_fl q @ [\<lparr>l_index = q_next q, l_expires = now + lease_ms, l_attempts = 1\<rparr>]
                    else q_fl q)
          in take_new now lease_ms limit last_ix (q\<lparr>q_fl := fl, q_next := q_next q + 1\<rparr>)
               (js @ [(q_next q, 1)])
      else (q, js))"
  by pat_completeness auto
termination
  by (relation "measure (\<lambda>(now, lease_ms, limit, last_ix, q, js). limit - length js)") auto

declare take_expired.simps [simp del] take_new.simps [simp del]

text \<open>A negative or zero \<open>max\<close> asks for one job, and no more than a full table can be asked for.\<close>

definition take_limit :: "int \<Rightarrow> nat" where
  "take_limit n = nat (let n = (if n < 1 then 1 else n) in if n > int BJM_INFLIGHT_MAX then int BJM_INFLIGHT_MAX else n)"

text \<open>\<open>UINT64_MAX\<close> stands for the group's own lease; any other value becomes it.\<close>

definition lease_for :: "qrec \<Rightarrow> u64 \<Rightarrow> qrec \<times> u64" where
  "lease_for q lease_ms = (if lease_ms = UINT64_MAX then (q, q_lease_ms q) else (q\<lparr>q_lease_ms := lease_ms\<rparr>, lease_ms))"

definition take_jobs :: "u64 \<Rightarrow> u64 \<Rightarrow> nat \<Rightarrow> u64 \<Rightarrow> qrec \<Rightarrow> qrec \<times> job list \<times> job list" where
  "take_jobs now lease_ms limit last_ix q =
     (case take_expired now lease_ms limit 0 q [] [] of
        (q, js, ds) \<Rightarrow> (case take_new now lease_ms limit last_ix q js of (q, js) \<Rightarrow> (q, js, ds)))"

section \<open>Finishing and failing\<close>

text \<open>
  The shift is bounded, and a product that wrapped below the base delay is replaced by the cap.
\<close>

definition backoff_for :: "qrec \<Rightarrow> u64 \<Rightarrow> u64" where
  "backoff_for q attempts =
     (if q_backoff_ms q = 0 then 0
      else
        let shift = (if attempts > 0 then unat (ucast (attempts - 1) :: 32 word) else 0);
            shift = (if shift > 30 then 30 else shift);
            d = push_bit shift (q_backoff_ms q);
            d = (if d < q_backoff_ms q then q_max_backoff_ms q else d)
        in if q_max_backoff_ms q \<noteq> 0 \<and> d > q_max_backoff_ms q then q_max_backoff_ms q else d)"

text \<open>
  \<open>queue_release\<close> between load and store: the new record and the delay, or \<open>None\<close> for a job
  that was never leased or is already finished.
\<close>

definition release_job :: "u64 \<Rightarrow> qrec \<Rightarrow> u64 \<Rightarrow> bool \<Rightarrow> u64 \<Rightarrow> (qrec \<times> u64) option" where
  "release_job now q index drop_it delay_ms =
     (case fl_find q index of
        None \<Rightarrow> None
      | Some i \<Rightarrow>
          if drop_it then Some (fl_remove q i, 0)
          else
            let d = (if delay_ms = UINT64_MAX then backoff_for q (l_attempts (q_fl q ! i)) else delay_ms)
            in Some (q\<lparr>q_fl := (q_fl q)[i := (q_fl q ! i)\<lparr>l_expires := now + d\<rparr>]\<rparr>, d))"

text \<open>When the group next has work nobody holds: the earliest expiry in the table.\<close>

fun earliest_due :: "lease list \<Rightarrow> u64 option \<Rightarrow> u64 option" where
  "earliest_due [] due = due"
| "earliest_due (l # fl) due =
     earliest_due fl (case due of None \<Rightarrow> Some (l_expires l)
                      | Some d \<Rightarrow> if l_expires l < d then Some (l_expires l) else Some d)"

text \<open>Everything above the floor of a group is still owed to somebody.\<close>

definition owed_floor :: "qrec \<Rightarrow> u64" where
  "owed_floor q =
     (let owed = fold (\<lambda>l owed. if l_index l < owed then l_index l else owed) (q_fl q) (q_next q)
      in if owed > 0 then owed - 1 else 0)"

section \<open>The table as a collection\<close>

lemma take_butlast_swap:
  assumes "i < length xs"
  shows "take i (take (length xs - 1) (if i \<noteq> length xs - 1 then xs[i := xs ! (length xs - 1)] else xs)) = take i xs"
    and "mset (drop i (take (length xs - 1) (if i \<noteq> length xs - 1 then xs[i := xs ! (length xs - 1)] else xs))) =
         mset (drop i xs) - {#xs ! i#}"
proof -
  show "take i (take (length xs - 1) (if i \<noteq> length xs - 1 then xs[i := xs ! (length xs - 1)] else xs)) = take i xs"
    using assms by (auto simp: min_def)
  obtain p x r where xs: "xs = p @ x # r" "length p = i"
    using assms by (metis id_take_nth_drop length_take min.absorb4)
  show "mset (drop i (take (length xs - 1) (if i \<noteq> length xs - 1 then xs[i := xs ! (length xs - 1)] else xs))) =
         mset (drop i xs) - {#xs ! i#}"
  proof (cases r rule: rev_cases)
    case Nil
    with xs show ?thesis by (auto simp: nth_append)
  next
    case (snoc r' y)
    with xs show ?thesis by (simp add: list_update_append nth_append)
  qed
qed

lemma fl_remove_parts:
  assumes "i < length (q_fl q)"
  shows "take i (q_fl (fl_remove q i)) = take i (q_fl q)"
    and "mset (drop i (q_fl (fl_remove q i))) = mset (drop i (q_fl q)) - {#q_fl q ! i#}"
    and "length (q_fl (fl_remove q i)) = length (q_fl q) - 1"
proof -
  have fl: "q_fl (fl_remove q i) = take (length (q_fl q) - 1)
      (if i \<noteq> length (q_fl q) - 1 then (q_fl q)[i := q_fl q ! (length (q_fl q) - 1)] else q_fl q)"
    unfolding fl_remove_def Let_def by simp
  show "take i (q_fl (fl_remove q i)) = take i (q_fl q)"
    and "mset (drop i (q_fl (fl_remove q i))) = mset (drop i (q_fl q)) - {#q_fl q ! i#}"
    unfolding fl by (rule take_butlast_swap [OF assms])+
  show "length (q_fl (fl_remove q i)) = length (q_fl q) - 1"
    unfolding fl by simp
qed

lemma fl_remove_mset:
  assumes "i < length (q_fl q)"
  shows "mset (q_fl (fl_remove q i)) = mset (q_fl q) - {#q_fl q ! i#}"
proof -
  have "q_fl q ! i \<in># mset (drop i (q_fl q))"
    using assms by (simp add: Cons_nth_drop_Suc [symmetric])
  then have "mset (take i (q_fl q)) + (mset (drop i (q_fl q)) - {#q_fl q ! i#}) =
      mset (q_fl q) - {#q_fl q ! i#}"
    by (metis append_take_drop_id mset_append multiset_diff_union_assoc single_subset_iff)
  then show ?thesis
    using fl_remove_parts [OF assms] by (metis append_take_drop_id mset_append)
qed

lemma fl_remove_fields [simp]:
  "q_next (fl_remove q i) = q_next q" "q_lease_ms (fl_remove q i) = q_lease_ms q"
  "q_max_attempts (fl_remove q i) = q_max_attempts q" "q_backoff_ms (fl_remove q i) = q_backoff_ms q"
  "q_max_backoff_ms (fl_remove q i) = q_max_backoff_ms q" "q_dead_total (fl_remove q i) = q_dead_total q"
  "q_dead (fl_remove q i) = q_dead q"
  by (simp_all add: fl_remove_def Let_def)

lemma bury_fields [simp]:
  "q_next (bury q x) = q_next q" "q_fl (bury q x) = q_fl q" "q_lease_ms (bury q x) = q_lease_ms q"
  "q_max_attempts (bury q x) = q_max_attempts q" "q_backoff_ms (bury q x) = q_backoff_ms q"
  "q_max_backoff_ms (bury q x) = q_max_backoff_ms q"
  by (simp_all add: bury_def)

lemma bury_dead [simp]:
  "q_dead_total (bury q x) = q_dead_total q + 1"
  "length (q_dead q) \<le> BJM_DEAD_MAX \<Longrightarrow> length (q_dead (bury q x)) \<le> BJM_DEAD_MAX"
  by (auto simp: bury_def BJM_DEAD_MAX_def)

lemma fl_find_fromD:
  "fl_find_from k fl x = Some i \<Longrightarrow> k \<le> i \<and> i - k < length fl \<and> l_index (fl ! (i - k)) = x"
  "fl_find_from k fl x = None \<longleftrightarrow> (\<forall>l \<in> set fl. l_index l \<noteq> x)"
proof -
  show "fl_find_from k fl x = Some i \<Longrightarrow> k \<le> i \<and> i - k < length fl \<and> l_index (fl ! (i - k)) = x"
  proof (induction k fl x rule: fl_find_from.induct)
    case (2 k l fl index)
    then show ?case by (cases "i = k") (auto split: if_splits simp: nth_Cons')
  qed simp
  show "fl_find_from k fl x = None \<longleftrightarrow> (\<forall>l \<in> set fl. l_index l \<noteq> x)"
    by (induction k fl x rule: fl_find_from.induct) auto
qed

lemma fl_findD:
  "fl_find q x = Some i \<Longrightarrow> i < length (q_fl q) \<and> l_index (q_fl q ! i) = x"
  "fl_find q x = None \<longleftrightarrow> (\<forall>l \<in> set (q_fl q). l_index l \<noteq> x)"
  using fl_find_fromD(1) [of 0 "q_fl q" x i] fl_find_fromD(2) [of 0 "q_fl q" x] by (simp_all add: fl_find_def)

section \<open>What one take does\<close>

text \<open>
  The expired scan from position \<open>i\<close>: the leases \<open>R\<close> it renews and hands out, the leases
  \<open>D\<close> it buries, and the rest \<open>K\<close>, which are unexpired unless the limit was reached first.
\<close>

definition job_of :: "lease \<Rightarrow> job" where
  "job_of = (\<lambda>l. (l_index l, l_attempts l))"

definition queue_frame :: "qrec \<Rightarrow> qrec \<Rightarrow> bool" where
  "queue_frame q q' \<longleftrightarrow> q_lease_ms q' = q_lease_ms q \<and> q_max_attempts q' = q_max_attempts q \<and>
     q_backoff_ms q' = q_backoff_ms q \<and> q_max_backoff_ms q' = q_max_backoff_ms q"

lemma queue_frame_refl [simp]: "queue_frame q q"
  by (simp add: queue_frame_def)

lemma exhausted_frame: "queue_frame q q' \<Longrightarrow> exhausted q' l = exhausted q l"
  by (simp add: queue_frame_def exhausted_def)

definition scan_spec ::
    "u64 \<Rightarrow> u64 \<Rightarrow> nat \<Rightarrow> nat \<Rightarrow> qrec \<Rightarrow> job list \<Rightarrow> qrec \<Rightarrow> job list \<Rightarrow> lease list \<Rightarrow> lease list \<Rightarrow> lease multiset \<Rightarrow> bool"
  where
  "scan_spec now lease_ms limit i q js q' js' R D K \<longleftrightarrow>
     mset (drop i (q_fl q)) = mset R + mset D + K \<and>
     mset (q_fl q') = mset (take i (q_fl q)) + mset (map (renew (now + lease_ms)) R) + K \<and>
     js' = js @ map (\<lambda>l. (l_index l, l_attempts l + 1)) R \<and>
     (\<forall>l \<in> set R. l_expires l \<le> now \<and> \<not> exhausted q l) \<and>
     (\<forall>l \<in> set D. l_expires l \<le> now \<and> exhausted q l) \<and>
     (length js' < limit \<longrightarrow> (\<forall>l. l \<in># K \<longrightarrow> now < l_expires l)) \<and>
     length js' \<le> max limit (length js) \<and>
     queue_frame q q' \<and> q_next q' = q_next q \<and>
     q_dead_total q' = q_dead_total q + word_of_nat (length D) \<and>
     (length (q_dead q) \<le> BJM_DEAD_MAX \<longrightarrow> length (q_dead q') \<le> BJM_DEAD_MAX)"

lemma take_expired_spec:
  assumes "take_expired now lease_ms limit i q js ds = (q', js', ds')"
    and "length ds + length (q_fl q) \<le> BJM_INFLIGHT_MAX + i" and "i \<le> length (q_fl q)"
  shows "\<exists>R D K. scan_spec now lease_ms limit i q js q' js' R D K \<and> ds' = ds @ map job_of D"
  using assms
proof (induction now lease_ms limit i q js ds rule: take_expired.induct)
  case (1 now lease_ms limit i q js ds)
  let ?l = "q_fl q ! i"
  show ?case
  proof (cases "i < length (q_fl q) \<and> length js < limit")
    case False
    then have "(q', js', ds') = (q, js, ds)" using 1(4) by (subst (asm) take_expired.simps) auto
    then have "scan_spec now lease_ms limit i q js q' js' [] [] (mset (drop i (q_fl q)))"
      using False 1(6) by (auto simp: scan_spec_def mset_append [symmetric] simp del: mset_append)
    with \<open>(q', js', ds') = (q, js, ds)\<close> show ?thesis by (intro exI [of _ "[]"]) auto
  next
    case go: True
    then have i: "i < length (q_fl q)" by simp
    have here: "mset (drop i (q_fl q)) = {#?l#} + mset (drop (i + 1) (q_fl q))"
      using i by (simp add: Cons_nth_drop_Suc [symmetric])
    have upto: "mset (take (i + 1) (q_fl q)) = mset (take i (q_fl q)) + {#?l#}"
      using i by (simp add: take_Suc_conv_app_nth)
    consider "l_expires ?l > now" | "l_expires ?l \<le> now" "exhausted q ?l"
      | "l_expires ?l \<le> now" "\<not> exhausted q ?l" by fastforce
    then show ?thesis
    proof cases
      case 1: 1
      have "take_expired now lease_ms limit (i + 1) q js ds = (q', js', ds')"
        using "1.prems"(1) go 1 by (subst (asm) take_expired.simps) (auto simp: Let_def)
      from "1.IH"(1) [OF go refl 1 this] "1.prems"(2) i obtain R D K
        where s: "scan_spec now lease_ms limit (i + 1) q js q' js' R D K" "ds' = ds @ map job_of D" by auto
      then have "scan_spec now lease_ms limit i q js q' js' R D (K + {#?l#})"
        using 1 here upto by (auto simp: scan_spec_def)
      with s(2) show ?thesis by blast
    next
      case 2
      let ?q = "fl_remove (bury q (l_index ?l)) i"
      have room: "length ds < BJM_INFLIGHT_MAX" using "1.prems"(2) i by simp
      note parts = fl_remove_parts [of i "bury q (l_index ?l)"]
      have "take_expired now lease_ms limit i ?q js (ds @ [job_of ?l]) = (q', js', ds')"
        using "1.prems"(1) go 2 room
        by (subst (asm) take_expired.simps) (auto simp: Let_def job_of_def not_less [symmetric])
      moreover have "length (q_fl ?q) = length (q_fl q) - 1" using parts(3) i by simp
      then have "length (ds @ [job_of ?l]) + length (q_fl ?q) \<le> BJM_INFLIGHT_MAX + i"
        and "i \<le> length (q_fl ?q)" using "1.prems"(2) i by auto
      ultimately have "\<exists>R D K. scan_spec now lease_ms limit i ?q js q' js' R D K \<and>
          ds' = (ds @ [job_of ?l]) @ map job_of D"
        using "1.IH"(2) [OF go refl _ 2(2)] 2(1) room
        by (simp add: job_of_def not_less [symmetric])
      then obtain R D K where s: "scan_spec now lease_ms limit i ?q js q' js' R D K"
          "ds' = (ds @ [job_of ?l]) @ map job_of D" by blast
      have fr: "exhausted ?q l = exhausted q l" for l by (simp add: exhausted_def)
      have "scan_spec now lease_ms limit i q js q' js' R (?l # D) K"
        using s(1) 2 parts(1,2) i here unfolding scan_spec_def fr
        by (auto simp: queue_frame_def)
      with s(2) show ?thesis by (intro exI [of _ R] exI [of _ "?l # D"] exI [of _ K]) simp
    next
      case 3
      let ?q = "q\<lparr>q_fl := (q_fl q)[i := renew (now + lease_ms) ?l]\<rparr>"
      let ?js = "js @ [(l_index ?l, l_attempts ?l + 1)]"
      have "take_expired now lease_ms limit (i + 1) ?q ?js ds = (q', js', ds')"
        using "1.prems"(1) go 3
        by (subst (asm) take_expired.simps) (auto simp: Let_def not_less [symmetric])
      then obtain R D K where s: "scan_spec now lease_ms limit (i + 1) ?q ?js q' js' R D K"
          "ds' = ds @ map job_of D"
        using "1.IH"(3) [OF go refl _ 3(2)] 3(1) "1.prems"(2) i
        by (auto simp: not_less [symmetric])
      have fr: "exhausted ?q l = exhausted q l" for l by (simp add: exhausted_def)
      have "mset (take (i + 1) (q_fl ?q)) = mset (take i (q_fl q)) + {#renew (now + lease_ms) ?l#}"
        using i by (simp add: take_Suc_conv_app_nth)
      then have "scan_spec now lease_ms limit i q js q' js' (?l # R) D K"
        using s(1) 3 here go unfolding scan_spec_def fr
        by (auto simp: queue_frame_def)
      with s(2) show ?thesis by blast
    qed
  qed
qed

text \<open>Consecutive indexes.\<close>

fun index_run :: "u64 \<Rightarrow> nat \<Rightarrow> u64 list" where
  "index_run a 0 = []"
| "index_run a (Suc k) = a # index_run (a + 1) k"

lemma length_index_run [simp]: "length (index_run a k) = k"
  by (induction k arbitrary: a) auto

lemma index_run_set:
  "unat a + k < 2 ^ 64 \<Longrightarrow> x \<in> set (index_run a k) \<longleftrightarrow> unat a \<le> unat x \<and> unat x < unat a + k"
proof (induction k arbitrary: a)
  case 0
  then show ?case by simp
next
  case (Suc k)
  then have "unat (a + 1) = unat a + 1" by (intro unat_Suc_u64) simp
  with Suc show ?case by (auto simp: le_Suc_eq Suc_le_eq) (metis le_neq_implies_less word_eq_iff_unsigned)
qed

lemma index_run_distinct: "unat a + k < 2 ^ 64 \<Longrightarrow> distinct (index_run a k)"
proof (induction k arbitrary: a)
  case 0
  then show ?case by simp
next
  case (Suc k)
  then have a: "unat (a + 1) = unat a + 1" by (intro unat_Suc_u64) simp
  with Suc index_run_set [of "a + 1" k a] show ?case by simp
qed

definition new_lease :: "u64 \<Rightarrow> u64 \<Rightarrow> lease" where
  "new_lease expires i = \<lparr>l_index = i, l_expires = expires, l_attempts = 1\<rparr>"

definition fresh_spec ::
    "u64 \<Rightarrow> u64 \<Rightarrow> nat \<Rightarrow> u64 \<Rightarrow> qrec \<Rightarrow> job list \<Rightarrow> qrec \<Rightarrow> job list \<Rightarrow> nat \<Rightarrow> bool" where
  "fresh_spec now lease_ms limit last_ix q js q' js' k \<longleftrightarrow>
     js' = js @ map (\<lambda>i. (i, 1)) (index_run (q_next q) k) \<and>
     q_fl q' = q_fl q @ (if lease_ms > 0 then map (new_lease (now + lease_ms)) (index_run (q_next q) k) else []) \<and>
     unat (q_next q') = unat (q_next q) + k \<and>
     (k > 0 \<longrightarrow> unat (q_next q') \<le> unat last_ix + 1) \<and>
     length js' \<le> max limit (length js) \<and>
     (lease_ms > 0 \<longrightarrow> length (q_fl q') \<le> max BJM_INFLIGHT_MAX (length (q_fl q))) \<and>
     (limit \<le> length js' \<or> last_ix < q_next q' \<or> lease_ms > 0 \<and> BJM_INFLIGHT_MAX \<le> length (q_fl q')) \<and>
     queue_frame q q' \<and> q_dead_total q' = q_dead_total q \<and> q_dead q' = q_dead q"

lemma take_new_spec:
  assumes "take_new now lease_ms limit last_ix q js = (q', js')" and "last_ix \<noteq> UINT64_MAX"
  shows "\<exists>k. fresh_spec now lease_ms limit last_ix q js q' js' k"
  using assms
proof (induction now lease_ms limit last_ix q js rule: take_new.induct)
  case (1 now lease_ms limit last_ix q js)
  show ?case
  proof (cases "length js < limit \<and> q_next q \<le> last_ix \<and> \<not> (lease_ms > 0 \<and> length (q_fl q) \<ge> BJM_INFLIGHT_MAX)")
    case False
    then have "(q', js') = (q, js)"
      using "1.prems"(1) by (subst (asm) take_new.simps) (auto split: if_splits)
    with False have "fresh_spec now lease_ms limit last_ix q js q' js' 0"
      by (auto simp: fresh_spec_def not_less not_le)
    then show ?thesis by blast
  next
    case True
    let ?q = "q\<lparr>q_fl := (if lease_ms > 0
                    then q_fl q @ [\<lparr>l_index = q_next q, l_expires = now + lease_ms, l_attempts = 1\<rparr>]
                    else q_fl q), q_next := q_next q + 1\<rparr>"
    have go: "length js < limit \<and> q_next q \<le> last_ix"
      and room: "\<not> (lease_ms > 0 \<and> length (q_fl q) \<ge> BJM_INFLIGHT_MAX)" using True by auto
    have "take_new now lease_ms limit last_ix ?q (js @ [(q_next q, 1)]) = (q', js')"
      using "1.prems"(1) True by (subst (asm) take_new.simps) (simp add: Let_def)
    from "1.IH" [OF go room refl this "1.prems"(2)] obtain k
      where k: "fresh_spec now lease_ms limit last_ix ?q (js @ [(q_next q, 1)]) q' js' k" by blast
    have "unat UINT64_MAX = 2 ^ 64 - 1" by (simp add: UINT64_MAX_def)
    then have "unat last_ix \<noteq> 2 ^ 64 - 1"
      using \<open>last_ix \<noteq> UINT64_MAX\<close> word_eq_iff_unsigned by metis
    then have "unat (q_next q) < 2 ^ 64 - 1"
      using unat_u64_lt [of last_ix] go by (simp add: word_le_nat_alt)
    then have nx: "unat (q_next q + 1) = unat (q_next q) + 1" by (intro unat_Suc_u64) simp
    have "fresh_spec now lease_ms limit last_ix q js q' js' (Suc k)"
      using k nx go room unfolding fresh_spec_def
      by (cases k) (auto simp: queue_frame_def new_lease_def word_le_nat_alt)
    then show ?thesis by blast
  qed
qed

text \<open>One whole take.\<close>

definition take_spec ::
    "u64 \<Rightarrow> u64 \<Rightarrow> nat \<Rightarrow> u64 \<Rightarrow> qrec \<Rightarrow> qrec \<Rightarrow> job list \<Rightarrow> job list \<Rightarrow> lease list \<Rightarrow> lease list \<Rightarrow>
     lease multiset \<Rightarrow> u64 list \<Rightarrow> bool" where
  "take_spec now lease_ms limit last_ix q q' js ds R D K N \<longleftrightarrow>
     mset (q_fl q) = mset R + mset D + K \<and>
     mset (q_fl q') = mset (map (renew (now + lease_ms)) R) + K +
       (if lease_ms > 0 then mset (map (new_lease (now + lease_ms)) N) else {#}) \<and>
     js = map (\<lambda>l. (l_index l, l_attempts l + 1)) R @ map (\<lambda>i. (i, 1)) N \<and>
     ds = map job_of D \<and>
     (\<forall>l \<in> set R. l_expires l \<le> now \<and> \<not> exhausted q l) \<and>
     (\<forall>l \<in> set D. l_expires l \<le> now \<and> exhausted q l) \<and>
     (N \<noteq> [] \<or> length js < limit \<longrightarrow> (\<forall>l. l \<in># K \<longrightarrow> now < l_expires l)) \<and>
     N = index_run (q_next q) (length N) \<and> unat (q_next q') = unat (q_next q) + length N \<and>
     (N \<noteq> [] \<longrightarrow> unat (q_next q') \<le> unat last_ix + 1) \<and>
     length js \<le> limit \<and> length (q_fl q') \<le> BJM_INFLIGHT_MAX \<and>
     (limit \<le> length js \<or> last_ix < q_next q' \<or> lease_ms > 0 \<and> length (q_fl q') = BJM_INFLIGHT_MAX) \<and>
     queue_frame q q' \<and> q_dead_total q' = q_dead_total q + word_of_nat (length D) \<and>
     (length (q_dead q) \<le> BJM_DEAD_MAX \<longrightarrow> length (q_dead q') \<le> BJM_DEAD_MAX)"

lemma take_jobs_spec:
  assumes take: "take_jobs now lease_ms limit last_ix q = (q', js, ds)"
    and len: "length (q_fl q) \<le> BJM_INFLIGHT_MAX" and last_ix: "last_ix \<noteq> UINT64_MAX"
  obtains R D K N where "take_spec now lease_ms limit last_ix q q' js ds R D K N"
proof -
  obtain q1 js1 ds1 where e: "take_expired now lease_ms limit 0 q [] [] = (q1, js1, ds1)"
    by (cases "take_expired now lease_ms limit 0 q [] []")
  then have n: "take_new now lease_ms limit last_ix q1 js1 = (q', js)" and ds: "ds = ds1"
    using take by (auto simp: take_jobs_def split: prod.splits)
  obtain R D K where s: "scan_spec now lease_ms limit 0 q [] q1 js1 R D K" "ds1 = map job_of D"
    using take_expired_spec [OF e] len by auto
  obtain k where f: "fresh_spec now lease_ms limit last_ix q1 js1 q' js k"
    using take_new_spec [OF n last_ix] by blast
  let ?N = "index_run (q_next q) k"
  note sp = s(1) [unfolded scan_spec_def, simplified]
  have nx: "q_next q1 = q_next q" using sp by blast
  note fp = f [unfolded fresh_spec_def nx]
  have "size (mset (q_fl q1)) = length R + size K" "size (mset (q_fl q)) = length R + length D + size K"
    using sp by simp_all
  then have len1: "length (q_fl q1) \<le> BJM_INFLIGHT_MAX" using len by simp
  have stop: "k > 0 \<Longrightarrow> length js1 < limit"
    using take_new.simps [of now lease_ms limit last_ix q1 js1] n fp by (auto split: if_splits)
  have "take_spec now lease_ms limit last_ix q q' js ds R D K ?N"
    unfolding take_spec_def
  proof (intro conjI)
    show "mset (q_fl q) = mset R + mset D + K" using sp by blast
    show "mset (q_fl q') = mset (map (renew (now + lease_ms)) R) + K +
       (if lease_ms > 0 then mset (map (new_lease (now + lease_ms)) ?N) else {#})"
      using sp fp by simp
    show "js = map (\<lambda>l. (l_index l, l_attempts l + 1)) R @ map (\<lambda>i. (i, 1)) ?N"
      using sp fp by simp
    show "ds = map job_of D" using s(2) ds by simp
    show "\<forall>l \<in> set R. l_expires l \<le> now \<and> \<not> exhausted q l"
      and "\<forall>l \<in> set D. l_expires l \<le> now \<and> exhausted q l" using sp by blast+
    show "?N \<noteq> [] \<or> length js < limit \<longrightarrow> (\<forall>l. l \<in># K \<longrightarrow> now < l_expires l)"
      using sp fp stop by (cases k) auto
    show "?N = index_run (q_next q) (length ?N)" by simp
    show "unat (q_next q') = unat (q_next q) + length ?N" using fp by simp
    show "?N \<noteq> [] \<longrightarrow> unat (q_next q') \<le> unat last_ix + 1" using fp by (cases k) auto
    show "length js \<le> limit" using sp fp by auto
    show "length (q_fl q') \<le> BJM_INFLIGHT_MAX" using fp len1 by (cases "lease_ms > 0") auto
    then show "limit \<le> length js \<or> last_ix < q_next q' \<or> lease_ms > 0 \<and> length (q_fl q') = BJM_INFLIGHT_MAX"
      using fp by auto
    show "queue_frame q q'" using sp fp unfolding queue_frame_def by simp
    show "q_dead_total q' = q_dead_total q + word_of_nat (length D)" using sp fp by simp
    show "length (q_dead q) \<le> BJM_DEAD_MAX \<longrightarrow> length (q_dead q') \<le> BJM_DEAD_MAX" using sp fp by simp
  qed
  with that show thesis .
qed

section \<open>The invariant of a group\<close>

definition queue_inv :: "qrec \<Rightarrow> bool" where
  "queue_inv q \<longleftrightarrow>
     length (q_fl q) \<le> BJM_INFLIGHT_MAX \<and> length (q_dead q) \<le> BJM_DEAD_MAX \<and>
     distinct (map l_index (q_fl q)) \<and> (\<forall>l \<in> set (q_fl q). l_index l < q_next q)"

lemma take_spec_indexes:
  assumes "take_spec now lease_ms limit last_ix q q' js ds R D K N"
  shows "image_mset l_index (mset (q_fl q)) = mset (map l_index R) + mset (map l_index D) + image_mset l_index K"
    and "image_mset l_index (mset (q_fl q')) = mset (map l_index R) + image_mset l_index K +
           (if lease_ms > 0 then mset N else {#})"
proof -
  have idx: "l_index (renew x l) = l_index l" "l_index (new_lease x i) = i" for x l i
    by (simp_all add: renew_def new_lease_def)
  show "image_mset l_index (mset (q_fl q)) = mset (map l_index R) + mset (map l_index D) + image_mset l_index K"
    using assms unfolding take_spec_def by simp
  have "mset (q_fl q') = mset (map (renew (now + lease_ms)) R) + K +
       (if lease_ms > 0 then mset (map (new_lease (now + lease_ms)) N) else {#})"
    using assms unfolding take_spec_def by blast
  then show "image_mset l_index (mset (q_fl q')) = mset (map l_index R) + image_mset l_index K +
           (if lease_ms > 0 then mset N else {#})"
    by (simp add: image_mset.compositionality o_def idx)
qed

lemma take_spec_run:
  assumes "take_spec now lease_ms limit last_ix q q' js ds R D K N"
  shows "x \<in> set N \<longleftrightarrow> q_next q \<le> x \<and> x < q_next q'" and "distinct N" and "q_next q \<le> q_next q'"
proof -
  have N: "N = index_run (q_next q) (length N)" and nx: "unat (q_next q') = unat (q_next q) + length N"
    using assms unfolding take_spec_def by blast+
  then have lt: "unat (q_next q) + length N < 2 ^ 64" using unat_u64_lt [of "q_next q'"] by simp
  show "x \<in> set N \<longleftrightarrow> q_next q \<le> x \<and> x < q_next q'"
    using index_run_set [OF lt, of x] nx N by (simp add: word_le_nat_alt word_less_nat_alt)
  show "distinct N" using index_run_distinct [OF lt] N by simp
  show "q_next q \<le> q_next q'" using nx by (simp add: word_le_nat_alt)
qed

text \<open>
  The indexes of the table and of the jobs of one take. \<open>take_facts\<close> is what the properties
  below rest on.
\<close>

lemma take_facts:
  assumes inv: "queue_inv q" and take: "take_jobs now lease_ms limit last_ix q = (q', js, ds)"
    and last_ix: "last_ix \<noteq> UINT64_MAX"
  obtains R D K N where "take_spec now lease_ms limit last_ix q q' js ds R D K N"
    and "set (q_fl q) = set R \<union> set D \<union> set_mset K"
    and "set (q_fl q') = renew (now + lease_ms) ` set R \<union> set_mset K \<union>
           (if lease_ms > 0 then new_lease (now + lease_ms) ` set N else {})"
    and "distinct (map l_index R @ map l_index D)"
    and "l_index ` set R \<inter> l_index ` set_mset K = {}" and "l_index ` set D \<inter> l_index ` set_mset K = {}"
    and "\<forall>l \<in> set R \<union> set D \<union> set_mset K. l_index l < q_next q"
proof -
  have len: "length (q_fl q) \<le> BJM_INFLIGHT_MAX" using inv by (simp add: queue_inv_def)
  obtain R D K N where s: "take_spec now lease_ms limit last_ix q q' js ds R D K N"
    using take_jobs_spec [OF take len last_ix] .
  have m: "mset (q_fl q) = mset R + mset D + K"
    and m': "mset (q_fl q') = mset (map (renew (now + lease_ms)) R) + K +
       (if lease_ms > 0 then mset (map (new_lease (now + lease_ms)) N) else {#})"
    using s unfolding take_spec_def by blast+
  have set_q: "set (q_fl q) = set R \<union> set D \<union> set_mset K"
    by (metis m set_mset_mset set_mset_union)
  have "set_mset (mset (q_fl q')) = renew (now + lease_ms) ` set R \<union> set_mset K \<union>
           (if lease_ms > 0 then new_lease (now + lease_ms) ` set N else {})"
    unfolding m' by auto
  then have set_q': "set (q_fl q') = renew (now + lease_ms) ` set R \<union> set_mset K \<union>
           (if lease_ms > 0 then new_lease (now + lease_ms) ` set N else {})" by simp
  obtain Ks where Ks: "mset Ks = K" using ex_mset by blast
  have "mset (map l_index (q_fl q)) = mset (map l_index (R @ D @ Ks))"
    using m Ks by simp
  moreover have "distinct (map l_index (q_fl q))" using inv by (simp add: queue_inv_def)
  ultimately have d: "distinct (map l_index (R @ D @ Ks))" by (metis mset_eq_imp_distinct_iff)
  have K: "set_mset K = set Ks" using Ks by auto
  have "\<forall>l \<in> set R \<union> set D \<union> set_mset K. l_index l < q_next q"
    using inv set_q by (simp add: queue_inv_def)
  with s set_q set_q' d show thesis
    by (intro that [of R D K N]) (auto simp: K)
qed

lemma take_inv:
  assumes inv: "queue_inv q" and take: "take_jobs now lease_ms limit last_ix q = (q', js, ds)"
    and last_ix: "last_ix \<noteq> UINT64_MAX"
  shows "queue_inv q'" and "q_next q \<le> q_next q'"
proof -
  obtain R D K N where s: "take_spec now lease_ms limit last_ix q q' js ds R D K N"
    and q': "set (q_fl q') = renew (now + lease_ms) ` set R \<union> set_mset K \<union>
           (if lease_ms > 0 then new_lease (now + lease_ms) ` set N else {})"
    and old: "\<forall>l \<in> set R \<union> set D \<union> set_mset K. l_index l < q_next q"
    using take_facts [OF assms] by metis
  note run = take_spec_run [OF s]
  show "q_next q \<le> q_next q'" by (rule run(3))
  have idx: "l_index (renew x l) = l_index l" "l_index (new_lease x i) = i" for x l i
    by (simp_all add: renew_def new_lease_def)
  have below: "\<forall>l \<in> set (q_fl q'). l_index l < q_next q'"
    using q' old run(1) less_le_trans [OF _ run(3)] by (auto simp: idx split: if_splits)
  obtain Ks where Ks: "mset Ks = K" using ex_mset by blast
  then have sKs: "set Ks = set_mset K" by auto
  have "mset (map l_index (q_fl q)) = mset (map l_index (R @ D @ Ks))"
    using take_spec_indexes(1) [OF s] Ks by simp
  moreover have "distinct (map l_index (q_fl q))" using inv by (simp add: queue_inv_def)
  ultimately have "distinct (map l_index (R @ D @ Ks))" by (metis mset_eq_imp_distinct_iff)
  moreover have "l_index l \<notin> set N" if "l \<in> set R \<union> set Ks" for l
    using that old run(1) sKs by (auto simp: not_le)
  ultimately have "distinct (map l_index (R @ Ks) @ (if lease_ms > 0 then N else []))"
    using run(2) by auto
  moreover have "mset (map l_index (q_fl q')) = mset (map l_index (R @ Ks) @ (if lease_ms > 0 then N else []))"
    using take_spec_indexes(2) [OF s] Ks by simp
  ultimately have "distinct (map l_index (q_fl q'))" by (metis mset_eq_imp_distinct_iff)
  with s inv below show "queue_inv q'" unfolding queue_inv_def take_spec_def by blast
qed

text \<open>
  Whose jobs are handed out: expired leases with attempts left, one attempt higher, and messages
  the group had not reached, at their first attempt.
\<close>

lemma take_jobs_origin:
  assumes inv: "queue_inv q" and take: "take_jobs now lease_ms limit last_ix q = (q', js, ds)"
    and last_ix: "last_ix \<noteq> UINT64_MAX" and job: "(i, a) \<in> set js"
  shows "(\<exists>l \<in> set (q_fl q). l_index l = i \<and> l_expires l \<le> now \<and> \<not> exhausted q l \<and> a = l_attempts l + 1) \<or>
         q_next q \<le> i \<and> i < q_next q' \<and> i \<le> last_ix \<and> a = 1"
proof -
  obtain R D K N where s: "take_spec now lease_ms limit last_ix q q' js ds R D K N"
    and q: "set (q_fl q) = set R \<union> set D \<union> set_mset K"
    using take_facts [OF inv take last_ix] by metis
  note run = take_spec_run [OF s]
  have js: "js = map (\<lambda>l. (l_index l, l_attempts l + 1)) R @ map (\<lambda>i. (i, 1)) N"
    and R: "\<forall>l \<in> set R. l_expires l \<le> now \<and> \<not> exhausted q l"
    and N: "N \<noteq> [] \<longrightarrow> unat (q_next q') \<le> unat last_ix + 1"
    using s unfolding take_spec_def by blast+
  from job js consider l where "l \<in> set R" "i = l_index l" "a = l_attempts l + 1" | "i \<in> set N" "a = 1"
    by auto
  then show ?thesis
  proof cases
    case 1
    with R q show ?thesis by auto
  next
    case 2
    then have "unat (q_next q') \<le> unat last_ix + 1" using N by auto
    with 2 run(1) show ?thesis by (auto simp: word_le_nat_alt word_less_nat_alt)
  qed
qed

lemma take_jobs_distinct:
  assumes "queue_inv q" and "take_jobs now lease_ms limit last_ix q = (q', js, ds)"
    and "last_ix \<noteq> UINT64_MAX"
  shows "distinct (map fst js)" and "distinct (map fst js @ map fst ds)"
proof -
  obtain R D K N where s: "take_spec now lease_ms limit last_ix q q' js ds R D K N"
    and d: "distinct (map l_index R @ map l_index D)"
    and old: "\<forall>l \<in> set R \<union> set D \<union> set_mset K. l_index l < q_next q"
    using take_facts [OF assms] by metis
  have js: "map fst js = map l_index R @ N" "map fst ds = map l_index D"
    using s unfolding take_spec_def job_of_def by (simp_all add: o_def)
  have "l_index l \<notin> set N" if "l \<in> set R \<union> set D" for l
    using that old take_spec_run(1) [OF s] by (auto simp: not_le)
  then show "distinct (map fst js)" "distinct (map fst js @ map fst ds)"
    using d js take_spec_run(2) [OF s] by auto
qed

text \<open>Every index the group tracked or passed over is tracked, buried, or out at most once.\<close>

lemma union3_disjoint:
  "A \<inter> X = {} \<Longrightarrow> C \<inter> X = {} \<Longrightarrow> X \<inter> B = {} \<Longrightarrow> (A \<union> B \<union> (if c then C else {})) \<inter> X = {}"
  by (cases c) auto

lemma union3_split:
  "A \<union> B \<union> K \<union> N = A \<union> K \<union> (if c then N else {}) \<union> B \<union> (if c then {} else N)"
  by (cases c) auto

lemma take_jobs_sets:
  assumes "queue_inv q" and "take_jobs now lease_ms limit last_ix q = (q', js, ds)"
    and "last_ix \<noteq> UINT64_MAX"
  obtains R D K N where "take_spec now lease_ms limit last_ix q q' js ds R D K N"
    and "l_index ` set (q_fl q) = l_index ` set R \<union> l_index ` set D \<union> l_index ` set_mset K"
    and "l_index ` set (q_fl q') =
      l_index ` set R \<union> l_index ` set_mset K \<union> (if lease_ms > 0 then set N else {})"
    and "fst ` set ds = l_index ` set D" and "set N = {i. q_next q \<le> i \<and> i < q_next q'}"
    and "l_index ` set R \<inter> l_index ` set D = {}" and "set N \<inter> l_index ` set D = {}"
    and "l_index ` set D \<inter> l_index ` set_mset K = {}"
proof -
  obtain R D K N where s: "take_spec now lease_ms limit last_ix q q' js ds R D K N"
    and q: "set (q_fl q) = set R \<union> set D \<union> set_mset K"
    and q': "set (q_fl q') = renew (now + lease_ms) ` set R \<union> set_mset K \<union>
           (if lease_ms > 0 then new_lease (now + lease_ms) ` set N else {})"
    and d: "distinct (map l_index R @ map l_index D)"
    and DK: "l_index ` set D \<inter> l_index ` set_mset K = {}"
    and old: "\<forall>l \<in> set R \<union> set D \<union> set_mset K. l_index l < q_next q"
    using take_facts [OF assms] by metis
  note run = take_spec_run [OF s]
  have ds: "ds = map job_of D" using s unfolding take_spec_def by blast
  have 1: "l_index ` set (q_fl q) = l_index ` set R \<union> l_index ` set D \<union> l_index ` set_mset K"
    unfolding q image_Un ..
  have 2: "l_index ` set (q_fl q') =
      l_index ` set R \<union> l_index ` set_mset K \<union> (if lease_ms > 0 then set N else {})"
    unfolding q' by (simp add: image_Un image_image renew_def new_lease_def)
  have 3: "fst ` set ds = l_index ` set D" using ds by (simp add: job_of_def image_image)
  have 4: "set N = {i. q_next q \<le> i \<and> i < q_next q'}" using run(1) by blast
  have 5: "l_index ` set R \<inter> l_index ` set D = {}" using d by simp
  have "l_index l \<notin> set N" if "l \<in> set D" for l
  proof -
    have "l_index l < q_next q" using old that by blast
    then show ?thesis unfolding run(1) by (metis leD)
  qed
  then have 6: "set N \<inter> l_index ` set D = {}" by blast
  from that [OF s 1 2 3 4 5 6 DK] show thesis .
qed

lemma take_jobs_conserve:
  assumes "queue_inv q" and "take_jobs now lease_ms limit last_ix q = (q', js, ds)"
    and "last_ix \<noteq> UINT64_MAX"
  shows "l_index ` set (q_fl q) \<union> {i. q_next q \<le> i \<and> i < q_next q'} =
         l_index ` set (q_fl q') \<union> fst ` set ds \<union> (if lease_ms > 0 then {} else {i. q_next q \<le> i \<and> i < q_next q'})"
    and "l_index ` set (q_fl q') \<inter> fst ` set ds = {}"
proof -
  obtain R D K N where "take_spec now lease_ms limit last_ix q q' js ds R D K N"
    and s: "l_index ` set (q_fl q) = l_index ` set R \<union> l_index ` set D \<union> l_index ` set_mset K"
    "l_index ` set (q_fl q') =
      l_index ` set R \<union> l_index ` set_mset K \<union> (if lease_ms > 0 then set N else {})"
    "fst ` set ds = l_index ` set D" "set N = {i. q_next q \<le> i \<and> i < q_next q'}"
    and dis: "l_index ` set R \<inter> l_index ` set D = {}" "set N \<inter> l_index ` set D = {}"
    "l_index ` set D \<inter> l_index ` set_mset K = {}"
    using take_jobs_sets [OF assms] .
  show "l_index ` set (q_fl q') \<inter> fst ` set ds = {}"
    unfolding s(1-3) using dis by (rule union3_disjoint)
  show "l_index ` set (q_fl q) \<union> {i. q_next q \<le> i \<and> i < q_next q'} =
         l_index ` set (q_fl q') \<union> fst ` set ds \<union> (if lease_ms > 0 then {} else {i. q_next q \<le> i \<and> i < q_next q'})"
    unfolding s(1-3) s(4) [symmetric] by (rule union3_split)
qed

text \<open>A job that was handed out is under a lease until \<open>now + lease_ms\<close>.\<close>

lemma take_jobs_leased:
  assumes inv: "queue_inv q" and take: "take_jobs now lease_ms limit last_ix q = (q', js, ds)"
    and last_ix: "last_ix \<noteq> UINT64_MAX" and job: "(i, a) \<in> set js" and c: "lease_ms > 0 \<or> i < q_next q"
  shows "\<exists>l \<in> set (q_fl q'). l_index l = i \<and> l_expires l = now + lease_ms \<and> l_attempts l = a"
proof -
  obtain R D K N where s: "take_spec now lease_ms limit last_ix q q' js ds R D K N"
    and q': "set (q_fl q') = renew (now + lease_ms) ` set R \<union> set_mset K \<union>
           (if lease_ms > 0 then new_lease (now + lease_ms) ` set N else {})"
    using take_facts [OF inv take last_ix] by metis
  note run = take_spec_run [OF s]
  have js: "js = map (\<lambda>l. (l_index l, l_attempts l + 1)) R @ map (\<lambda>i. (i, 1)) N"
    using s unfolding take_spec_def by blast
  from job js consider l where "l \<in> set R" "i = l_index l" "a = l_attempts l + 1" | "i \<in> set N" "a = 1"
    by auto
  then show ?thesis
  proof cases
    case 1
    then have "renew (now + lease_ms) l \<in> set (q_fl q')" unfolding q' by simp
    then show ?thesis using 1 by (rule_tac bexI) (simp_all add: renew_def)
  next
    case 2
    then have "lease_ms > 0" using c run(1) [of i] by (metis leD)
    then have "new_lease (now + lease_ms) i \<in> set (q_fl q')" unfolding q' using 2 by simp
    then show ?thesis using 2 by (rule_tac bexI) (simp_all add: new_lease_def)
  qed
qed

text \<open>A take that reaches new messages, or comes back short, leaves no expired lease behind.\<close>

lemma take_jobs_expired_first:
  assumes inv: "queue_inv q" and take: "take_jobs now lease_ms limit last_ix q = (q', js, ds)"
    and last_ix: "last_ix \<noteq> UINT64_MAX"
    and c: "q_next q' \<noteq> q_next q \<or> length js < limit" and l: "l \<in> set (q_fl q)" "l_expires l \<le> now"
  shows "(l_index l, l_attempts l + 1) \<in> set js \<or> exhausted q l \<and> (l_index l, l_attempts l) \<in> set ds"
proof -
  obtain R D K N where s: "take_spec now lease_ms limit last_ix q q' js ds R D K N"
    and q: "set (q_fl q) = set R \<union> set D \<union> set_mset K"
    using take_facts [OF inv take last_ix] by metis
  have "N \<noteq> [] \<or> length js < limit" using c s unfolding take_spec_def
    by (metis add.right_neutral list.size(3) word_eq_iff_unsigned)
  then have "\<forall>l. l \<in># K \<longrightarrow> now < l_expires l" using s unfolding take_spec_def by blast
  then have "l \<in> set R \<union> set D" using l q by force
  with s show ?thesis unfolding take_spec_def job_of_def by force
qed

section \<open>A group over time\<close>

text \<open>
  The operations workers drive on one group, with the clock and the log's end each reads, and the
  trace of jobs they hand out.
\<close>

datatype queue_op =
    Take u64 u64 int u64         \<comment> \<open>now, lease, max, last index\<close>
  | Release u64 u64 bool u64     \<comment> \<open>now, index, drop, delay\<close>
  | Configure u64 u64 u64 u64    \<comment> \<open>lease, attempts, backoff, its cap\<close>

fun queue_step :: "qrec \<Rightarrow> queue_op \<Rightarrow> qrec \<times> job list" where
  "queue_step q (Take now lease_ms n last_ix) =
     (case lease_for q lease_ms of
        (q, lease_ms) \<Rightarrow>
          (case take_jobs now lease_ms (take_limit n) last_ix q of (q', js, ds) \<Rightarrow> (q', js)))"
| "queue_step q (Release now index drop_it delay_ms) =
     (case release_job now q index drop_it delay_ms of None \<Rightarrow> (q, []) | Some (q', _) \<Rightarrow> (q', []))"
| "queue_step q (Configure lease_ms attempts backoff cap) =
     (q\<lparr>q_lease_ms := lease_ms, q_max_attempts := attempts, q_backoff_ms := backoff,
        q_max_backoff_ms := cap\<rparr>, [])"

definition queue_run :: "qrec \<Rightarrow> queue_op list \<Rightarrow> qrec" where
  "queue_run q ops = fold (\<lambda>op q. fst (queue_step q op)) ops q"

text \<open>No log ends at the largest 64-bit index.\<close>

fun op_fits :: "queue_op \<Rightarrow> bool" where
  "op_fits (Take now lease_ms n last_ix) \<longleftrightarrow> last_ix \<noteq> UINT64_MAX"
| "op_fits _ \<longleftrightarrow> True"

lemma lease_for_fields:
  assumes "lease_for q l = (q', l')"
  shows "q_fl q' = q_fl q" "q_next q' = q_next q" "q_dead q' = q_dead q" "q_dead_total q' = q_dead_total q"
    "q_max_attempts q' = q_max_attempts q" "queue_inv q' = queue_inv q" "l' = (if l = UINT64_MAX then q_lease_ms q else l)"
  using assms by (auto simp: lease_for_def queue_inv_def split: if_splits)

lemma fl_remove_indexes:
  assumes "distinct (map l_index (q_fl q))" and "i < length (q_fl q)"
  shows "distinct (map l_index (q_fl (fl_remove q i)))"
    and "set (q_fl (fl_remove q i)) = set (q_fl q) - {q_fl q ! i}"
    and "l_index ` set (q_fl (fl_remove q i)) = l_index ` set (q_fl q) - {l_index (q_fl q ! i)}"
proof -
  have m: "mset (q_fl (fl_remove q i)) = mset (q_fl q) - {#q_fl q ! i#}"
    by (rule fl_remove_mset [OF assms(2)])
  have "q_fl q ! i \<in># mset (q_fl q)" using assms(2) by simp
  then have "mset (map l_index (q_fl q)) = mset (map l_index (q_fl q ! i # q_fl (fl_remove q i)))"
    and "mset (q_fl q) = mset (q_fl q ! i # q_fl (fl_remove q i))"
    using m by (simp_all add: image_mset_Diff)
  then have d: "distinct (map l_index (q_fl q ! i # q_fl (fl_remove q i)))"
    and sets: "set (q_fl q) = set (q_fl q ! i # q_fl (fl_remove q i))"
    using assms(1) by (metis mset_eq_imp_distinct_iff, metis set_mset_mset)
  from d show "distinct (map l_index (q_fl (fl_remove q i)))" by simp
  from d sets show "set (q_fl (fl_remove q i)) = set (q_fl q) - {q_fl q ! i}"
    and "l_index ` set (q_fl (fl_remove q i)) = l_index ` set (q_fl q) - {l_index (q_fl q ! i)}"
    by auto
qed

lemma release_jobD:
  assumes inv: "queue_inv q" and rel: "release_job now q index drop_it delay_ms = Some (q', d)"
  shows "queue_inv q'" and "q_next q' = q_next q" and "queue_frame q q'"
    and "drop_it \<Longrightarrow> l_index ` set (q_fl q') = l_index ` set (q_fl q) - {index}"
    and "\<not> drop_it \<Longrightarrow> l_index ` set (q_fl q') = l_index ` set (q_fl q)"
    and "l \<in> set (q_fl q') \<Longrightarrow> l_index l \<noteq> index \<Longrightarrow> l \<in> set (q_fl q)"
    and "l \<in> set (q_fl q) \<Longrightarrow> l_index l \<noteq> index \<Longrightarrow> l \<in> set (q_fl q')"
    and "index \<in> l_index ` set (q_fl q)"
proof -
  obtain i where i: "i < length (q_fl q)" "l_index (q_fl q ! i) = index"
    and res: "(drop_it \<and> q' = fl_remove q i) \<or>
      (\<not> drop_it \<and> q' = q\<lparr>q_fl := (q_fl q)[i := (q_fl q ! i)\<lparr>l_expires := now + d\<rparr>]\<rparr>)"
    using rel by (auto simp: release_job_def Let_def dest!: fl_findD(1) split: option.splits if_splits)
  have dis: "distinct (map l_index (q_fl q))" using inv by (simp add: queue_inv_def)
  note rm = fl_remove_indexes [OF dis i(1)] and len = fl_remove_parts(3) [OF i(1)]
  have upd: "map l_index ((q_fl q)[i := (q_fl q ! i)\<lparr>l_expires := x\<rparr>]) = map l_index (q_fl q)" for x
    using i(1) by (simp add: map_update list_update_same_conv)
  have upd_set: "l_index ` set ((q_fl q)[i := (q_fl q ! i)\<lparr>l_expires := x\<rparr>]) = l_index ` set (q_fl q)" for x
    by (metis upd list.set_map)
  have others: "l \<in> set ((q_fl q)[i := y]) \<longleftrightarrow> l \<in> set (q_fl q)" if "l_index y = index" "l_index l \<noteq> index" for l y
  proof -
    have "l \<in> set ((q_fl q)[i := y]) \<longleftrightarrow> l \<in> set (take i (q_fl q)) \<union> set (drop (Suc i) (q_fl q))"
      using \<open>l_index y = index\<close> \<open>l_index l \<noteq> index\<close> unfolding upd_conv_take_nth_drop [OF i(1)] by fastforce
    moreover have "l \<in> set (q_fl q) \<longleftrightarrow> l \<in> set (take i (q_fl q)) \<union> set (drop (Suc i) (q_fl q))"
    proof -
      have "set (q_fl q) = set (take i (q_fl q) @ q_fl q ! i # drop (Suc i) (q_fl q))"
        using id_take_nth_drop [OF i(1)] by simp
      then show ?thesis using that(2) i(2) by auto
    qed
    ultimately show ?thesis by blast
  qed
  show "queue_inv q'"
  proof (cases drop_it)
    case True
    with res rm len inv show ?thesis by (auto simp: queue_inv_def)
  next
    case False
    have "\<forall>j \<in> l_index ` set (q_fl q'). j < q_next q"
      using False res upd_set inv by (auto simp: queue_inv_def)
    with False res upd inv show ?thesis by (auto simp: queue_inv_def)
  qed
  show "q_next q' = q_next q" "queue_frame q q'" using res by (auto simp: queue_frame_def)
  show "drop_it \<Longrightarrow> l_index ` set (q_fl q') = l_index ` set (q_fl q) - {index}"
    using res rm(3) i(2) by auto
  show "\<not> drop_it \<Longrightarrow> l_index ` set (q_fl q') = l_index ` set (q_fl q)"
    using res upd_set by auto
  have "l_index l \<noteq> index \<Longrightarrow> l \<in> set (q_fl q') \<longleftrightarrow> l \<in> set (q_fl q)"
    using res
  proof (elim disjE conjE)
    assume "q' = fl_remove q i" and "l_index l \<noteq> index"
    then show "l \<in> set (q_fl q') \<longleftrightarrow> l \<in> set (q_fl q)"
      using rm(2) i(2) by auto
  next
    assume other: "l_index l \<noteq> index"
    assume q': "q' = q\<lparr>q_fl := (q_fl q)[i := (q_fl q ! i)\<lparr>l_expires := now + d\<rparr>]\<rparr>"
    have "l_index ((q_fl q ! i)\<lparr>l_expires := now + d\<rparr>) = index" using i(2) by simp
    from others [OF this other] q'
    show "l \<in> set (q_fl q') \<longleftrightarrow> l \<in> set (q_fl q)" by simp
  qed
  then show "l \<in> set (q_fl q') \<Longrightarrow> l_index l \<noteq> index \<Longrightarrow> l \<in> set (q_fl q)"
    and "l \<in> set (q_fl q) \<Longrightarrow> l_index l \<noteq> index \<Longrightarrow> l \<in> set (q_fl q')" by blast+
  show "index \<in> l_index ` set (q_fl q)" using i by force
qed

end
