(* ===== verification/Queue_Time.thy ===== *)
theory Queue_Time
  imports Queue_Core
begin

text \<open>
  A queue group over time: the invariant along any run of its operations, that a job is held by at
  most one worker until its lease ends or it is failed, and that a finished job never comes back.
\<close>

section \<open>Steps keep the invariant\<close>

lemma step_inv:
  assumes inv: "queue_inv q" and fits: "op_fits op" and step: "queue_step q op = (q', js)"
  shows "queue_inv q'" and "q_next q \<le> q_next q'"
proof -
  have "queue_inv q' \<and> q_next q \<le> q_next q'"
  proof (cases op)
    case (Take now lease_ms n last_ix)
    obtain q1 l1 where lf: "lease_for q lease_ms = (q1, l1)" by (cases "lease_for q lease_ms")
    obtain ds where "take_jobs now l1 (take_limit n) last_ix q1 = (q', js, ds)"
      using step Take lf by (auto split: prod.splits)
    then show ?thesis
      using take_inv [of q1] lease_for_fields [OF lf] inv fits Take by auto
  next
    case (Release now index drop_it delay_ms)
    with step inv show ?thesis
      using release_jobD(1,2) [OF inv] by (auto split: option.splits)
  next
    case (Configure l a b c)
    with step inv show ?thesis by (auto simp: queue_inv_def)
  qed
  then show "queue_inv q'" "q_next q \<le> q_next q'" by auto
qed

lemma run_inv:
  "queue_inv q \<Longrightarrow> list_all op_fits ops \<Longrightarrow> queue_inv (queue_run q ops) \<and> q_next q \<le> q_next (queue_run q ops)"
proof (induction ops arbitrary: q)
  case Nil
  then show ?case by (simp add: queue_run_def)
next
  case (Cons op ops)
  obtain q1 js where s: "queue_step q op = (q1, js)" by (cases "queue_step q op")
  have "queue_inv q1" "q_next q \<le> q_next q1"
    using step_inv [OF Cons.prems(1) _ s] Cons.prems(2) by auto
  with Cons.IH [of q1] Cons.prems(2) s order_trans show ?case by (auto simp: queue_run_def)
qed

section \<open>Holding a job\<close>

text \<open>
  A job that is out until \<open>expires\<close>: passed over by the group, and tracked with that expiry or
  not tracked any more.
\<close>

definition held :: "u64 \<Rightarrow> u64 \<Rightarrow> qrec \<Rightarrow> bool" where
  "held expires i q \<longleftrightarrow> i < q_next q \<and> (\<forall>l \<in> set (q_fl q). l_index l = i \<longrightarrow> l_expires l = expires)"

definition gone :: "u64 \<Rightarrow> qrec \<Rightarrow> bool" where
  "gone i q \<longleftrightarrow> i < q_next q \<and> i \<notin> l_index ` set (q_fl q)"

text \<open>Operations that do not take the job away from its holder.\<close>

fun keeps_hold :: "u64 \<Rightarrow> u64 \<Rightarrow> queue_op \<Rightarrow> bool" where
  "keeps_hold expires i (Take now lease_ms n last_ix) \<longleftrightarrow> now < expires"
| "keeps_hold expires i (Release now index drop_it delay_ms) \<longleftrightarrow> index \<noteq> i \<or> drop_it"
| "keeps_hold expires i (Configure l a b c) \<longleftrightarrow> True"

lemma step_held:
  assumes inv: "queue_inv q" and fits: "op_fits op" and step: "queue_step q op = (q', js)"
    and h: "held expires i q" and r: "keeps_hold expires i op"
  shows "held expires i q'" and "i \<notin> fst ` set js"
proof -
  note i' = step_inv [OF inv fits step]
  have "held expires i q' \<and> i \<notin> fst ` set js"
  proof (cases op)
    case (Take now lease_ms n last_ix)
    obtain q1 l1 where lf: "lease_for q lease_ms = (q1, l1)" by (cases "lease_for q lease_ms")
    obtain ds where take: "take_jobs now l1 (take_limit n) last_ix q1 = (q', js, ds)"
      using step Take lf by (auto split: prod.splits)
    note f = lease_for_fields [OF lf]
    have inv1: "queue_inv q1" and last_ix: "last_ix \<noteq> UINT64_MAX" using inv f fits Take by auto
    have now: "now < expires" using r Take by simp
    have i1: "i < q_next q1" and e1: "\<forall>l \<in> set (q_fl q1). l_index l = i \<longrightarrow> l_expires l = expires"
      using h f by (auto simp: held_def)
    obtain R D K N where s: "take_spec now l1 (take_limit n) last_ix q1 q' js ds R D K N"
      and q: "set (q_fl q1) = set R \<union> set D \<union> set_mset K"
      and q': "set (q_fl q') = renew (now + l1) ` set R \<union> set_mset K \<union>
           (if l1 > 0 then new_lease (now + l1) ` set N else {})"
      using take_facts [OF inv1 take last_ix] by metis
    have js: "js = map (\<lambda>l. (l_index l, l_attempts l + 1)) R @ map (\<lambda>i. (i, 1)) N"
      and R: "\<forall>l \<in> set R. l_expires l \<le> now" using s unfolding take_spec_def by blast+
    have noR: "\<forall>l \<in> set R. l_index l \<noteq> i"
      using R e1 q now by force
    have noN: "i \<notin> set N" using take_spec_run(1) [OF s] i1 by (simp add: not_le)
    have "fst ` set js = l_index ` set R \<union> set N" unfolding js by (simp add: image_Un image_image)
    then have "i \<notin> fst ` set js" using noR noN by auto
    moreover have "l_expires l = expires" if l: "l \<in> set (q_fl q')" "l_index l = i" for l
    proof -
      from l q' noR noN have "l \<in> set_mset K"
        by (auto simp: renew_def new_lease_def split: if_splits)
      then show ?thesis using l e1 q by auto
    qed
    moreover have "i < q_next q'" using i1 take_inv(2) [OF inv1 take last_ix] by simp
    ultimately show ?thesis by (simp add: held_def)
  next
    case (Release now index drop_it delay_ms)
    show ?thesis
    proof (cases "release_job now q index drop_it delay_ms")
      case None
      with step Release h show ?thesis by simp
    next
      case (Some qd)
      obtain d where rel: "release_job now q index drop_it delay_ms = Some (q', d)" and "js = []"
        using step Release Some by (cases qd) auto
      note rd = release_jobD [OF inv rel]
      have "l_expires l = expires" if l: "l \<in> set (q_fl q')" "l_index l = i" for l
      proof (cases "index = i")
        case True
        then have drop_it using r Release by simp
        with rd(4) True l have False by (metis DiffE imageI insertI1)
        then show ?thesis ..
      next
        case False
        with rd(6) l h show ?thesis by (auto simp: held_def)
      qed
      with h rd(2) \<open>js = []\<close> show ?thesis by (simp add: held_def)
    qed
  next
    case (Configure l a b c)
    with step h show ?thesis by (auto simp: held_def)
  qed
  then show "held expires i q'" "i \<notin> fst ` set js" by auto
qed

lemma step_gone:
  assumes inv: "queue_inv q" and fits: "op_fits op" and step: "queue_step q op = (q', js)"
    and g: "gone i q"
  shows "gone i q'" and "i \<notin> fst ` set js"
proof -
  have "gone i q' \<and> i \<notin> fst ` set js"
  proof (cases op)
    case (Take now lease_ms n last_ix)
    obtain q1 l1 where lf: "lease_for q lease_ms = (q1, l1)" by (cases "lease_for q lease_ms")
    obtain ds where take: "take_jobs now l1 (take_limit n) last_ix q1 = (q', js, ds)"
      using step Take lf by (auto split: prod.splits)
    note f = lease_for_fields [OF lf]
    have inv1: "queue_inv q1" and last_ix: "last_ix \<noteq> UINT64_MAX" using inv f fits Take by auto
    have g1: "i < q_next q1" "i \<notin> l_index ` set (q_fl q1)" using g f by (auto simp: gone_def)
    have "i \<notin> fst ` set js"
    proof
      assume "i \<in> fst ` set js"
      then obtain a where "(i, a) \<in> set js" by auto
      from take_jobs_origin [OF inv1 take last_ix this] g1 show False by (auto simp: image_iff)
    qed
    moreover have "i \<notin> l_index ` set (q_fl q')"
    proof
      assume "i \<in> l_index ` set (q_fl q')"
      then have "i \<in> l_index ` set (q_fl q1) \<union> {i. q_next q1 \<le> i \<and> i < q_next q'}"
        unfolding take_jobs_conserve(1) [OF inv1 take last_ix] by blast
      with g1 show False by (auto simp: not_le [symmetric])
    qed
    moreover have "i < q_next q'" using g1 take_inv(2) [OF inv1 take last_ix] by simp
    ultimately show ?thesis by (simp add: gone_def)
  next
    case (Release now index drop_it delay_ms)
    show ?thesis
    proof (cases "release_job now q index drop_it delay_ms")
      case None
      with step Release g show ?thesis by simp
    next
      case (Some qd)
      then obtain d where rel: "release_job now q index drop_it delay_ms = Some (q', d)" and js: "js = []"
        using step Release by (cases qd) auto
      have "l_index ` set (q_fl q') \<subseteq> l_index ` set (q_fl q)"
        using release_jobD(4,5) [OF inv rel] by (cases drop_it) auto
      with g js release_jobD(2) [OF inv rel] show ?thesis unfolding gone_def by auto
    qed
  next
    case (Configure l a b c)
    with step g show ?thesis by (auto simp: gone_def)
  qed
  then show "gone i q'" "i \<notin> fst ` set js" by auto
qed

lemma run_gone:
  "queue_inv q \<Longrightarrow> list_all op_fits ops \<Longrightarrow> gone i q \<Longrightarrow> gone i (queue_run q ops)"
proof (induction ops arbitrary: q)
  case Nil
  then show ?case by (simp add: queue_run_def)
next
  case (Cons op ops)
  obtain q1 js where s: "queue_step q op = (q1, js)" by (cases "queue_step q op")
  have "queue_inv q1" "gone i q1"
    using step_inv(1) [OF Cons.prems(1) _ s] step_gone(1) [OF Cons.prems(1) _ s] Cons.prems(2,3) by auto
  with Cons.IH [of q1] Cons.prems(2) s show ?case by (simp add: queue_run_def)
qed

lemma run_held:
  "queue_inv q \<Longrightarrow> list_all op_fits ops \<Longrightarrow> list_all (keeps_hold e i) ops \<Longrightarrow> held e i q \<Longrightarrow>
     held e i (queue_run q ops)"
proof (induction ops arbitrary: q)
  case Nil
  then show ?case by (simp add: queue_run_def)
next
  case (Cons op ops)
  obtain q1 js where s: "queue_step q op = (q1, js)" by (cases "queue_step q op")
  have "queue_inv q1" "held e i q1"
    using step_inv(1) [OF Cons.prems(1) _ s] step_held(1) [OF Cons.prems(1) _ s] Cons.prems(2-4) by auto
  with Cons.IH [of q1] Cons.prems(2,3) s show ?case by (simp add: queue_run_def)
qed

section \<open>Properties\<close>

text \<open>A group with an expired job, a job out of attempts, and one still held.\<close>

definition queue_example :: qrec where
  "queue_example = \<lparr>q_next = 14, q_lease_ms = 30, q_max_attempts = 3, q_backoff_ms = 1000,
     q_max_backoff_ms = 300000,
     q_fl = [\<lparr>l_index = 10, l_expires = 90, l_attempts = 3\<rparr>, \<lparr>l_index = 11, l_expires = 500, l_attempts = 1\<rparr>,
             \<lparr>l_index = 12, l_expires = 100, l_attempts = 2\<rparr>],
     q_dead_total = 0, q_dead = []\<rparr>"

lemma queue_example_facts:
  "queue_inv queue_example" "(15 :: u64) \<noteq> UINT64_MAX"
  by (simp_all add: queue_inv_def queue_example_def BJM_INFLIGHT_MAX_def BJM_DEAD_MAX_def UINT64_MAX_def)

lemma queue_example_take:
  "take_jobs 100 30 3 15 queue_example =
     (\<lparr>q_next = 16, q_lease_ms = 30, q_max_attempts = 3, q_backoff_ms = 1000, q_max_backoff_ms = 300000,
       q_fl = [\<lparr>l_index = 12, l_expires = 130, l_attempts = 3\<rparr>, \<lparr>l_index = 11, l_expires = 500, l_attempts = 1\<rparr>,
               \<lparr>l_index = 14, l_expires = 130, l_attempts = 1\<rparr>, \<lparr>l_index = 15, l_expires = 130, l_attempts = 1\<rparr>],
       q_dead_total = 1, q_dead = [10]\<rparr>,
      [(12, 3), (14, 1), (15, 1)], [(10, 3)])"
  by code_simp

text \<open>
  A take keeps a group's record well formed: at most 256 leases, all on different messages
  the group has passed, and at most 64 remembered dead jobs; and the group never moves back.
\<close>

theorem take_keeps_invariant:
  assumes "queue_inv q" and "last_ix \<noteq> UINT64_MAX"
    and "take_jobs now lease_ms limit last_ix q = (q', js, ds)"
  shows "queue_inv q' \<and> q_next q \<le> q_next q'"
  using take_inv [OF assms(1,3,2)] by blast

theorem take_keeps_invariant_witness:
  "queue_inv (fst (take_jobs 100 30 3 15 queue_example)) \<and>
   q_next queue_example \<le> q_next (fst (take_jobs 100 30 3 15 queue_example))"
  using take_keeps_invariant [OF queue_example_facts queue_example_take] by (simp add: queue_example_take)

text \<open>
  What a take hands out: no index twice and none that it also buries; every job is either an
  expired lease with attempts left, one attempt higher than before, or a message the group had not
  reached, at its first attempt. A job under a running lease is never handed out again.
\<close>

theorem take_hands_out:
  assumes "queue_inv q" and "last_ix \<noteq> UINT64_MAX"
    and "take_jobs now lease_ms limit last_ix q = (q', js, ds)"
  shows "distinct (map fst js @ map fst ds) \<and>
         (\<forall>(i, a) \<in> set js.
            (\<exists>l \<in> set (q_fl q). l_index l = i \<and> l_expires l \<le> now \<and> \<not> exhausted q l \<and> a = l_attempts l + 1) \<or>
            q_next q \<le> i \<and> i < q_next q' \<and> i \<le> last_ix \<and> a = 1)"
  using take_jobs_distinct(2) [OF assms(1,3,2)] take_jobs_origin [OF assms(1,3,2)] by blast

theorem take_hands_out_witness:
  "distinct (map fst [(12, 3), (14, 1), (15, 1 :: u64)] @ map fst [(10 :: u64, 3 :: u64)])"
  using take_hands_out [OF queue_example_facts queue_example_take] by blast

text \<open>
  C4: A take loses no job: with a lease, what the group tracks afterwards, together with the jobs it
  buried, is exactly what it tracked before and the messages it passed over, and the two are
  disjoint. Without a lease the messages passed over are handed out and forgotten.
\<close>

theorem take_loses_no_job:
  assumes "queue_inv q" and "last_ix \<noteq> UINT64_MAX"
    and "take_jobs now lease_ms limit last_ix q = (q', js, ds)"
  shows "l_index ` set (q_fl q) \<union> {i. q_next q \<le> i \<and> i < q_next q'} =
           l_index ` set (q_fl q') \<union> fst ` set ds \<union>
             (if lease_ms > 0 then {} else {i. q_next q \<le> i \<and> i < q_next q'}) \<and>
         l_index ` set (q_fl q') \<inter> fst ` set ds = {}"
  using take_jobs_conserve [OF assms(1,3,2)] by blast

theorem take_loses_no_job_witness:
  "l_index ` set (q_fl (fst (take_jobs 100 30 3 15 queue_example))) \<inter> fst ` set [(10 :: u64, 3 :: u64)] = {}"
  using take_loses_no_job [OF queue_example_facts queue_example_take] by (simp add: queue_example_take)

text \<open>
  C25: Expired work comes first: a take that hands out a new message, or comes back with fewer jobs
  than it was asked for, has handed out every job whose lease had run out, except those out of
  attempts, which it buried. A failing job is not starved by new ones.
\<close>

theorem take_expired_first:
  assumes "queue_inv q" and "last_ix \<noteq> UINT64_MAX"
    and "take_jobs now lease_ms limit last_ix q = (q', js, ds)"
    and "q_next q' \<noteq> q_next q \<or> length js < limit" and "l \<in> set (q_fl q)" and "l_expires l \<le> now"
  shows "(l_index l, l_attempts l + 1) \<in> set js \<or> exhausted q l \<and> (l_index l, l_attempts l) \<in> set ds"
  using take_jobs_expired_first [OF assms(1,3,2,4-6)] .

theorem take_expired_first_witness:
  "(12, 3) \<in> set [(12, 3), (14, 1), (15 :: u64, 1 :: u64)] \<or>
   exhausted queue_example \<lparr>l_index = 12, l_expires = 100, l_attempts = 2\<rparr> \<and> (12, 2) \<in> set [(10 :: u64, 3 :: u64)]"
  using take_expired_first [OF queue_example_facts queue_example_take,
      of "\<lparr>l_index = 12, l_expires = 100, l_attempts = 2\<rparr>"]
  by (simp add: queue_example_def)







end
