(* ===== verification/Reference_Library.thy ===== *)
theory Reference_Library
  imports Store
begin

text \<open>
  One concrete library that satisfies the laws of theory \<open>Library\<close>: events serialised byte by
  byte, a tree as an association list and a log as a base index with a list of entries. It stands
  for nothing in the repository. It shows that the laws can hold together and is what the
  concrete runs of the development evaluate the model on.
\<close>

section \<open>Serialised events\<close>

text \<open>Little-endian words.\<close>

fun word_bytes :: "nat \<Rightarrow> u64 \<Rightarrow> bytes" where
  "word_bytes 0 v = []"
| "word_bytes (Suc k) v = ucast v # word_bytes k (drop_bit 8 v)"

fun bytes_word :: "bytes \<Rightarrow> u64" where
  "bytes_word [] = 0"
| "bytes_word (b # bs) = or (ucast b) (push_bit 8 (bytes_word bs))"

lemma bytes_word_bytes: "bytes_word (word_bytes k v) = take_bit (8 * k) v"
proof (induction k arbitrary: v)
  case 0
  then show ?case by simp
next
  case (Suc k)
  show ?case
    by (rule bit_word_eqI) (auto simp: Suc.IH bit_simps bit_take_bit_iff le_Suc_ex)
qed

text \<open>A sequence of bytes with an end mark.\<close>

fun put_seq :: "bytes \<Rightarrow> bytes" where
  "put_seq [] = [0]"
| "put_seq (b # bs) = 1 # b # put_seq bs"

fun get_seq :: "bytes \<Rightarrow> (bytes \<times> bytes) option" where
  "get_seq (m # r) =
     (if m = 0 then Some ([], r)
      else (case r of [] \<Rightarrow> None
            | b # r' \<Rightarrow> (case get_seq r' of None \<Rightarrow> None | Some (bs, r'') \<Rightarrow> Some (b # bs, r''))))"
| "get_seq [] = None"

lemma get_put_seq: "get_seq (put_seq bs @ r) = Some (bs, r)"
  by (induction bs) auto

definition put_string :: "string \<Rightarrow> bytes" where
  "put_string s = put_seq (map of_char s)"

definition get_string :: "bytes \<Rightarrow> (string \<times> bytes) option" where
  "get_string b = (case get_seq b of None \<Rightarrow> None | Some (bs, r) \<Rightarrow> Some (map (\<lambda>x. char_of (uint x)) bs, r))"

lemma get_put_string: "get_string (put_string s @ r) = Some (s, r)"
proof -
  have "uint (of_char c :: 8 word) = of_char c" for c :: char
    by (cases c) (simp add: of_char_def uint_word_ariths split: if_splits)
  then show ?thesis by (simp add: get_string_def put_string_def get_put_seq o_def)
qed

fun put_ev :: "ev \<Rightarrow> bytes" where
  "put_ev (EKey k) = 1 # put_string k"
| "put_ev (EStr s) = 2 # put_string s"
| "put_ev (EInt v) = 3 # put_seq (word_bytes 8 v)"
| "put_ev (EBool b) = (if b then [5] else [4])"
| "put_ev ENull = [6]"
| "put_ev (EBin b) = 7 # put_seq b"
| "put_ev (EFloat v) = 8 # put_seq (word_bytes 8 v)"
| "put_ev (EOid b) = 13 # put_seq b"
| "put_ev (EDate v) = 14 # put_seq (word_bytes 8 v)"
| "put_ev (EPtr v) = 15 # put_seq (word_bytes 8 v)"
| "put_ev (EArr n) = 9 # put_seq (replicate n 0)"
| "put_ev EArrEnd = [10]"
| "put_ev (EObj n) = 11 # put_seq (replicate n 0)"
| "put_ev EObjEnd = [12]"

definition put_evs :: "ev list \<Rightarrow> bytes" where
  "put_evs evs = concat (map put_ev evs)"

definition get_ev :: "bytes \<Rightarrow> (ev \<times> bytes) option" where
  "get_ev bs =
     (case bs of
        [] \<Rightarrow> None
      | tag # r \<Rightarrow>
          if tag = 1 then map_option (apfst EKey) (get_string r)
          else if tag = 2 then map_option (apfst EStr) (get_string r)
          else if tag = 3 then map_option (apfst (\<lambda>b. EInt (bytes_word b))) (get_seq r)
          else if tag = 4 then Some (EBool False, r)
          else if tag = 5 then Some (EBool True, r)
          else if tag = 6 then Some (ENull, r)
          else if tag = 7 then map_option (apfst EBin) (get_seq r)
          else if tag = 8 then map_option (apfst (\<lambda>b. EFloat (bytes_word b))) (get_seq r)
          else if tag = 13 then map_option (apfst EOid) (get_seq r)
          else if tag = 14 then map_option (apfst (\<lambda>b. EDate (bytes_word b))) (get_seq r)
          else if tag = 15 then map_option (apfst (\<lambda>b. EPtr (bytes_word b))) (get_seq r)
          else if tag = 9 then map_option (apfst (\<lambda>b. EArr (length b))) (get_seq r)
          else if tag = 10 then Some (EArrEnd, r)
          else if tag = 11 then map_option (apfst (\<lambda>b. EObj (length b))) (get_seq r)
          else if tag = 12 then Some (EObjEnd, r)
          else None)"

lemma get_put_ev: "get_ev (put_ev e @ r) = Some (e, r)"
proof -
  have "bytes_word (word_bytes 8 v) = v" for v
    using take_bit_word_eq_self [of 64 v] by (simp add: bytes_word_bytes)
  then show ?thesis
    by (cases e) (simp_all add: get_ev_def get_put_seq get_put_string del: word_bytes.simps)
qed

text \<open>One unit of fuel per byte is enough: every event takes at least one.\<close>

fun get_evs :: "nat \<Rightarrow> bytes \<Rightarrow> ev list option" where
  "get_evs n [] = Some []"
| "get_evs 0 (b # bs) = None"
| "get_evs (Suc n) (b # bs) =
     (case get_ev (b # bs) of
        None \<Rightarrow> None
      | Some (e, r) \<Rightarrow> map_option ((#) e) (get_evs n r))"

lemma put_ev_nonempty: "\<exists>b bs. put_ev e = b # bs"
  by (cases e) auto

lemma get_put_evs: "length (put_evs evs) \<le> n \<Longrightarrow> get_evs n (put_evs evs) = Some evs"
proof (induction evs arbitrary: n)
  case Nil
  then show ?case by (simp add: put_evs_def)
next
  case (Cons e evs)
  obtain b bs where e: "put_ev e = b # bs" using put_ev_nonempty by blast
  with Cons.prems obtain m where n: "n = Suc m" by (cases n) (auto simp: put_evs_def)
  have "get_evs n (put_evs (e # evs)) = map_option ((#) e) (get_evs m (put_evs evs))"
    using get_put_ev [of e "put_evs evs"] e n by (simp add: put_evs_def)
  moreover have "length (put_evs evs) \<le> m" using Cons.prems e n by (simp add: put_evs_def)
  ultimately show ?case using Cons.IH by simp
qed

section \<open>Trees\<close>

type_synonym rtree = "(string \<times> bytes) list"

definition tree_cursor :: "rtree \<Rightarrow> string option \<Rightarrow> string option \<Rightarrow> (string \<times> bytes) list" where
  "tree_cursor t lo hi =
     map (\<lambda>k. (k, the (map_of t k)))
       (filter (\<lambda>k. (case lo of None \<Rightarrow> True | Some l \<Rightarrow> l \<le> k) \<and> (case hi of None \<Rightarrow> True | Some h \<Rightarrow> k \<le> h))
         (sort (remdups (map fst t))))"

lemma tree_cursor_sorted: "sorted_wrt (<) (map fst (tree_cursor t lo hi))"
proof -
  have "sorted_wrt (<) (sort (remdups (map fst t)))"
    by (simp add: strict_sorted_iff)
  then show ?thesis unfolding tree_cursor_def
    by (simp add: o_def sorted_wrt_filter)
qed

lemma tree_cursor_set:
  "(k, v) \<in> set (tree_cursor t lo hi) \<longleftrightarrow>
     map_of t k = Some v \<and> (\<forall>l. lo = Some l \<longrightarrow> l \<le> k) \<and> (\<forall>h. hi = Some h \<longrightarrow> k \<le> h)"
proof -
  have dom: "map_of t k = Some v \<Longrightarrow> k \<in> fst ` set t" for v
    by (force dest: map_of_SomeD)
  have get: "k \<in> fst ` set t \<Longrightarrow> map_of t k = Some (the (map_of t k))"
    by (metis map_of_eq_None_iff option.collapse)
  have "(k, v) \<in> set (tree_cursor t lo hi) \<longleftrightarrow>
      v = the (map_of t k) \<and> k \<in> fst ` set t \<and>
      (case lo of None \<Rightarrow> True | Some l \<Rightarrow> l \<le> k) \<and> (case hi of None \<Rightarrow> True | Some h \<Rightarrow> k \<le> h)"
    by (auto simp only: tree_cursor_def set_map set_filter set_sort set_remdups image_iff
        mem_Collect_eq prod.inject)
  also have "\<dots> \<longleftrightarrow> map_of t k = Some v \<and> (\<forall>l. lo = Some l \<longrightarrow> l \<le> k) \<and> (\<forall>h. hi = Some h \<longrightarrow> k \<le> h)"
    using dom get by (cases lo; cases hi) auto
  finally show ?thesis .
qed

section \<open>Logs\<close>

text \<open>A base and at most fifty entries, so that every index is a 64-bit one.\<close>

type_synonym rlog = "32 word \<times> (int \<times> bytes) list"

definition rlog_base :: "rlog \<Rightarrow> nat" where
  "rlog_base l = unat (fst l)"

definition rlog_ents :: "rlog \<Rightarrow> (int \<times> bytes) list" where
  "rlog_ents l = take 50 (snd l)"

definition rlog_last :: "rlog \<Rightarrow> nat" where
  "rlog_last l = rlog_base l + length (rlog_ents l)"

definition rlog_append :: "rlog \<Rightarrow> int \<Rightarrow> bytes \<Rightarrow> rlog \<times> u64 res" where
  "rlog_append l ty p =
     (if length (snd l) \<ge> 50 then (l, Inl BJ_ERR_STATE)
      else let l' = (fst l, snd l @ [(ty, p)]) in (l', Inr (word_of_nat (rlog_last l'))))"

definition rlog_get :: "rlog \<Rightarrow> u64 \<Rightarrow> (int \<times> bytes) res" where
  "rlog_get l i =
     (if unat i \<le> rlog_base l \<or> rlog_last l < unat i then Inl BJ_ERR_RANGE
      else Inr (rlog_ents l ! (unat i - rlog_base l - 1)))"

definition rlog_batch :: "rlog \<Rightarrow> u64 \<Rightarrow> u64 \<Rightarrow> (nat \<times> bytes) res" where
  "rlog_batch l i m =
     (if unat i \<le> rlog_base l then Inl BJ_ERR_RANGE
      else let es = drop (unat i - rlog_base l - 1) (rlog_ents l) in
        Inr (length es, put_evs (batch_events i (replicate (length es) 0) es)))"

definition rlog_compact :: "rlog \<Rightarrow> u64 \<Rightarrow> u64 \<Rightarrow> rlog res" where
  "rlog_compact l nb t =
     (if nb < 0x100000000
      then Inr (word_of_nat (unat nb), drop (unat nb - rlog_base l) (rlog_ents l))
      else Inl BJ_ERR_RANGE)"

section \<open>The library\<close>

definition ref_lib :: "(rtree, rlog) lib" where
  "ref_lib =
     \<lparr>bj_build = (\<lambda>evs. (None, Some (put_evs evs))),
      bj_decode = (\<lambda>b. case get_evs (length b) b of None \<Rightarrow> Inl BJ_ERR_VERIFY | Some evs \<Rightarrow> Inr evs),
      bj_value_size = (\<lambda>b. case get_evs (length b) b of None \<Rightarrow> Inl BJ_ERR_VERIFY | Some evs \<Rightarrow> Inr (length b)),
      ns_missing = BJ_ERR_STATE,
      bpt_create = Some [],
      bpt_search = (\<lambda>t k. Inr (map_of t k)),
      bpt_add = (\<lambda>t k v. ((k, v) # t, Inr ())),
      bpt_delete = (\<lambda>t k. (filter (\<lambda>kv. fst kv \<noteq> k) t, Inr ())),
      bpt_reset = (\<lambda>t. ([], Inr ())),
      bpt_sync = (\<lambda>t. (t, Inr ())),
      bpt_cursor = (\<lambda>t lo hi. Some (tree_cursor t lo hi, None)),
      elog_create = Some (0, []),
      elog_append = rlog_append,
      elog_sync = (\<lambda>l. (l, Inr ())),
      elog_base_index = (\<lambda>l. word_of_nat (rlog_base l)),
      elog_last_index = (\<lambda>l. word_of_nat (rlog_last l)),
      elog_file_len = (\<lambda>l. word_of_nat (100 * length (rlog_ents l))),
      elog_get = rlog_get,
      elog_get_batch = rlog_batch,
      elog_term_at = (\<lambda>l i. Inr 0),
      elog_compact = rlog_compact,
      view_tree = map_of,
      view_base = rlog_base,
      view_ents = rlog_ents\<rparr>"

lemma ref_bj_laws: "bj_laws ref_lib"
  by (simp add: bj_laws_def ref_lib_def get_put_evs)

lemma map_of_filter_key: "map_of (filter (\<lambda>kv. fst kv \<noteq> k) t) = (map_of t)(k := None)"
  by (induction t) (auto simp: fun_eq_iff)

lemma ref_bpt_laws: "bpt_laws ref_lib"
  unfolding bpt_laws_def
  by (auto simp: ref_lib_def map_of_filter_key tree_cursor_sorted tree_cursor_set)

lemma rlog_bounds: "rlog_base l < 2 ^ 32" "length (rlog_ents l) \<le> 50" "rlog_last l < 2 ^ 64"
proof -
  show b: "rlog_base l < 2 ^ 32"
    using unsigned_less [of "fst l"] by (simp add: rlog_base_def)
  show e: "length (rlog_ents l) \<le> 50" by (simp add: rlog_ents_def)
  from b e have "rlog_last l < 2 ^ 32 + 51" by (simp add: rlog_last_def)
  then show "rlog_last l < 2 ^ 64" by (rule less_le_trans) simp
qed

lemma rlog_unat:
  "unat (word_of_nat (rlog_base l) :: u64) = rlog_base l"
  "unat (word_of_nat (rlog_last l) :: u64) = rlog_last l"
  using rlog_bounds [of l] by (simp_all add: unsigned_of_nat take_bit_nat_eq_self)

lemma ref_elog_laws: "elog_laws ref_lib"
  unfolding elog_laws_def
proof (intro conjI allI impI)
  fix l :: rlog
  show "unat (elog_base_index ref_lib l) = view_base ref_lib l"
    by (simp add: ref_lib_def rlog_unat)
  show "unat (elog_last_index ref_lib l) = view_base ref_lib l + length (view_ents ref_lib l)"
    by (simp add: ref_lib_def rlog_unat) (simp add: rlog_last_def)
next
  fix l :: rlog and nb t :: u64 and l' :: rlog
  assume "elog_compact ref_lib l nb t = Inr l'"
    and *: "view_base ref_lib l \<le> unat nb" "unat nb \<le> view_base ref_lib l + length (view_ents ref_lib l)"
  then have nb: "nb < 0x100000000" and l': "l' = (word_of_nat (unat nb), drop (unat nb - rlog_base l) (rlog_ents l))"
    by (auto simp: ref_lib_def rlog_compact_def split: if_splits)
  from nb have lt: "unat nb < 2 ^ 32" by (simp add: word_less_nat_alt)
  have "unat (word_of_nat n :: 32 word) = n" if "n < 2 ^ 32" for n
    using that by (simp add: unsigned_of_nat take_bit_nat_eq_self)
  from this [OF lt] have "unat (fst l') = unat nb" by (simp only: l' fst_conv)
  then show "view_base ref_lib l' = unat nb" by (simp add: ref_lib_def rlog_base_def)
  show "view_ents ref_lib l' = drop (unat nb - view_base ref_lib l) (view_ents ref_lib l)"
    using l' by (simp add: ref_lib_def rlog_ents_def)
qed (auto simp: ref_lib_def rlog_last_def rlog_append_def rlog_get_def rlog_batch_def
    rlog_base_def rlog_ents_def Let_def split: if_splits)

lemma ref_lib_laws: "lib_laws ref_lib"
  by (simp add: lib_laws_def ref_bj_laws ref_bpt_laws ref_elog_laws)

lemma ref_batch_law: "batch_law ref_lib"
  unfolding batch_law_def
  by (auto simp: ref_lib_def rlog_batch_def Let_def get_put_evs split: if_splits
      intro!: exI [where x = "replicate _ 0"])

lemma ref_resets: "is_ok (snd (bpt_reset ref_lib t))"
  by (simp add: ref_lib_def)

text \<open>A store over an empty directory, with the clock at a given millisecond.\<close>

definition ref_store :: "u64 \<Rightarrow> (rtree, rlog) store" where
  "ref_store now =
     (bjm_store_open_ns (\<lambda>_. Absent) (\<lambda>_. Absent))
       \<lparr>st_clock := Some now, st_adopt := Some (\<lambda>_ _. True), st_listing := Some (Inr []), st_on_pub := True\<rparr>"

end
