(* ===== verification/Queue.thy ===== *)
theory Queue
  imports Policies Queue_Time Reference_Library
begin

text \<open>
  Queue groups over the store (\<open>bjm_take\<close>, \<open>bjm_done\<close>, \<open>bjm_fail\<close>, \<open>bjm_queue_*\<close>,
  \<open>bjm_queues\<close> and \<open>bjm_requeue\<close>, \<open>src/src/store.c\<close>): loading and storing a group's
  record, building the answer, routing exhausted jobs to the dead-letter channel and back.
\<close>

section \<open>Loading and storing a record\<close>

definition queue_handle :: "('t, 'l) store \<Rightarrow> 't res" where
  "queue_handle st = (case st_queues st of Opened t \<Rightarrow> Inr t | Closed _ \<Rightarrow> Inl BJ_ERR_STATE)"

definition decode_queue :: "('t, 'l) lib \<Rightarrow> bytes \<Rightarrow> qrec res" where
  "decode_queue L val = (case bj_decode L val of Inl e \<Rightarrow> Inl e | Inr evs \<Rightarrow> queue_decode evs)"

definition new_queue :: "u64 \<Rightarrow> qrec" where
  "new_queue next =
     \<lparr>q_next = next, q_lease_ms = BJM_LEASE_DEFAULT_MS, q_max_attempts = BJM_MAX_ATTEMPTS_DEFAULT,
      q_backoff_ms = BJM_BACKOFF_DEFAULT_MS, q_max_backoff_ms = BJM_MAX_BACKOFF_DEFAULT_MS,
      q_fl = [], q_dead_total = 0, q_dead = []\<rparr>"

text \<open>
  The group's record and whether it existed. A new group starts at the oldest surviving message,
  and at 1 when the subject cannot be opened.
\<close>

definition queue_load ::
    "('t, 'l) lib \<Rightarrow> ('t, 'l) store \<Rightarrow> string \<Rightarrow> string \<Rightarrow> ('t, 'l) store \<times> (qrec \<times> bool) res" where
  "queue_load L st subject grp =
     (case queue_key subject grp of
        Inl e \<Rightarrow> (st, Inl e)
      | Inr key \<Rightarrow>
          (case queue_handle st of
             Inl e \<Rightarrow> (st, Inl e)
           | Inr t \<Rightarrow>
               (case bpt_search L t key of
                  Inl e \<Rightarrow> (st, Inl e)
                | Inr (Some val) \<Rightarrow>
                    (case decode_queue L val of Inl e \<Rightarrow> (st, Inl e) | Inr q \<Rightarrow> (st, Inr (q, True)))
                | Inr None \<Rightarrow>
                    (case subject_get L st subject False of
                       (st, Inl _) \<Rightarrow> (st, Inr (new_queue 1, False))
                     | (st, Inr s) \<Rightarrow> (st, Inr (new_queue (elog_base_index L (s_log s) + 1), False))))))"

definition queue_store ::
    "('t, 'l) lib \<Rightarrow> ('t, 'l) store \<Rightarrow> string \<Rightarrow> string \<Rightarrow> qrec \<Rightarrow> ('t, 'l) store \<times> unit res" where
  "queue_store L st subject grp q =
     (case queue_key subject grp of
        Inl e \<Rightarrow> (st, Inl e)
      | Inr key \<Rightarrow>
          (case queue_handle st of
             Inl e \<Rightarrow> (st, Inl e)
           | Inr t \<Rightarrow>
               (case bpt_put L t key (queue_encode q) of (t, r) \<Rightarrow> (st\<lparr>st_queues := Opened t\<rparr>, r))))"

section \<open>Taking\<close>

text \<open>One job of the answer; a message trimmed away in the meantime is skipped.\<close>

definition job_object :: "('t, 'l) lib \<Rightarrow> 'l \<Rightarrow> u64 \<Rightarrow> u64 \<Rightarrow> job \<Rightarrow> ev list list" where
  "job_object L lg lease_ms now j =
     (case j of (index, attempts) \<Rightarrow>
        (case elog_get L lg index of
           Inl _ \<Rightarrow> []
         | Inr (ty, payload) \<Rightarrow>
             [bj_object [(''index'', [EInt index]), (''attempts'', [EInt attempts]),
                (''expires_ms'', [EInt (if lease_ms \<noteq> 0 then now + lease_ms else 0)]),
                (''type'', [EInt (int_to_u64 ty)]), (''payload'', [EBin payload])]]))"

text \<open>Publish the buried jobs to the dead-letter channel, as long as the source can be opened.\<close>

fun dead_letters ::
    "('t, 'l) lib \<Rightarrow> ('t, 'l) store \<Rightarrow> string \<Rightarrow> string \<Rightarrow> string \<Rightarrow> u64 \<Rightarrow> job list \<Rightarrow> ('t, 'l) store" where
  "dead_letters L st subject grp dead now [] = st"
| "dead_letters L st subject grp dead now ((index, attempts) # ds) =
     (case subject_get L st subject False of
        (st, Inl _) \<Rightarrow> st
      | (st, Inr src) \<Rightarrow>
          (case elog_get L (s_log src) index of
             Inl _ \<Rightarrow> dead_letters L st subject grp dead now ds
           | Inr (ty, payload) \<Rightarrow>
               (case snd (bj_build L (dead_envelope subject grp index attempts now ty payload)) of
                  None \<Rightarrow> dead_letters L st subject grp dead now ds
                | Some dv \<Rightarrow>
                    dead_letters L (fst (bjm_publish L st dead BJM_ENTRY_PLAIN dv))
                      subject grp dead now ds)))"

definition route_dead ::
    "('t, 'l) lib \<Rightarrow> ('t, 'l) store \<Rightarrow> string \<Rightarrow> string \<Rightarrow> u64 \<Rightarrow> job list \<Rightarrow> ('t, 'l) store" where
  "route_dead L st subject grp now ds =
     (if ds = [] then st
      else (case dead_subject_of subject (BJM_SUBJECT_MAX + 1) of
              None \<Rightarrow> st
            | Some dead \<Rightarrow> dead_letters L st subject grp dead now ds))"

text \<open>
  The leases are persisted before the jobs are handed out, and the dead letters are published after
  the answer is built. \<open>(count, array)\<close>.
\<close>

definition bjm_take ::
    "('t, 'l) lib \<Rightarrow> ('t, 'l) store \<Rightarrow> string \<Rightarrow> string \<Rightarrow> int \<Rightarrow> u64
      \<Rightarrow> ('t, 'l) store \<times> (nat \<times> bytes) res" where
  "bjm_take L st subject grp n lease_ms =
     (case queues_open L st of
        (st, Inl e) \<Rightarrow> (st, Inl e)
      | (st, Inr _) \<Rightarrow>
          (case subject_get L st subject False of
             (st, Inl e) \<Rightarrow> (st, Inl e)
           | (st, Inr s) \<Rightarrow>
               (case queue_load L st subject grp of
                  (st, Inl e) \<Rightarrow> (st, Inl e)
                | (st, Inr (q, existed)) \<Rightarrow>
                    (case lease_for q lease_ms of
                       (q, lease_ms) \<Rightarrow>
                         let now = now_ms st in
                         (case take_jobs now lease_ms (take_limit n) (elog_last_index L (s_log s)) q of
                            (q, js, ds) \<Rightarrow>
                              (case queue_store L st subject grp q of
                                 (st, Inl e) \<Rightarrow> (st, Inl e)
                               | (st, Inr _) \<Rightarrow>
                                   let objs = concat (map (job_object L (s_log s) lease_ms now) js) in
                                   (case bj_build L (bj_array objs) of
                                      (Some e, _) \<Rightarrow> (st, Inl e)
                                    | (None, out) \<Rightarrow>
                                        (route_dead L st subject grp now ds,
                                         case out of None \<Rightarrow> Inl BJ_ERR_STATE
                                         | Some b \<Rightarrow> Inr (length objs, b)))))))))"

section \<open>Requeueing\<close>

definition bjm_requeue ::
    "('t, 'l) lib \<Rightarrow> ('t, 'l) store \<Rightarrow> string \<Rightarrow> u64 \<Rightarrow> ('t, 'l) store \<times> u64 res" where
  "bjm_requeue L st subject dlq_index =
     (case dead_subject_of subject (BJM_SUBJECT_MAX + 1) of
        None \<Rightarrow> (st, Inl BJ_ERR_RANGE)
      | Some dead \<Rightarrow>
          (case subject_get L st dead False of
             (st, Inl e) \<Rightarrow> (st, Inl e)
           | (st, Inr s) \<Rightarrow>
               (case elog_get L (s_log s) dlq_index of
                  Inl e \<Rightarrow> (st, Inl e)
                | Inr (_, rec) \<Rightarrow>
                    (case bj_decode L rec of
                       Inl e \<Rightarrow> (st, Inl e)
                     | Inr evs \<Rightarrow>
                         let v = envelope_of_events evs in
                         (case e_payload v of
                            None \<Rightarrow> (st, Inl BJ_ERR_VERIFY)
                          | Some payload \<Rightarrow>
                              if \<not> bjm_subject_valid (e_subject v) then (st, Inl BJ_ERR_VERIFY)
                              else bjm_publish L st (e_subject v) (e_type v) payload)))))"

section \<open>Finishing, failing, configuring\<close>

text \<open>\<open>None\<close> when the job was not found; else the delay until it is offered again.\<close>

definition queue_release ::
    "('t, 'l) lib \<Rightarrow> ('t, 'l) store \<Rightarrow> string \<Rightarrow> string \<Rightarrow> u64 \<Rightarrow> bool \<Rightarrow> u64
      \<Rightarrow> ('t, 'l) store \<times> u64 option res" where
  "queue_release L st subject grp index drop_it delay_ms =
     (case queues_open L st of
        (st, Inl e) \<Rightarrow> (st, Inl e)
      | (st, Inr _) \<Rightarrow>
          (case queue_load L st subject grp of
             (st, Inl e) \<Rightarrow> (st, Inl e)
           | (st, Inr (q, existed)) \<Rightarrow>
               if \<not> existed then (st, Inr None)
               else (case release_job (now_ms st) q index drop_it delay_ms of
                       None \<Rightarrow> (st, Inr None)
                     | Some (q, d) \<Rightarrow>
                         (case queue_store L st subject grp q of
                            (st, Inl e) \<Rightarrow> (st, Inl e)
                          | (st, Inr _) \<Rightarrow> (st, Inr (Some d))))))"

definition bjm_done ::
    "('t, 'l) lib \<Rightarrow> ('t, 'l) store \<Rightarrow> string \<Rightarrow> string \<Rightarrow> u64 \<Rightarrow> ('t, 'l) store \<times> bool res" where
  "bjm_done L st subject grp index =
     (case queue_release L st subject grp index True 0 of
        (st, Inl e) \<Rightarrow> (st, Inl e) | (st, Inr found) \<Rightarrow> (st, Inr (found \<noteq> None)))"

definition bjm_fail ::
    "('t, 'l) lib \<Rightarrow> ('t, 'l) store \<Rightarrow> string \<Rightarrow> string \<Rightarrow> u64 \<Rightarrow> u64 \<Rightarrow> ('t, 'l) store \<times> u64 option res" where
  "bjm_fail L st subject grp index delay_ms = queue_release L st subject grp index False delay_ms"

definition bjm_queue_config ::
    "('t, 'l) lib \<Rightarrow> ('t, 'l) store \<Rightarrow> string \<Rightarrow> string \<Rightarrow> u64 \<Rightarrow> u64 \<Rightarrow> u64 \<Rightarrow> u64
      \<Rightarrow> ('t, 'l) store \<times> unit res" where
  "bjm_queue_config L st subject grp lease_ms max_attempts backoff_ms max_backoff_ms =
     (case queues_open L st of
        (st, Inl e) \<Rightarrow> (st, Inl e)
      | (st, Inr _) \<Rightarrow>
          (case queue_load L st subject grp of
             (st, Inl e) \<Rightarrow> (st, Inl e)
           | (st, Inr (q, existed)) \<Rightarrow>
               (case queue_store L st subject grp
                       (q\<lparr>q_lease_ms := lease_ms, q_max_attempts := max_attempts,
                          q_backoff_ms := backoff_ms, q_max_backoff_ms := max_backoff_ms\<rparr>) of
                  (st, Inl e) \<Rightarrow> (st, Inl e)
                | (st, Inr _) \<Rightarrow>
                    (case queue_handle st of
                       Inl e \<Rightarrow> (st, Inl e)
                     | Inr t \<Rightarrow> (case bpt_sync L t of (t, r) \<Rightarrow> (st\<lparr>st_queues := Opened t\<rparr>, r))))))"

text \<open>As for a push registration, \<open>deleted\<close> survives a failed sync.\<close>

definition bjm_queue_delete ::
    "('t, 'l) lib \<Rightarrow> ('t, 'l) store \<Rightarrow> string \<Rightarrow> string \<Rightarrow> ('t, 'l) store \<times> bool \<times> unit res" where
  "bjm_queue_delete L st subject grp =
     (case queues_open L st of
        (st, Inl e) \<Rightarrow> (st, False, Inl e)
      | (st, Inr t) \<Rightarrow>
          (case queue_key subject grp of
             Inl e \<Rightarrow> (st, False, Inl e)
           | Inr key \<Rightarrow>
               (case bpt_search L t key of
                  Inl e \<Rightarrow> (st, False, Inl e)
                | Inr None \<Rightarrow> (st, False, Inr ())
                | Inr (Some _) \<Rightarrow>
                    (case bpt_delete L t key of
                       (t, Inl e) \<Rightarrow> (st\<lparr>st_queues := Opened t\<rparr>, False, Inl e)
                     | (t, Inr _) \<Rightarrow>
                         (case bpt_sync L t of (t, r) \<Rightarrow> (st\<lparr>st_queues := Opened t\<rparr>, True, r))))))"

section \<open>Listing and watching groups\<close>

definition queue_object :: "('t, 'l) lib \<Rightarrow> string \<Rightarrow> u64 \<Rightarrow> u64 \<Rightarrow> nat \<Rightarrow> string \<times> bytes \<Rightarrow> ev list list" where
  "queue_object L subject last_ix now nlo kv =
     (case kv of (k, val) \<Rightarrow>
        if length k \<le> nlo then []
        else (case decode_queue L val of
                Inl _ \<Rightarrow> []
              | Inr q \<Rightarrow>
                  [bj_object
                     [(''group'', [EStr (drop nlo k)]), (''next'', [EInt (q_next q)]),
                      (''pending'', [EInt (if last_ix \<ge> q_next q then last_ix - q_next q + 1 else 0)]),
                      (''inflight'', [EInt (word_of_nat (length (q_fl q)))]),
                      (''expired'', [EInt (word_of_nat (length (filter (\<lambda>l. l_expires l \<le> now) (q_fl q))))]),
                      (''lease_ms'', [EInt (q_lease_ms q)]), (''max_attempts'', [EInt (q_max_attempts q)]),
                      (''backoff_ms'', [EInt (q_backoff_ms q)]),
                      (''max_backoff_ms'', [EInt (q_max_backoff_ms q)]),
                      (''dead'', [EInt (q_dead_total q)]),
                      (''dead_subject'', (case dead_subject_of subject (BJM_SUBJECT_MAX + 1) of
                                            Some d \<Rightarrow> [EStr d] | None \<Rightarrow> [ENull])),
                      (''dead_indexes'', bj_array (map (\<lambda>v. [EInt v]) (q_dead q)))]]))"

definition bjm_queues ::
    "('t, 'l) lib \<Rightarrow> ('t, 'l) store \<Rightarrow> string \<Rightarrow> ('t, 'l) store \<times> bytes res" where
  "bjm_queues L st subject =
     (case queues_open L st of
        (st, Inl e) \<Rightarrow> (st, Inl e)
      | (st, Inr t) \<Rightarrow>
          (case bjm_last_index L st subject of
             (st, last_ix) \<Rightarrow>
               (case queue_range subject of
                  (lo, hi, nlo) \<Rightarrow>
                    (case bpt_cursor L t (Some lo) (Some hi) of
                       None \<Rightarrow> (st, Inl BJ_ERR_STATE)
                     | Some (es, Some e) \<Rightarrow> (st, Inl e)
                     | Some (es, None) \<Rightarrow>
                         (st, bj_finish L (bj_array (concat
                                (map (queue_object L subject last_ix (now_ms st) nlo) es))))))))"

text \<open>\<open>None\<close> when the group is idle; else when its earliest lease or retry delay ends.\<close>

definition bjm_queue_next_due ::
    "('t, 'l) lib \<Rightarrow> ('t, 'l) store \<Rightarrow> string \<Rightarrow> string \<Rightarrow> ('t, 'l) store \<times> u64 option res" where
  "bjm_queue_next_due L st subject grp =
     (case queues_open L st of
        (st, Inl e) \<Rightarrow> (st, Inl e)
      | (st, Inr _) \<Rightarrow>
          (case queue_load L st subject grp of
             (st, Inl e) \<Rightarrow> (st, Inl e)
           | (st, Inr (q, existed)) \<Rightarrow>
               (st, Inr (if existed then earliest_due (q_fl q) None else None))))"

fun floor_step :: "('t, 'l) lib \<Rightarrow> nat \<Rightarrow> string \<times> bytes \<Rightarrow> u64 \<times> nat \<Rightarrow> u64 \<times> nat" where
  "floor_step L nlo (k, val) (fl, ngroups) =
     (if length k \<le> nlo then (fl, ngroups)
      else (case decode_queue L val of
              Inl _ \<Rightarrow> (fl, ngroups)
            | Inr q \<Rightarrow> (let f = owed_floor q in (if f < fl then f else fl, ngroups + 1))))"

text \<open>\<open>(floor, ngroups)\<close>.\<close>

definition bjm_queue_floor ::
    "('t, 'l) lib \<Rightarrow> ('t, 'l) store \<Rightarrow> string \<Rightarrow> ('t, 'l) store \<times> (u64 \<times> nat) res" where
  "bjm_queue_floor L st subject =
     (case queues_open L st of
        (st, Inl e) \<Rightarrow> (st, Inl e)
      | (st, Inr t) \<Rightarrow>
          (case queue_range subject of
             (lo, hi, nlo) \<Rightarrow>
               (case bpt_cursor L t (Some lo) (Some hi) of
                  None \<Rightarrow> (st, Inl BJ_ERR_STATE)
                | Some (es, Some e) \<Rightarrow> (st, Inl e)
                | Some (es, None) \<Rightarrow> (st, Inr (fold (floor_step L nlo) es (UINT64_MAX, 0))))))"

section \<open>The record of a group\<close>

definition group_rec :: "('t, 'l) lib \<Rightarrow> ('t, 'l) store \<Rightarrow> string \<Rightarrow> string \<Rightarrow> qrec option" where
  "group_rec L st subject grp =
     (case slot_view L (st_queues st) (subject @ ''/'' @ grp) of
        None \<Rightarrow> None
      | Some b \<Rightarrow> (case decode_queue L b of Inl _ \<Rightarrow> None | Inr q \<Rightarrow> Some q))"

lemma group_rec_cong:
  "slot_view L (st_queues st') = slot_view L (st_queues st) \<Longrightarrow> group_rec L st' = group_rec L st"
  by (simp add: group_rec_def fun_eq_iff)

lemma queues_openD:
  assumes "bpt_laws L" and "queues_open L st = (st', r)"
  shows "st' = st\<lparr>st_queues := st_queues st'\<rparr>" and "group_rec L st' = group_rec L st"
    and "r = Inr t \<Longrightarrow> queue_handle st' = Inr t \<and> view_tree L t = slot_view L (st_queues st)"
  using tree_openD(4) [OF assms] by (auto intro!: group_rec_cong simp: queue_handle_def)

text \<open>What a group is loaded as: its record, or a fresh one that starts above the log's base.\<close>

definition loaded :: "('t, 'l) lib \<Rightarrow> ('t, 'l) store \<Rightarrow> string \<Rightarrow> string \<Rightarrow> qrec \<Rightarrow> bool \<Rightarrow> bool" where
  "loaded L st subject grp q existed \<longleftrightarrow>
     (if existed then group_rec L st subject grp = Some q
      else group_rec L st subject grp = None \<and> (\<exists>next. q = new_queue next \<and>
             (next = 1 \<or> unat (next - 1) = base_of L st subject)))"

lemma queue_loadD:
  assumes laws: "elog_laws L" "bpt_laws L" and load: "queue_load L st s g = (st', r)"
  shows "st' = st\<lparr>st_subs := st_subs st', st_files := st_files st'\<rparr>"
    and "base_of L st' m = base_of L st m" and "msgs L st' m = msgs L st m"
    and "r = Inr (q, existed) \<Longrightarrow> loaded L st s g q existed"
    and "find_sub st n = Some y \<Longrightarrow> find_sub st' n = Some y"
proof -
  obtain st1 r1 where get: "subject_get L st s False = (st1, r1)" by (cases "subject_get L st s False")
  note rules = bpt_searchD [OF laws(2)]
  have st': "st' = st \<or> st' = st1"
    using load get by (auto simp: queue_load_def split: sum.splits option.splits)
  then show "st' = st\<lparr>st_subs := st_subs st', st_files := st_files st'\<rparr>"
    using subject_get_frame [OF get] by auto
  show "base_of L st' m = base_of L st m" "msgs L st' m = msgs L st m"
    using st' subject_get_log [OF laws(1) get] by auto
  have "find_sub st n = Some y \<Longrightarrow> find_sub st1 n = Some y"
    using get by (auto simp: subject_get_def find_sub_append find_sub_files Let_def
        split: option.splits prod.splits sum.splits if_splits)
  with st' show "find_sub st n = Some y \<Longrightarrow> find_sub st' n = Some y" by auto
  show "loaded L st s g q existed" if r: "r = Inr (q, existed)"
  proof -
    obtain key t where k: "queue_key s g = Inr key" "queue_handle st = Inr t"
      using load r by (auto simp: queue_load_def split: sum.splits)
    then have key: "key = s @ ''/'' @ g" and view: "slot_view L (st_queues st) = view_tree L t"
      using queue_keyD [OF k(1)] by (auto simp: queue_handle_def split: slot.splits)
    obtain found where f: "bpt_search L t key = Inr found"
      using load r k by (auto simp: queue_load_def split: sum.splits)
    then have "slot_view L (st_queues st) (s @ ''/'' @ g) = found"
      using rules key view by metis
    moreover have "unat (elog_base_index L (s_log sb) + 1 - 1) = base_of L st s" if "r1 = Inr sb" for sb
      using subject_get_view(1) [OF laws(1) get [unfolded that]] elog_indexD(1) [OF laws(1)] by simp
    ultimately show ?thesis
      using load r k f get
      by (cases found; cases r1) (auto simp: queue_load_def loaded_def group_rec_def split: sum.splits)
  qed
qed

lemma queue_storeD:
  assumes laws: "bj_laws L" "bpt_laws L" and store: "queue_store L st s g q = (st', r)"
  shows "st' = st\<lparr>st_queues := st_queues st'\<rparr>"
    and "r = Inr () \<Longrightarrow> qrec_wf q \<Longrightarrow> group_rec L st' s g = Some q"
    and "s' @ ''/'' @ g' \<noteq> s @ ''/'' @ g \<Longrightarrow> group_rec L st' s' g' = group_rec L st s' g'"
proof -
  have shape: "st' = st \<and> (\<exists>e. r = Inl e) \<or> (\<exists>t t'. st_queues st = Opened t \<and>
      bpt_put L t (s @ ''/'' @ g) (queue_encode q) = (t', r) \<and> st' = st\<lparr>st_queues := Opened t'\<rparr>)"
    using store
    by (auto simp: queue_store_def queue_handle_def dest!: queue_keyD split: sum.splits prod.splits slot.splits)
  then show "st' = st\<lparr>st_queues := st_queues st'\<rparr>" by auto
  show "r = Inr () \<Longrightarrow> qrec_wf q \<Longrightarrow> group_rec L st' s g = Some q"
    using shape queue_codec.stored_view [OF laws]
    by (fastforce simp: group_rec_def decode_queue_def)
  show "s' @ ''/'' @ g' \<noteq> s @ ''/'' @ g \<Longrightarrow> group_rec L st' s' g' = group_rec L st s' g'"
    using shape bpt_put_frame [OF laws(2)] by (auto simp: group_rec_def)
qed

section \<open>Dead letters touch no queue\<close>

lemma dead_letters_frame:
  assumes "bpt_laws L"
  shows "st_queues (dead_letters L st s g d now ds) = st_queues st \<and>
         st_clock (dead_letters L st s g d now ds) = st_clock st"
proof (induction ds arbitrary: st)
  case Nil
  then show ?case by simp
next
  case (Cons j ds)
  obtain i a where j: "j = (i, a)" by (cases j)
  obtain st1 r where get: "subject_get L st s False = (st1, r)" by (cases "subject_get L st s False")
  obtain x y where st1: "st1 = st\<lparr>st_subs := x, st_files := y\<rparr>" using subject_get_frame [OF get] by blast
  have "st_queues (fst (bjm_publish L st1 d BJM_ENTRY_PLAIN dv)) = st_queues st1 \<and>
      st_clock (fst (bjm_publish L st1 d BJM_ENTRY_PLAIN dv)) = st_clock st1" for dv
  proof -
    obtain st2 r2 where p: "bjm_publish L st1 d BJM_ENTRY_PLAIN dv = (st2, r2)"
      by (cases "bjm_publish L st1 d BJM_ENTRY_PLAIN dv")
    then obtain a b c e where "st2 = st1\<lparr>st_subs := a, st_files := b, st_policy := c, st_pubs := e\<rparr>"
      using publish_frame [OF assms p] by blast
    then show ?thesis using p by simp
  qed
  with get j st1 Cons.IH show ?case
    by (auto split: sum.split prod.split option.split)
qed

lemma route_dead_frame:
  assumes "bpt_laws L"
  shows "st_queues (route_dead L st s g now ds) = st_queues st"
    and "group_rec L (route_dead L st s g now ds) = group_rec L st"
    and "st_clock (route_dead L st s g now ds) = st_clock st"
  using dead_letters_frame [OF assms]
  by (auto simp: route_dead_def group_rec_def fun_eq_iff split: option.split)

section \<open>The store's operations refine the group's\<close>

lemma elog_get_msg:
  assumes "elog_laws L" and "view_base L l = base_of L st s" and "view_ents L l = msgs L st s"
    and "elog_get L l i = Inr m"
  shows "msg_at L st s (unat i) = Some m"
  using elog_getD [OF assms(1), of l i "fst m" "snd m"] assms(2-4) by (simp add: msg_at_def)

lemma job_object_msg:
  assumes "elog_laws L" and "view_base L l = base_of L st s" and "view_ents L l = msgs L st s"
    and "ob \<in> set (job_object L l ls now (i, a))"
  shows "\<exists>ty p. msg_at L st s (unat i) = Some (ty, p) \<and>
           ob = bj_object [(''index'', [EInt i]), (''attempts'', [EInt a]),
                (''expires_ms'', [EInt (if ls \<noteq> 0 then now + ls else 0)]),
                (''type'', [EInt (int_to_u64 ty)]), (''payload'', [EBin p])]"
proof -
  obtain ty p where m: "elog_get L l i = Inr (ty, p)"
    using assms(4) by (cases "elog_get L l i") (auto simp: job_object_def)
  from elog_get_msg [OF assms(1-3) m] m assms(4) show ?thesis by (simp add: job_object_def)
qed

lemma bjm_takeD:
  assumes laws: "lib_laws L" and take: "bjm_take L st s g n lease_ms = (st', Inr (cnt, out))"
  obtains q0 existed q' js last_ix ls objs where
    "loaded L st s g q0 existed" and "unat last_ix = base_of L st s + length (msgs L st s)"
    and "queue_step q0 (Take (now_ms st) lease_ms n last_ix) = (q', js)"
    and "qrec_wf q' \<Longrightarrow> group_rec L st' s g = Some q'"
    and "\<And>s' g'. s' @ ''/'' @ g' \<noteq> s @ ''/'' @ g \<Longrightarrow> group_rec L st' s' g' = group_rec L st s' g'"
    and "cnt = length objs" and "exact_evs (bj_array objs) \<Longrightarrow> bj_decode L out = Inr (bj_array objs)"
    and "\<And>ob. ob \<in> set objs \<Longrightarrow> \<exists>(i, a) \<in> set js. \<exists>ty p. msg_at L st s (unat i) = Some (ty, p) \<and>
           ob = bj_object [(''index'', [EInt i]), (''attempts'', [EInt a]),
                (''expires_ms'', [EInt ls]), (''type'', [EInt (int_to_u64 ty)]), (''payload'', [EBin p])]"
proof -
  note ll = lib_lawsD [OF laws]
  obtain st1 r1 where op: "queues_open L st = (st1, r1)" by (cases "queues_open L st")
  obtain t where r1: "r1 = Inr t" using take op by (cases r1) (auto simp: bjm_take_def)
  note o = queues_openD [OF ll(2) op]
  obtain qs where st1: "st1 = st\<lparr>st_queues := qs\<rparr>" using o(1) by blast
  obtain st2 r2 where get: "subject_get L st1 s False = (st2, r2)" by (cases "subject_get L st1 s False")
  obtain sb where r2: "r2 = Inr sb" using take op r1 get by (cases r2) (auto simp: bjm_take_def)
  note view = subject_get_view [OF ll(3) get [unfolded r2]] and lg = subject_get_log [OF ll(3) get]
  obtain x y where st2: "st2 = st1\<lparr>st_subs := x, st_files := y\<rparr>" using subject_get_frame [OF get] by blast
  obtain st3 r3 where load: "queue_load L st2 s g = (st3, r3)" by (cases "queue_load L st2 s g")
  obtain q0 existed where r3: "r3 = Inr (q0, existed)"
    using take op r1 get r2 load by (cases r3) (auto simp: bjm_take_def)
  note ld = queue_loadD [OF ll(3,2) load]
  obtain x' y' where st3: "st3 = st2\<lparr>st_subs := x', st_files := y'\<rparr>" using ld(1) by blast
  obtain q1 ls where lf: "lease_for q0 lease_ms = (q1, ls)" by (cases "lease_for q0 lease_ms")
  let ?last = "elog_last_index L (s_log sb)" and ?now = "now_ms st"
  obtain q' js ds where tj: "take_jobs ?now ls (take_limit n) ?last q1 = (q', js, ds)"
    by (cases "take_jobs ?now ls (take_limit n) ?last q1") auto
  obtain st4 r4 where store: "queue_store L st3 s g q' = (st4, r4)" by (cases "queue_store L st3 s g q'")
  have now: "now_ms st3 = ?now" by (simp add: st1 st2 st3 now_ms_def)
  note eqs = bjm_take_def op r1 get r2 load r3 lf now tj store Let_def
  have r4: "r4 = Inr ()" using take by (cases r4) (simp_all add: eqs)
  note sd = queue_storeD [OF ll(1,2) store]
  let ?objs = "concat (map (job_object L (s_log sb) ls ?now) js)"
  obtain e d where bd: "bj_build L (bj_array ?objs) = (e, d)" by (cases "bj_build L (bj_array ?objs)")
  have fin: "e = None" "d = Some out" "st' = route_dead L st4 s g ?now ds" "cnt = length ?objs"
    using take r4 bd by (auto simp: eqs split: option.splits)
  have views: "base_of L st1 s = base_of L st s" "msgs L st1 s = msgs L st s"
    using view_cong [of st1 st] by (simp_all add: st1)
  have gr: "group_rec L st2 = group_rec L st" "group_rec L st3 = group_rec L st"
    using o(2) by (auto simp: st2 st3 intro: trans [OF group_rec_cong])
  have 1: "loaded L st s g q0 existed"
    using ld(4) [OF r3] gr(1) lg views by (auto simp: loaded_def)
  have 2: "unat ?last = base_of L st s + length (msgs L st s)"
    using elog_indexD(2) [OF ll(3)] view views by simp
  have 3: "queue_step q0 (Take ?now lease_ms n ?last) = (q', js)"
    by (simp add: lf tj)
  have 4: "qrec_wf q' \<Longrightarrow> group_rec L st' s g = Some q'"
    using sd(2) r4 fin(3) route_dead_frame(2) [OF ll(2)] by simp
  have 5: "s' @ ''/'' @ g' \<noteq> s @ ''/'' @ g \<Longrightarrow> group_rec L st' s' g' = group_rec L st s' g'" for s' g'
    using sd(3) fin(3) route_dead_frame(2) [OF ll(2)] gr(2) by simp
  have 7: "exact_evs (bj_array ?objs) \<Longrightarrow> bj_decode L out = Inr (bj_array ?objs)"
    using decode_build [OF ll(1) bd [unfolded fin(1,2)]] .
  have 8: "\<exists>(i, a) \<in> set js. \<exists>ty p. msg_at L st s (unat i) = Some (ty, p) \<and>
           ob = bj_object [(''index'', [EInt i]), (''attempts'', [EInt a]),
                (''expires_ms'', [EInt (if ls \<noteq> 0 then ?now + ls else 0)]),
                (''type'', [EInt (int_to_u64 ty)]), (''payload'', [EBin p])]"
    if "ob \<in> set ?objs" for ob
    using that job_object_msg [OF ll(3), of "s_log sb" st s ob ls ?now] view views by fastforce
  show thesis by (rule that [OF 1 2 3 4 5 fin(4) 7 8])
qed

lemma queue_releaseD:
  assumes laws: "lib_laws L" and rel: "queue_release L st s g i drop_it delay = (st', Inr r)"
  shows "(r = None \<and> group_rec L st' = group_rec L st \<and>
            (\<forall>q. group_rec L st s g = Some q \<longrightarrow> i \<notin> l_index ` set (q_fl q))) \<or>
         (\<exists>q q' d. r = Some d \<and> group_rec L st s g = Some q \<and>
            release_job (now_ms st) q i drop_it delay = Some (q', d) \<and>
            (qrec_wf q' \<longrightarrow> group_rec L st' s g = Some q') \<and>
            (\<forall>s' g'. s' @ ''/'' @ g' \<noteq> s @ ''/'' @ g \<longrightarrow> group_rec L st' s' g' = group_rec L st s' g'))"
proof -
  note ll = lib_lawsD [OF laws]
  obtain st1 r1 where op: "queues_open L st = (st1, r1)" by (cases "queues_open L st")
  obtain t where r1: "r1 = Inr t" using rel op by (cases r1) (auto simp: queue_release_def)
  note o = queues_openD [OF ll(2) op]
  obtain qs where st1: "st1 = st\<lparr>st_queues := qs\<rparr>" using o(1) by blast
  obtain st2 r2 where load: "queue_load L st1 s g = (st2, r2)" by (cases "queue_load L st1 s g")
  obtain q ex where r2: "r2 = Inr (q, ex)" using rel op r1 load by (cases r2) (auto simp: queue_release_def)
  note ld = queue_loadD [OF ll(3,2) load]
  obtain x y where st2: "st2 = st1\<lparr>st_subs := x, st_files := y\<rparr>" using ld(1) by blast
  have now: "now_ms st2 = now_ms st" by (simp add: st1 st2 now_ms_def)
  have gr: "group_rec L st2 = group_rec L st"
    using o(2) by (auto simp: st2 intro: trans [OF group_rec_cong])
  note eqs = queue_release_def op r1 load r2 now
  have l: "loaded L st s g q ex" using ld(4) [OF r2] o(2) view_cong(1) [of st1 st L s] by (auto simp: loaded_def st1 split: if_splits)
  show ?thesis
  proof (cases "ex \<and> release_job (now_ms st) q i drop_it delay \<noteq> None")
    case True
    then obtain q' d where job: "release_job (now_ms st) q i drop_it delay = Some (q', d)" by auto
    obtain st3 r3 where store: "queue_store L st2 s g q' = (st3, r3)" by (cases "queue_store L st2 s g q'")
    have "r3 = Inr ()" "st' = st3" "r = Some d"
      using rel True job store by (cases r3; simp add: eqs)+
    then show ?thesis
      using True l job queue_storeD(2,3) [OF ll(1,2) store] gr by (auto simp: loaded_def)
  next
    case False
    then have r: "r = None" "st' = st2" using rel by (auto simp: eqs split: if_splits option.splits)
    have "i \<notin> l_index ` set (q_fl q')" if "group_rec L st s g = Some q'" for q'
    proof -
      have "ex" "q = q'" using l that by (auto simp: loaded_def split: if_splits)
      then have "release_job (now_ms st) q' i drop_it delay = None" using False by blast
      then have "fl_find q' i = None" by (auto simp: release_job_def Let_def split: option.splits if_splits)
      then show ?thesis using fl_findD(2) by auto
    qed
    with r gr show ?thesis by auto
  qed
qed

section \<open>The floor\<close>

lemma fold_min_le:
  "fold (\<lambda>l owed. if l_index l < owed then l_index l else owed) fl (m :: u64) \<le> m \<and>
   (\<forall>l \<in> set fl. fold (\<lambda>l owed. if l_index l < owed then l_index l else owed) fl m \<le> l_index l)"
proof (induction fl arbitrary: m)
  case Nil
  then show ?case by simp
next
  case (Cons l fl)
  from Cons.IH [of "if l_index l < m then l_index l else m"] show ?case
    by (auto split: if_splits dest: order_trans less_imp_le)
qed

lemma pred_below: "(m :: u64) \<le> x \<Longrightarrow> x > 0 \<Longrightarrow> (if m > 0 then m - 1 else 0) < x"
proof -
  assume "m \<le> x" and "x > 0"
  show ?thesis
  proof (cases "m > 0")
    case True
    then have "unat (m - 1) = unat m - 1" and "0 < unat m" by (simp_all add: unat_pred_u64 unat_gt_0 word_gt_0)
    with \<open>m \<le> x\<close> True show ?thesis by (simp add: word_less_nat_alt word_le_nat_alt)
  next
    case False
    with \<open>x > 0\<close> show ?thesis by simp
  qed
qed

lemma owed_floor_below:
  "q_next q > 0 \<Longrightarrow> owed_floor q < q_next q"
  "l \<in> set (q_fl q) \<Longrightarrow> l_index l > 0 \<Longrightarrow> owed_floor q < l_index l"
proof -
  let ?m = "fold (\<lambda>l owed. if l_index l < owed then l_index l else owed) (q_fl q) (q_next q)"
  have f: "owed_floor q = (if ?m > 0 then ?m - 1 else 0)" by (simp add: owed_floor_def Let_def)
  have *: "owed_floor q < x" if "?m \<le> x" "x > 0" for x
    unfolding f by (rule pred_below [OF that])
  show "q_next q > 0 \<Longrightarrow> owed_floor q < q_next q"
    "l \<in> set (q_fl q) \<Longrightarrow> l_index l > 0 \<Longrightarrow> owed_floor q < l_index l"
    using * fold_min_le [of "q_fl q" "q_next q"] by auto
qed

lemma fold_floor_le:
  "fst (fold (floor_step L nlo) es (f0, n0)) \<le> f0 \<and>
   ((k, val) \<in> set es \<longrightarrow> nlo < length k \<longrightarrow> decode_queue L val = Inr q \<longrightarrow>
      fst (fold (floor_step L nlo) es (f0, n0)) \<le> owed_floor q)"
proof (induction es arbitrary: f0 n0)
  case Nil
  then show ?case by simp
next
  case (Cons e es)
  obtain f1 n1 where s: "floor_step L nlo e (f0, n0) = (f1, n1)" by (cases "floor_step L nlo e (f0, n0)")
  have "f1 \<le> f0" using s by (cases e) (auto simp: Let_def split: if_splits sum.splits)
  moreover have "f1 \<le> owed_floor q" if "e = (k, val)" "nlo < length k" "decode_queue L val = Inr q"
    using s that by (auto simp: Let_def split: if_splits)
  ultimately show ?case using Cons.IH [of f1 n1] s by (auto intro: order_trans)
qed

lemma queue_floorD:
  assumes laws: "bpt_laws L" and floor: "bjm_queue_floor L st s = (st', r)"
  shows "st' = st\<lparr>st_queues := st_queues st'\<rparr>" and "group_rec L st' = group_rec L st"
    and "r = Inr (f, n) \<Longrightarrow> group_rec L st s g = Some q \<Longrightarrow> g \<noteq> [] \<Longrightarrow> f \<le> owed_floor q"
proof -
  obtain st1 r1 where op: "queues_open L st = (st1, r1)" by (cases "queues_open L st")
  note o = queues_openD [OF laws op]
  have "st' = st1"
    using floor op by (auto simp: bjm_queue_floor_def queue_range_def split: sum.splits option.splits)
  with o show "st' = st\<lparr>st_queues := st_queues st'\<rparr>" "group_rec L st' = group_rec L st" by auto
  assume r: "r = Inr (f, n)" and g: "group_rec L st s g = Some q" "g \<noteq> []"
  obtain t where t: "r1 = Inr t" using floor op r by (cases r1) (auto simp: bjm_queue_floor_def)
  obtain es where cur: "bpt_cursor L t (Some (s @ ''/'')) (Some (s @ ''0'')) = Some (es, None)"
      and f: "f = fst (fold (floor_step L (length s + 1)) es (UINT64_MAX, 0))"
    using floor op r t
    by (auto simp: bjm_queue_floor_def queue_range_def split: option.splits)
  obtain b where b: "view_tree L t (s @ ''/'' @ g) = Some b" "decode_queue L b = Inr q"
    using g(1) o(3) [OF t] by (auto simp: group_rec_def split: option.splits sum.splits)
  have "s @ ''/'' \<le> s @ ''/'' @ g \<and> s @ ''/'' @ g < s @ ''0''" using key_in_range by blast
  then have "(s @ ''/'' @ g, b) \<in> set es"
    using bpt_cursorD(5) [OF laws cur refl b(1)] by simp
  with fold_floor_le [of L "length s + 1" es UINT64_MAX 0 "s @ ''/'' @ g" b q] b(2) g(2) f
  show "f \<le> owed_floor q" by auto
qed

section \<open>Backoff\<close>

lemma backoff_capped: "q_max_backoff_ms q \<noteq> 0 \<Longrightarrow> backoff_for q a \<le> q_max_backoff_ms q"
  by (auto simp: backoff_for_def Let_def not_less)

lemma backoff_doubles:
  assumes "q_max_backoff_ms q \<noteq> 0" and "1 \<le> unat a" and "unat a \<le> 31"
    and "unat (q_backoff_ms q) * 2 ^ (unat a - 1) < 2 ^ 64"
  shows "unat (backoff_for q a) = min (unat (q_backoff_ms q) * 2 ^ (unat a - 1)) (unat (q_max_backoff_ms q))"
proof -
  have "unat (a - 1) = unat a - 1" using assms(2) by (intro unat_pred_u64) (simp add: unat_gt_0 word_gt_0, auto)
  then have sh: "unat (ucast (a - 1) :: 32 word) = unat a - 1"
    using assms(3) by (simp add: unsigned_ucast_eq take_bit_nat_eq_self)
  have a: "a > 0" using assms(2) by (auto simp: word_gt_0)
  let ?d = "push_bit (unat a - 1) (q_backoff_ms q)"
  have d: "unat ?d = unat (q_backoff_ms q) * 2 ^ (unat a - 1)"
  proof -
    have "unat ?d = take_bit 64 (push_bit (unat a - 1) (unat (q_backoff_ms q)))"
      by (simp add: unsigned_push_bit_eq)
    with assms(4) show ?thesis by (simp add: push_bit_eq_mult take_bit_nat_eq_self)
  qed
  then have "\<not> ?d < q_backoff_ms q" by (simp add: word_less_nat_alt)
  moreover have "\<not> 30 < unat a - Suc 0" using assms(3) by arith
  ultimately show ?thesis
    using assms sh a d by (simp add: backoff_for_def Let_def word_less_nat_alt min_def)
qed

section \<open>The dead-letter channel\<close>

lemma msg_at_cong:
  "base_of L st' m = base_of L st m \<Longrightarrow> msgs L st' m = msgs L st m \<Longrightarrow> msg_at L st' m i = msg_at L st m i"
  by (simp add: msg_at_def)

lemma subject_get_msg_at:
  "elog_laws L \<Longrightarrow> subject_get L st n c = (st', r) \<Longrightarrow> msg_at L st' m i = msg_at L st m i"
  by (rule msg_at_cong; rule subject_get_log)

lemma publish_msg_at:
  assumes "elog_laws L" "bpt_laws L" and "bjm_publish L st n ty p = (st', r)" and "m \<noteq> n"
  shows "msg_at L st' m i = msg_at L st m i"
  using publish_logs(1,2) [OF assms(1-3)] assms(4) by (simp add: msg_at_def)

text \<open>
  What routing adds: envelopes of buried jobs at the end of the dead-letter channel, each built
  from the message the job was about. Every other subject is left alone.
\<close>

lemma dead_letters_log:
  assumes laws: "elog_laws L" "bpt_laws L" and other: "d \<noteq> s"
  shows "(m \<noteq> d \<longrightarrow> msgs L (dead_letters L st s g d now ds) m = msgs L st m) \<and>
         base_of L (dead_letters L st s g d now ds) m = base_of L st m \<and>
         (\<exists>E. msgs L (dead_letters L st s g d now ds) d = msgs L st d @ E \<and>
            (\<forall>(k, b) \<in> set E. k = BJM_ENTRY_PLAIN \<and>
               (\<exists>(i, a) \<in> set ds. \<exists>ty p. msg_at L st s (unat i) = Some (ty, p) \<and>
                  snd (bj_build L (dead_envelope s g i a now ty p)) = Some b)))"
proof (induction ds arbitrary: st)
  case Nil
  then show ?case by simp
next
  case (Cons j ds)
  obtain i a where j: "j = (i, a)" by (cases j)
  obtain st1 r where get: "subject_get L st s False = (st1, r)" by (cases "subject_get L st s False")
  note g = subject_get_log [OF laws(1) get] subject_get_msg_at [OF laws(1) get]
  have weaken: "\<exists>(i, a) \<in> set (j # ds). P i a" if "\<exists>(i, a) \<in> set ds. P i a" for P
    using that by auto
  show ?case
  proof (cases r)
    case (Inl e)
    with get g j show ?thesis by simp
  next
    case (Inr src)
    show ?thesis
    proof (cases "elog_get L (s_log src) i")
      case (Inl e)
      with get Inr j have "dead_letters L st s g d now (j # ds) = dead_letters L st1 s g d now ds" by simp
      with Cons.IH [of st1] g show ?thesis by fastforce
    next
      case msg: (Inr m0)
      obtain ty p where m0: "m0 = (ty, p)" by (cases m0)
      have at: "msg_at L st s (unat i) = Some (ty, p)"
        using elog_get_msg [OF laws(1) _ _ msg, of st s] subject_get_view [OF laws(1) get [unfolded Inr]] m0
        by simp
      show ?thesis
      proof (cases "snd (bj_build L (dead_envelope s g i a now ty p))")
        case None
        with get Inr j msg m0 have "dead_letters L st s g d now (j # ds) = dead_letters L st1 s g d now ds" by simp
        with Cons.IH [of st1] g show ?thesis by fastforce
      next
        case (Some dv)
        obtain st2 r2 where pub: "bjm_publish L st1 d BJM_ENTRY_PLAIN dv = (st2, r2)"
          by (cases "bjm_publish L st1 d BJM_ENTRY_PLAIN dv")
        have e: "dead_letters L st s g d now (j # ds) = dead_letters L st2 s g d now ds"
          using get Inr j msg m0 Some pub by simp
        note pl = publish_logs [OF laws pub]
        have at2: "msg_at L st2 s k = msg_at L st s k" for k
          using publish_msg_at [OF laws pub] other g(3) by metis
        obtain E0 where E0: "msgs L st2 d = msgs L st d @ E0" "E0 = [] \<or> E0 = [(BJM_ENTRY_PLAIN, dv)]"
          using pl(5) g(2) by (metis append_Nil2)
        from Cons.IH [of st2] obtain E where
          IH: "m \<noteq> d \<longrightarrow> msgs L (dead_letters L st2 s g d now ds) m = msgs L st2 m"
            "base_of L (dead_letters L st2 s g d now ds) m = base_of L st2 m"
            "msgs L (dead_letters L st2 s g d now ds) d = msgs L st2 d @ E"
            "\<forall>(k, b) \<in> set E. k = BJM_ENTRY_PLAIN \<and>
               (\<exists>(i, a) \<in> set ds. \<exists>ty p. msg_at L st2 s (unat i) = Some (ty, p) \<and>
                  snd (bj_build L (dead_envelope s g i a now ty p)) = Some b)" by auto
        have "\<forall>(k, b) \<in> set (E0 @ E). k = BJM_ENTRY_PLAIN \<and>
               (\<exists>(i, a) \<in> set (j # ds). \<exists>ty p. msg_at L st s (unat i) = Some (ty, p) \<and>
                  snd (bj_build L (dead_envelope s g i a now ty p)) = Some b)"
          using E0(2) IH(4) at Some j unfolding at2 by fastforce
        then show ?thesis
          using e IH(1-3) E0(1) pl(1,2) g by (intro conjI exI [of _ "E0 @ E"]) simp_all
      qed
    qed
  qed
qed

lemma dead_subject_differs: "dead_subject_of s cap = Some d \<Longrightarrow> d \<noteq> s"
  by (auto simp: dead_subject_of_def Let_def BJM_DEAD_SUFFIX_def split: if_splits)

lemma requeue_envelope:
  assumes laws: "lib_laws L" and req: "bjm_requeue L st s i = (st', Inr j)"
    and dead: "dead_subject_of s (BJM_SUBJECT_MAX + 1) = Some d"
    and at: "msg_at L st d (unat i) = Some (k, b)" and dec: "bj_decode L b = Inr (dead_envelope s g x a n ty p)"
    and valid: "bjm_subject_valid s" and ty: "ty = BJM_ENTRY_PLAIN \<or> ty = BJM_ENTRY_ENVELOPE"
  shows "msgs L st' s = msgs L st s @ [(ty, p)]"
    and "unat j = base_of L st s + length (msgs L st s) + 1"
    and "m \<noteq> s \<Longrightarrow> msgs L st' m = msgs L st m"
proof -
  note ll = lib_lawsD [OF laws]
  obtain st1 r1 where get: "subject_get L st d False = (st1, r1)" by (cases "subject_get L st d False")
  obtain sb where r1: "r1 = Inr sb" using req get dead by (cases r1) (auto simp: bjm_requeue_def)
  obtain m0 where m0: "elog_get L (s_log sb) i = Inr m0"
    using req get dead r1 by (cases "elog_get L (s_log sb) i") (auto simp: bjm_requeue_def)
  have "msg_at L st d (unat i) = Some m0"
    using elog_get_msg [OF ll(3) _ _ m0] subject_get_view [OF ll(3) get [unfolded r1]] by blast
  then have m: "m0 = (k, b)" using at by simp
  have pub: "bjm_publish L st1 s ty p = (st', Inr j)"
    using req get dead r1 m0 m dec valid envelope_roundtrip [OF valid ty, of g x a n p]
    by (simp add: bjm_requeue_def)
  note g = subject_get_log [OF ll(3) get]
  from publish_logs [OF ll(3,2) pub] g show "msgs L st' s = msgs L st s @ [(ty, p)]"
    "unat j = base_of L st s + length (msgs L st s) + 1"
    "m \<noteq> s \<Longrightarrow> msgs L st' m = msgs L st m" by auto
qed

section \<open>The earliest due time\<close>

lemma earliest_dueD:
  "earliest_due fl due = None \<longleftrightarrow> fl = [] \<and> due = None"
  "earliest_due fl due = Some d \<Longrightarrow> (\<forall>l \<in> set fl. d \<le> l_expires l) \<and> (\<forall>e. due = Some e \<longrightarrow> d \<le> e) \<and>
     ((\<exists>l \<in> set fl. l_expires l = d) \<or> due = Some d)"
proof -
  show "earliest_due fl due = None \<longleftrightarrow> fl = [] \<and> due = None"
    by (induction fl arbitrary: due) (auto split: option.splits)
  show "earliest_due fl due = Some d \<Longrightarrow> (\<forall>l \<in> set fl. d \<le> l_expires l) \<and> (\<forall>e. due = Some e \<longrightarrow> d \<le> e) \<and>
     ((\<exists>l \<in> set fl. l_expires l = d) \<or> due = Some d)"
  proof (induction fl arbitrary: due)
    case Nil
    then show ?case by simp
  next
    case (Cons l fl)
    from Cons.IH [of "case due of None \<Rightarrow> Some (l_expires l)
        | Some d \<Rightarrow> if l_expires l < d then Some (l_expires l) else Some d"] Cons.prems
    show ?case by (auto split: option.splits if_splits)
  qed
qed

end
