(* ===== verification/Retention.thy ===== *)
theory Retention
  imports Receipts Queue
begin

text \<open>
  Trimming a log, the boundary a policy implies, one pass of retention over every policy
  (\<open>bjm_trim\<close>, \<open>policy_boundary\<close>, \<open>bjm_retention_run\<close>), and listing the subjects
  (\<open>for_each_subject\<close>, \<open>bjm_subject_count\<close>, \<open>bjm_subjects\<close>; \<open>src/src/store.c\<close>).
\<close>

section \<open>Trimming\<close>

definition tmp_file :: "string \<Rightarrow> string" where
  "tmp_file name = name @ SUBJECT_SUFFIX @ ''.tmp''"

text \<open>
  What a subscription or a queue group may still be owed: the lower of the two bounds, and
  \<open>UINT64_MAX\<close> when there is neither.
\<close>

definition protect_bound ::
    "('t, 'l) lib \<Rightarrow> ('t, 'l) store \<Rightarrow> string \<Rightarrow> ('t, 'l) store \<times> u64 res" where
  "protect_bound L st name =
     (case bjm_consumer_stats L st name of
        (st, Inl e) \<Rightarrow> (st, Inl e)
      | (st, Inr (nconsumers, min_acked)) \<Rightarrow>
          let protect = (if nconsumers > 0 then min_acked else UINT64_MAX) in
          (case bjm_queue_floor L st name of
             (st, Inl e) \<Rightarrow> (st, Inl e)
           | (st, Inr (qfloor, ngroups)) \<Rightarrow>
               (st, Inr (if ngroups > 0 \<and> qfloor < protect then qfloor else protect))))"

text \<open>
  The new base: below \<open>before\<close>, not beyond the end, and unless the trim is forced not beyond the
  protected bound.
\<close>

definition trim_target ::
    "('t, 'l) lib \<Rightarrow> ('t, 'l) store \<Rightarrow> string \<Rightarrow> u64 \<Rightarrow> u64 \<Rightarrow> bool \<Rightarrow> ('t, 'l) store \<times> u64 res" where
  "trim_target L st name last_ix before force =
     (let new_base = (if before > 0 then before - 1 else 0);
          new_base = (if new_base > last_ix then last_ix else new_base)
      in if force then (st, Inr new_base)
         else (case protect_bound L st name of
                 (st, Inl e) \<Rightarrow> (st, Inl e)
               | (st, Inr protect) \<Rightarrow>
                   (st, Inr (if protect \<noteq> UINT64_MAX \<and> new_base > protect then protect else new_base))))"

text \<open>
  Open the live name again after the replace, or after its refusal: the subject's handle, or its
  entry dropped from the table. A file the model holds always opens; the other branch is the
  code's answer to a host that loses it.
\<close>

definition trim_reopen ::
    "('t, 'l) lib \<Rightarrow> ('t, 'l) store \<Rightarrow> string \<Rightarrow> ('t, 'l) store \<times> 'l option" where
  "trim_reopen L st name =
     (case open_file L False None (st_files st (elog_file name)) of
        (_, Inr l) \<Rightarrow> (upd_sub st name (\<lambda>s. s\<lparr>s_log := l\<rparr>), Some l)
      | (_, Inl _) \<Rightarrow> (st\<lparr>st_subs := filter (\<lambda>s. s_name s \<noteq> name) (st_subs st)\<rparr>, None))"

text \<open>The replace itself; when the host refuses, the old log stays.\<close>

definition trim_swap ::
    "('t, 'l) lib \<Rightarrow> ('t, 'l) store \<Rightarrow> string \<Rightarrow> 'l \<Rightarrow> 'l \<Rightarrow> u64 \<Rightarrow> bool \<Rightarrow> ('t, 'l) store \<times> (u64 \<times> u64) res"
  where
  "trim_swap L st name lg lg' base adopted =
     (let st = st\<lparr>st_files := (st_files st)(tmp_file name := Absent,
                 elog_file name := Holds (if adopted then lg' else lg))\<rparr>
      in (case trim_reopen L st name of
            (st, None) \<Rightarrow> (st, Inl BJ_ERR_STATE)
          | (st, Some l) \<Rightarrow>
              let out_base = elog_base_index L l;
                  removed = (if out_base > base then out_base - base else 0);
                  st = (case st_policy st of
                          Opened _ \<Rightarrow> if removed \<noteq> 0 then marks_prune L st name out_base else st
                        | Closed _ \<Rightarrow> st)
              in (st, if adopted then Inr (out_base, removed) else Inl BJ_ERR_STATE)))"

text \<open>Replace the log by its compaction, written to a temporary file that the host then adopts.\<close>

definition trim_adopt ::
    "('t, 'l) lib \<Rightarrow> ('t, 'l) store \<Rightarrow> string \<Rightarrow> 'l \<Rightarrow> u64 \<Rightarrow> u64 \<Rightarrow> (string \<Rightarrow> string \<Rightarrow> bool)
      \<Rightarrow> ('t, 'l) store \<times> (u64 \<times> u64) res" where
  "trim_adopt L st name lg base new_base adopt =
     (case elog_term_at L lg new_base of
        Inl e \<Rightarrow> (st, Inl e)
      | Inr tm \<Rightarrow>
          if length (elog_file name) \<ge> BJM_SUBJECT_MAX + length SUBJECT_SUFFIX + 1 \<or>
             length (tmp_file name) \<ge> BJM_SUBJECT_MAX + length SUBJECT_SUFFIX + 9
          then (st, Inl BJ_ERR_RANGE)
          else
            (case st_files st (tmp_file name) of
               Unopenable e \<Rightarrow> (st, Inl e)
             | _ \<Rightarrow>
                 (case elog_compact L lg new_base tm of
                    Inl e \<Rightarrow> (st\<lparr>st_files := (st_files st)(tmp_file name := Absent)\<rparr>, Inl e)
                  | Inr lg' \<Rightarrow>
                      trim_swap L st name lg lg' base (adopt (tmp_file name) (elog_file name)))))"

text \<open>\<open>(base, removed)\<close>.\<close>

definition bjm_trim ::
    "('t, 'l) lib \<Rightarrow> ('t, 'l) store \<Rightarrow> string \<Rightarrow> u64 \<Rightarrow> bool \<Rightarrow> ('t, 'l) store \<times> (u64 \<times> u64) res" where
  "bjm_trim L st name before force =
     (case st_adopt st of
        None \<Rightarrow> (st, Inl BJ_ERR_STATE)
      | Some adopt \<Rightarrow>
          (case subject_get L st name False of
             (st, Inl e) \<Rightarrow> (st, Inl e)
           | (st, Inr s) \<Rightarrow>
               let base = elog_base_index L (s_log s); last_ix = elog_last_index L (s_log s) in
               (case trim_target L st name last_ix before force of
                  (st, Inl e) \<Rightarrow> (st, Inl e)
                | (st, Inr new_base) \<Rightarrow>
                    if new_base \<le> base then (st, Inr (base, 0))
                    else trim_adopt L st name (s_log s) base new_base adopt)))"

section \<open>The boundary of a policy\<close>

definition count_boundary :: "u64 \<Rightarrow> u64 \<Rightarrow> u64 \<Rightarrow> u64" where
  "count_boundary max_messages live last_ix =
     (if max_messages \<noteq> 0 \<and> live > max_messages then last_ix - max_messages + 1 else 0)"

text \<open>How many messages a log of \<open>bytes\<close> bytes has to lose, from their average size.\<close>

definition bytes_drop :: "u64 \<Rightarrow> u64 \<Rightarrow> u64 \<Rightarrow> u64" where
  "bytes_drop bytes live max_bytes =
     (let avg = bytes div live;
          avg = (if avg = 0 then 1 else avg);
          n = (bytes - max_bytes + avg - 1) div avg
      in if n > live then live else n)"

definition bytes_boundary :: "u64 \<Rightarrow> u64 \<Rightarrow> u64 \<Rightarrow> u64 \<Rightarrow> u64" where
  "bytes_boundary max_bytes bytes base live =
     (if max_bytes \<noteq> 0 \<and> bytes > max_bytes then base + bytes_drop bytes live max_bytes + 1 else 0)"

text \<open>The newest mark older than the cutoff.\<close>

fun age_boundary :: "u64 \<Rightarrow> marks \<Rightarrow> u64 \<Rightarrow> u64" where
  "age_boundary cutoff (i # t # m) b =
     age_boundary cutoff m (if t < cutoff \<and> i + 1 > b then i + 1 else b)"
| "age_boundary cutoff _ b = b"

definition policy_boundary ::
    "('t, 'l) lib \<Rightarrow> ('t, 'l) store \<Rightarrow> 'l subject \<Rightarrow> bjm_policy \<Rightarrow> u64 \<Rightarrow> u64" where
  "policy_boundary L st s p now =
     (let base = elog_base_index L (s_log s);
          last_ix = elog_last_index L (s_log s);
          live = last_ix - base
      in if live = 0 then 0
         else
           let before = count_boundary (p_max_messages p) live last_ix;
               b = bytes_boundary (p_max_bytes p) (elog_file_len L (s_log s)) base live;
               before = (if b > before then b else before)
           in if p_max_age_s p \<noteq> 0 \<and> now > p_max_age_s p then
                (case marks_load L st (s_name s) of
                   Inl _ \<Rightarrow> before
                 | Inr m \<Rightarrow> let b = age_boundary (now - p_max_age_s p) m 0 in if b > before then b else before)
              else before)"

section \<open>A retention pass\<close>

text \<open>The subjects that have a policy, as C strings.\<close>

definition policy_names :: "(string \<times> bytes) list \<Rightarrow> string list" where
  "policy_names es =
     map (\<lambda>k. c_str (drop 2 k)) (filter (\<lambda>k. \<not> (length k \<le> 2 \<or> length k - 2 > BJM_SUBJECT_MAX)) (map fst es))"

text \<open>One subject of the pass; whatever fails skips it.\<close>

definition retain_one ::
    "('t, 'l) lib \<Rightarrow> u64 \<Rightarrow> string \<Rightarrow> ('t, 'l) store \<times> u64 \<times> nat \<Rightarrow> ('t, 'l) store \<times> u64 \<times> nat" where
  "retain_one L now name x =
     (case x of (st, removed, trimmed) \<Rightarrow>
        (case bjm_policy_get L st name of
           (st, Inr (Some p)) \<Rightarrow>
             (case subject_get L st name False of
                (st, Inl _) \<Rightarrow> (st, removed, trimmed)
              | (st, Inr s) \<Rightarrow>
                  let before = policy_boundary L st s p now in
                  if before = 0 then (st, removed, trimmed)
                  else (case bjm_trim L st name before (p_ignore_consumers p) of
                          (st, Inl _) \<Rightarrow> (st, removed, trimmed)
                        | (st, Inr (_, got)) \<Rightarrow>
                            if got \<noteq> 0 then (st, removed + got, trimmed + 1) else (st, removed, trimmed)))
         | (st, _) \<Rightarrow> (st, removed, trimmed)))"

text \<open>\<open>(removed, trimmed)\<close>.\<close>

definition bjm_retention_run ::
    "('t, 'l) lib \<Rightarrow> ('t, 'l) store \<Rightarrow> u64 \<Rightarrow> ('t, 'l) store \<times> (u64 \<times> nat) res" where
  "bjm_retention_run L st now =
     (case policy_open L st of
        (st, Inl e) \<Rightarrow> (st, Inl e)
      | (st, Inr t) \<Rightarrow>
          (case bpt_cursor L t (Some ''p/'') (Some ''p0'') of
             None \<Rightarrow> (st, Inl BJ_ERR_STATE)
           | Some (es, Some e) \<Rightarrow> (st, Inl e)
           | Some (es, None) \<Rightarrow>
               (case fold (retain_one L now) (policy_names es) (st, 0, 0) of
                  (st, removed, trimmed) \<Rightarrow> (st, Inr (removed, trimmed)))))"

section \<open>Discovery\<close>

text \<open>A NUL-separated listing, entry by entry.\<close>

function split_listing :: "string \<Rightarrow> string list" where
  "split_listing names =
     (if names = [] then []
      else let entry = takeWhile (\<lambda>c. c \<noteq> CHR 0x00) names
           in entry # split_listing (drop (length entry + 1) names))"
  by pat_completeness auto
termination
  by (relation "measure length") (auto simp: Let_def)

declare split_listing.simps [simp del]

lemma split_listing_Cons:
  "CHR 0x00 \<notin> set e \<Longrightarrow> split_listing (e @ CHR 0x00 # r) = e # split_listing r"
  by (subst split_listing.simps) (simp add: sep_split Let_def)

lemma split_listing_concat:
  "\<forall>e \<in> set es. CHR 0x00 \<notin> set e \<Longrightarrow> split_listing (concat (map (\<lambda>e. e @ [CHR 0x00]) es)) = es"
  by (induction es) (simp_all add: split_listing_Cons split_listing.simps [of "[]"])

definition subject_of_entry :: "string \<Rightarrow> string option" where
  "subject_of_entry entry =
     (let n = length entry; suffix_len = length SUBJECT_SUFFIX in
      if n \<le> suffix_len then None
      else if drop (n - suffix_len) entry \<noteq> SUBJECT_SUFFIX then None
      else Some (take (n - suffix_len) entry))"

definition for_each_subject :: "(string \<Rightarrow> 'a \<Rightarrow> 'a) \<Rightarrow> string \<Rightarrow> 'a \<Rightarrow> 'a" where
  "for_each_subject fn names a = fold fn (List.map_filter subject_of_entry (split_listing names)) a"

definition bjm_subject_count :: "string \<Rightarrow> nat" where
  "bjm_subject_count names = for_each_subject (\<lambda>_ n. n + 1) names 0"

definition put_one :: "string option \<Rightarrow> string \<Rightarrow> ev list list \<Rightarrow> ev list list" where
  "put_one pattern name out =
     (case pattern of
        None \<Rightarrow> out @ [[EStr name]]
      | Some p \<Rightarrow>
          if length name > BJM_SUBJECT_MAX then out
          else if \<not> bjm_pattern_match p name then out
          else out @ [[EStr name]])"

definition bjm_subjects :: "('t, 'l) lib \<Rightarrow> string \<Rightarrow> string option \<Rightarrow> bytes res" where
  "bjm_subjects L names pattern =
     bj_finish L (bj_array (for_each_subject (put_one pattern) names []))"

section \<open>What protects a message\<close>

lemma fold_stats_le:
  "snd (fold (stats_step L) es (n0, m0)) \<le> m0 \<and> n0 \<le> fst (fold (stats_step L) es (n0, m0)) \<and>
   ((k, val) \<in> set es \<longrightarrow> decode_index L val = Inr a \<longrightarrow>
      snd (fold (stats_step L) es (n0, m0)) \<le> a \<and> n0 < fst (fold (stats_step L) es (n0, m0)))"
proof (induction es arbitrary: n0 m0)
  case Nil
  then show ?case by simp
next
  case (Cons e es)
  obtain n1 m1 where s: "stats_step L e (n0, m0) = (n1, m1)" by (cases "stats_step L e (n0, m0)")
  have "m1 \<le> m0" "n0 \<le> n1" using s by (cases e; auto split: if_splits sum.splits)+
  moreover have "m1 \<le> a \<and> n0 < n1" if "e = (k, val)" "decode_index L val = Inr a"
    using s that by (auto split: if_splits)
  ultimately show ?case using Cons.IH [of n1 m1] s by (auto intro: order_trans)
qed

lemma consumer_statsD:
  assumes laws: "bpt_laws L" and stats: "bjm_consumer_stats L st s = (st', r)"
  shows "st' = st\<lparr>st_cursors := st_cursors st'\<rparr>" and "receipt L st' = receipt L st"
    and "r = Inr (n, m) \<Longrightarrow> receipt L st s c = Some a \<Longrightarrow> m \<le> a \<and> 0 < n"
proof -
  obtain st1 r1 where op: "cursors_open L st = (st1, r1)" by (cases "cursors_open L st")
  note o = tree_openD(1) [OF laws op]
  have "st' = st1"
    using stats op by (auto simp: bjm_consumer_stats_def consumer_range_def split: sum.splits option.splits)
  with o show "st' = st\<lparr>st_cursors := st_cursors st'\<rparr>" "receipt L st' = receipt L st"
    by (auto intro: receipt_cong)
  assume r: "r = Inr (n, m)" and c: "receipt L st s c = Some a"
  obtain t where t: "r1 = Inr t" using stats op r by (cases r1) (auto simp: bjm_consumer_stats_def)
  obtain es where cur: "bpt_cursor L t (Some (s @ ''/'')) (Some (s @ ''0'')) = Some (es, None)"
      and f: "fold (stats_step L) es (0, UINT64_MAX) = (n, m)"
    using stats op r t
    by (auto simp: bjm_consumer_stats_def consumer_range_def split: option.splits)
  obtain b where b: "view_tree L t (s @ ''/'' @ c) = Some b" "decode_index L b = Inr a"
    using c o t by (auto simp: receipt_def split: option.splits sum.splits)
  have "s @ ''/'' \<le> s @ ''/'' @ c \<and> s @ ''/'' @ c < s @ ''0''" using key_in_range by blast
  then have "(s @ ''/'' @ c, b) \<in> set es"
    using bpt_cursorD(5) [OF laws cur refl b(1)] by simp
  with fold_stats_le [of L es 0 UINT64_MAX "s @ ''/'' @ c" b a] b(2) f
  show "m \<le> a \<and> 0 < n" by simp
qed

lemma floor_count:
  assumes laws: "bpt_laws L" and floor: "bjm_queue_floor L st s = (st', Inr (f, n))"
    and q: "group_rec L st s g = Some q" "g \<noteq> []"
  shows "0 < n"
proof -
  have mono: "n0 \<le> snd (fold (floor_step L nlo) es (f0, n0)) \<and>
      ((k, val) \<in> set es \<longrightarrow> nlo < length k \<longrightarrow> decode_queue L val = Inr q \<longrightarrow>
        n0 < snd (fold (floor_step L nlo) es (f0, n0)))" for es f0 n0 nlo k val
  proof (induction es arbitrary: f0 n0)
    case Nil
    then show ?case by simp
  next
    case (Cons e es)
    obtain f1 n1 where s: "floor_step L nlo e (f0, n0) = (f1, n1)" by (cases "floor_step L nlo e (f0, n0)")
    have "n0 \<le> n1" using s by (cases e) (auto simp: Let_def split: if_splits sum.splits)
    moreover have "n0 < n1" if "e = (k, val)" "nlo < length k" "decode_queue L val = Inr q"
      using s that by (auto simp: Let_def split: if_splits)
    ultimately show ?case using Cons.IH [of n1 f1] s by fastforce
  qed
  obtain st1 r1 where op: "queues_open L st = (st1, r1)" by (cases "queues_open L st")
  note o = queues_openD [OF laws op]
  obtain t where t: "r1 = Inr t" using floor op by (cases r1) (auto simp: bjm_queue_floor_def)
  obtain es where cur: "bpt_cursor L t (Some (s @ ''/'')) (Some (s @ ''0'')) = Some (es, None)"
      and f: "fold (floor_step L (length s + 1)) es (UINT64_MAX, 0) = (f, n)"
    using floor op t
    by (auto simp: bjm_queue_floor_def queue_range_def split: option.splits)
  obtain b where b: "view_tree L t (s @ ''/'' @ g) = Some b" "decode_queue L b = Inr q"
    using q(1) o(3) [OF t] by (auto simp: group_rec_def split: option.splits sum.splits)
  have "s @ ''/'' \<le> s @ ''/'' @ g \<and> s @ ''/'' @ g < s @ ''0''" using key_in_range by blast
  then have "(s @ ''/'' @ g, b) \<in> set es"
    using bpt_cursorD(5) [OF laws cur refl b(1)] by simp
  with mono [of 0 "length s + 1" es UINT64_MAX "s @ ''/'' @ g" b] b(2) q(2) f
  show "0 < n" by auto
qed

lemma protect_boundD:
  assumes laws: "bpt_laws L" and pb: "protect_bound L st s = (st', r)"
  shows "st' = st\<lparr>st_cursors := st_cursors st', st_queues := st_queues st'\<rparr>"
    and "receipt L st' = receipt L st" and "group_rec L st' = group_rec L st"
    and "r = Inr p \<Longrightarrow> receipt L st s c = Some a \<Longrightarrow> p \<le> a"
    and "r = Inr p \<Longrightarrow> group_rec L st s g = Some q \<Longrightarrow> g \<noteq> [] \<Longrightarrow> p \<le> owed_floor q"
proof -
  obtain st1 r1 where cs: "bjm_consumer_stats L st s = (st1, r1)" by (cases "bjm_consumer_stats L st s")
  obtain st2 r2 where qf: "bjm_queue_floor L st1 s = (st2, r2)" by (cases "bjm_queue_floor L st1 s")
  note c = consumer_statsD [OF laws cs] and q = queue_floorD [OF laws qf] and n = floor_count [OF laws]
  obtain x where x: "st1 = st\<lparr>st_cursors := x\<rparr>" using c(1) by blast
  obtain y where y: "st2 = st1\<lparr>st_queues := y\<rparr>" using q(1) by blast
  have "st' = st1 \<or> st' = st2"
    using pb cs qf by (auto simp: protect_bound_def Let_def split: sum.splits)
  moreover have "group_rec L st1 = group_rec L st" "receipt L st2 = receipt L st1"
    by (auto simp: x y intro: group_rec_cong receipt_cong)
  ultimately show "st' = st\<lparr>st_cursors := st_cursors st', st_queues := st_queues st'\<rparr>"
    "receipt L st' = receipt L st" "group_rec L st' = group_rec L st"
    using c(2) q(2) by (auto simp: x y)
  assume r: "r = Inr p"
  obtain nc mn where r1: "r1 = Inr (nc, mn)"
    using pb cs r by (cases r1) (auto simp: protect_bound_def)
  obtain f ng where r2: "r2 = Inr (f, ng)"
    using pb cs qf r r1 by (cases r2) (auto simp: protect_bound_def Let_def)
  have p: "p = (let pr = (if nc > 0 then mn else UINT64_MAX) in if ng > 0 \<and> f < pr then f else pr)"
    using pb cs qf r r1 r2 by (simp add: protect_bound_def Let_def)
  show "p \<le> a" if "receipt L st s c = Some a"
    using c(3) [OF r1 that] p by (auto simp: Let_def split: if_splits)
  show "p \<le> owed_floor q" if "group_rec L st s g = Some q" "g \<noteq> []"
  proof -
    have "group_rec L st1 s g = Some q" using that \<open>group_rec L st1 = group_rec L st\<close> by simp
    from q(3) [OF r2 this that(2)] n [OF qf [unfolded r2] this that(2)] p show ?thesis
      by (auto simp: Let_def not_less split: if_splits)
  qed
qed

lemma u64_max: "x \<le> UINT64_MAX"
proof -
  have "UINT64_MAX = - 1" by (simp add: UINT64_MAX_def)
  then show ?thesis by (metis word_order.extremum)
qed

lemma trim_targetD:
  assumes laws: "bpt_laws L" and tt: "trim_target L st s last_ix before force = (st', r)"
  shows "st' = st\<lparr>st_cursors := st_cursors st', st_queues := st_queues st'\<rparr>"
    and "receipt L st' = receipt L st" and "group_rec L st' = group_rec L st"
    and "r = Inr nb \<Longrightarrow> nb \<le> last_ix"
    and "r = Inr nb \<Longrightarrow> unat nb \<le> unat before - 1"
    and "r = Inr nb \<Longrightarrow> force \<Longrightarrow> unat nb = min (unat before - 1) (unat last_ix)"
    and "r = Inr nb \<Longrightarrow> \<not> force \<Longrightarrow> receipt L st s c = Some a \<Longrightarrow> nb \<le> a"
    and "r = Inr nb \<Longrightarrow> \<not> force \<Longrightarrow> group_rec L st s g = Some q \<Longrightarrow> g \<noteq> [] \<Longrightarrow> nb \<le> owed_floor q"
proof -
  let ?n0 = "if before > 0 then before - 1 else 0"
  let ?n1 = "if ?n0 > last_ix then last_ix else ?n0"
  have n0: "unat ?n0 = unat before - 1" by (simp add: unat_pred_u64 word_gt_0)
  have n1: "unat ?n1 = min (unat before - 1) (unat last_ix)"
    using n0 by (auto simp: word_less_nat_alt min_def)
  obtain st1 r1 where pb: "protect_bound L st s = (st1, r1)" by (cases "protect_bound L st s")
  note p = protect_boundD [OF laws pb]
  have shape: "force \<and> st' = st \<and> r = Inr ?n1 \<or> \<not> force \<and> st' = st1 \<and>
      ((\<exists>e. r1 = Inl e \<and> r = Inl e) \<or>
       (\<exists>p. r1 = Inr p \<and> r = Inr (if p \<noteq> UINT64_MAX \<and> ?n1 > p then p else ?n1)))"
    using tt pb by (auto simp: trim_target_def Let_def split: sum.splits if_splits)
  from shape p(1-3) show "st' = st\<lparr>st_cursors := st_cursors st', st_queues := st_queues st'\<rparr>"
    "receipt L st' = receipt L st" "group_rec L st' = group_rec L st" by auto
  have le: "nb \<le> ?n1" if "r = Inr nb" using shape that by auto
  then show "r = Inr nb \<Longrightarrow> nb \<le> last_ix" "r = Inr nb \<Longrightarrow> unat nb \<le> unat before - 1"
    using n1 by (auto simp: word_le_nat_alt)
  show "r = Inr nb \<Longrightarrow> force \<Longrightarrow> unat nb = min (unat before - 1) (unat last_ix)"
    using shape n1 by auto
  have bound: "\<exists>p. r1 = Inr p \<and> nb \<le> p" if "r = Inr nb" "\<not> force"
    using shape that u64_max by (auto simp: not_less)
  show "r = Inr nb \<Longrightarrow> \<not> force \<Longrightarrow> receipt L st s c = Some a \<Longrightarrow> nb \<le> a"
    using bound p(4) order_trans by blast
  show "r = Inr nb \<Longrightarrow> \<not> force \<Longrightarrow> group_rec L st s g = Some q \<Longrightarrow> g \<noteq> [] \<Longrightarrow> nb \<le> owed_floor q"
    using bound p(5) order_trans by blast
qed

section \<open>What a trim does to the log\<close>

lemma marks_prune_same: "same_logs st (marks_prune L st s b)"
  using marks_store_same [of L st s]
  by (auto simp: marks_prune_def split: sum.split) (metis prod.collapse)

lemma upd_sub_policy: "st_policy (upd_sub st n f) = st_policy st" "st_files (upd_sub st n f) = st_files st"
  by (simp_all add: upd_sub_def)

lemma elog_tmp_differ [simp]: "elog_file m \<noteq> tmp_file n"
proof
  assume "elog_file m = tmp_file n"
  then have "last (elog_file m) = last (tmp_file n)" by simp
  then show False by (simp add: elog_file_def tmp_file_def SUBJECT_SUFFIX_def)
qed

lemma same_logs_views:
  assumes "same_logs st st'"
  shows "st_cursors st' = st_cursors st" and "st_queues st' = st_queues st"
  using assms unfolding same_logs_def by (metis store.ext_inject store.surjective store.update_convs(4,7))+

lemma trim_swapD:
  assumes sw: "trim_swap L st s lg lg' base ad = (st', r)" and sub: "find_sub st s = Some sb"
  defines "l \<equiv> if ad then lg' else lg"
  shows "st_cursors st' = st_cursors st" and "st_queues st' = st_queues st"
    and "log_of st' m = (if m = s then Some l else log_of st m)"
    and "r = (if ad then Inr (elog_base_index L l,
                 if elog_base_index L l > base then elog_base_index L l - base else 0) else Inl BJ_ERR_STATE)"
proof -
  let ?st1 = "st\<lparr>st_files := (st_files st)(tmp_file s := Absent, elog_file s := Holds l)\<rparr>"
  let ?st2 = "upd_sub ?st1 s (\<lambda>s. s\<lparr>s_log := l\<rparr>)"
  have reopen: "trim_reopen L ?st1 s = (?st2, Some l)"
    by (simp add: trim_reopen_def open_file_def)
  note sw' = sw [unfolded trim_swap_def Let_def l_def [symmetric] reopen, simplified]
  from sw' show "r = (if ad then Inr (elog_base_index L l,
                 if elog_base_index L l > base then elog_base_index L l - base else 0) else Inl BJ_ERR_STATE)"
    by simp
  have "st' = ?st2 \<or> (\<exists>b. st' = marks_prune L ?st2 s b)"
    using sw' by (auto split: slot.splits if_splits)
  then have "same_logs ?st2 st'" using marks_prune_same by auto
  then have s3: "log_of st' m = log_of ?st2 m" "st_cursors st' = st_cursors ?st2" "st_queues st' = st_queues ?st2"
    using same_logs_log_of same_logs_views by metis+
  then show "st_cursors st' = st_cursors st" "st_queues st' = st_queues st"
    by (simp_all add: upd_sub_def)
  have fs: "find_sub ?st1 s = Some sb" using sub(1) by (simp add: find_sub_files)
  have "m \<noteq> s \<Longrightarrow> log_of ?st1 m = log_of st m"
    by (auto simp: log_of_def find_sub_files split: option.split)
  then show "log_of st' m = (if m = s then Some l else log_of st m)"
    using s3(1) log_of_upd_log [OF fs, of l m] by simp
qed

lemma trim_adoptD:
  assumes tr: "trim_adopt L st s lg base nb adopt = (st', r)" and sub: "find_sub st s = Some sb" "s_log sb = lg"
  shows "st_cursors st' = st_cursors st" and "st_queues st' = st_queues st"
    and "m \<noteq> s \<Longrightarrow> log_of st' m = log_of st m"
    and "log_of st' s = log_of st s \<and> (\<exists>e. r = Inl e) \<or>
         (\<exists>lg' tm. elog_compact L lg nb tm = Inr lg' \<and> log_of st' s = Some lg' \<and>
            r = Inr (elog_base_index L lg',
                     if elog_base_index L lg' > base then elog_base_index L lg' - base else 0))"
proof -
  let ?ad = "adopt (tmp_file s) (elog_file s)"
  have frame: "log_of (st\<lparr>st_files := (st_files st)(tmp_file s := Absent)\<rparr>) m = log_of st m" for m
    by (auto simp: log_of_def find_sub_files split: option.split)
  have old: "log_of st s = Some lg" using sub by (simp add: log_of_def)
  have "(st' = st \<or> st' = st\<lparr>st_files := (st_files st)(tmp_file s := Absent)\<rparr>) \<and> (\<exists>e. r = Inl e) \<or>
      (\<exists>tm lg'. elog_compact L lg nb tm = Inr lg' \<and> trim_swap L st s lg lg' base ?ad = (st', r))"
    using tr by (auto simp: trim_adopt_def split: sum.splits if_splits ns_file.splits)
  then have "(st_cursors st' = st_cursors st \<and> st_queues st' = st_queues st \<and>
       (\<forall>m. m \<noteq> s \<longrightarrow> log_of st' m = log_of st m)) \<and>
      (log_of st' s = log_of st s \<and> (\<exists>e. r = Inl e) \<or>
         (\<exists>lg' tm. elog_compact L lg nb tm = Inr lg' \<and> log_of st' s = Some lg' \<and>
            r = Inr (elog_base_index L lg',
                     if elog_base_index L lg' > base then elog_base_index L lg' - base else 0)))"
  proof (elim disjE exE conjE)
    fix tm lg' assume c: "elog_compact L lg nb tm = Inr lg'" and sw: "trim_swap L st s lg lg' base ?ad = (st', r)"
    note d = trim_swapD [OF sw sub(1)]
    show ?thesis
    proof (cases ?ad)
      case True
      then have "log_of st' s = Some lg'" using d(3) [of s] by simp
      moreover have "r = Inr (elog_base_index L lg',
                     if elog_base_index L lg' > base then elog_base_index L lg' - base else 0)"
        using d(4) True by simp
      moreover have "\<forall>m. m \<noteq> s \<longrightarrow> log_of st' m = log_of st m" using d(3) by simp
      ultimately show ?thesis using d(1,2) c by blast
    next
      case False
      then have "log_of st' s = log_of st s" "r = Inl BJ_ERR_STATE" using d(3) [of s] d(4) old by simp_all
      moreover have "\<forall>m. m \<noteq> s \<longrightarrow> log_of st' m = log_of st m" using d(3) by simp
      ultimately show ?thesis using d(1,2) by blast
    qed
  qed (use frame in auto)
  then show "st_cursors st' = st_cursors st" "st_queues st' = st_queues st"
    "m \<noteq> s \<Longrightarrow> log_of st' m = log_of st m"
    "log_of st' s = log_of st s \<and> (\<exists>e. r = Inl e) \<or>
         (\<exists>lg' tm. elog_compact L lg nb tm = Inr lg' \<and> log_of st' s = Some lg' \<and>
            r = Inr (elog_base_index L lg',
                     if elog_base_index L lg' > base then elog_base_index L lg' - base else 0))"
    by blast+
qed

lemma views_of_log:
  "log_of st' m = log_of st m \<Longrightarrow> base_of L st' m = base_of L st m \<and> msgs L st' m = msgs L st m"
  by (simp add: base_of_def msgs_def)

text \<open>
  What a trim did: it dropped a prefix of \<open>k\<close> messages of its subject, no more than was asked for
  and, unless forced, nothing that a subscription or a queue group is owed.
\<close>

definition trimmed_by ::
    "('t, 'l) lib \<Rightarrow> ('t, 'l) store \<Rightarrow> string \<Rightarrow> u64 \<Rightarrow> bool \<Rightarrow> ('t, 'l) store \<Rightarrow> (u64 \<times> u64) res \<Rightarrow> nat \<Rightarrow> bool"
  where
  "trimmed_by L st s before force st' r k \<longleftrightarrow>
     base_of L st' s = base_of L st s + k \<and> msgs L st' s = drop k (msgs L st s) \<and>
     k \<le> length (msgs L st s) \<and>
     (\<forall>m. m \<noteq> s \<longrightarrow> base_of L st' m = base_of L st m \<and> msgs L st' m = msgs L st m) \<and>
     receipt L st' = receipt L st \<and> group_rec L st' = group_rec L st \<and>
     (k > 0 \<longrightarrow> base_of L st s + k \<le> unat before - 1) \<and>
     (k > 0 \<longrightarrow> \<not> force \<longrightarrow>
        (\<forall>c a. receipt L st s c = Some a \<longrightarrow> base_of L st s + k \<le> unat a) \<and>
        (\<forall>g q. g \<noteq> [] \<longrightarrow> group_rec L st s g = Some q \<longrightarrow> base_of L st s + k \<le> unat (owed_floor q))) \<and>
     (case r of Inl e \<Rightarrow> k = 0
      | Inr (b, n) \<Rightarrow> unat b = base_of L st s + k \<and> unat n = k \<and>
          (force \<longrightarrow> base_of L st s + k =
             max (base_of L st s) (min (unat before - 1) (base_of L st s + length (msgs L st s)))))"

lemma trimmed_none:
  assumes "\<And>m. base_of L st' m = base_of L st m \<and> msgs L st' m = msgs L st m"
    and "receipt L st' = receipt L st" and "group_rec L st' = group_rec L st" and "r = Inl e"
  shows "trimmed_by L st s before force st' r 0"
  using assms by (simp add: trimmed_by_def)

lemma trimD:
  assumes laws: "elog_laws L" "bpt_laws L" and trim: "bjm_trim L st s before force = (st', r)"
  obtains k where "trimmed_by L st s before force st' r k"
proof (cases "st_adopt st")
  case None
  with trim have "st' = st" "r = Inl BJ_ERR_STATE" by (auto simp: bjm_trim_def)
  then show thesis using trimmed_none that by metis
next
  case (Some adopt)
  obtain st1 r1 where get: "subject_get L st s False = (st1, r1)" by (cases "subject_get L st s False")
  note g = subject_get_log [OF laws(1) get]
  obtain x y where st1: "st1 = st\<lparr>st_subs := x, st_files := y\<rparr>" using subject_get_frame [OF get] by blast
  have rg1: "receipt L st1 = receipt L st" "group_rec L st1 = group_rec L st"
    by (auto simp: st1 intro: receipt_cong group_rec_cong)
  show thesis
  proof (cases r1)
    case (Inl e)
    with trim Some get have "st' = st1" "r = Inl e" by (auto simp: bjm_trim_def)
    then show thesis using trimmed_none [of L st' st r e s before force] that g rg1 by metis
  next
    case (Inr sb)
    note view = subject_get_view [OF laws(1) get [unfolded Inr]] and fs = subject_get_found [OF get [unfolded Inr]]
    let ?base = "elog_base_index L (s_log sb)" and ?last = "elog_last_index L (s_log sb)"
    have base: "unat ?base = base_of L st s" and lst: "unat ?last = base_of L st s + length (msgs L st s)"
      using elog_indexD [OF laws(1)] view g by simp_all
    obtain st2 r2 where tt: "trim_target L st1 s ?last before force = (st2, r2)"
      by (cases "trim_target L st1 s ?last before force")
    note t = trim_targetD [OF laws(2) tt]
    obtain u v where st2: "st2 = st1\<lparr>st_cursors := u, st_queues := v\<rparr>" using t(1) by blast
    have log2: "log_of st2 m = log_of st1 m" for m by (rule log_of_cong) (simp_all add: st2)
    note v2 = views_of_log [OF log2]
    have rg2: "receipt L st2 = receipt L st" "group_rec L st2 = group_rec L st" using t(2,3) rg1 by simp_all
    have same2: "base_of L st2 m = base_of L st m \<and> msgs L st2 m = msgs L st m" for m
      using v2 g by simp
    show thesis
    proof (cases r2)
      case (Inl e)
      with trim Some get \<open>r1 = Inr sb\<close> tt have "st' = st2" "r = Inl e" by (auto simp: bjm_trim_def Let_def)
      then show thesis using trimmed_none [of L st' st r e s before force] that same2 rg2 by metis
    next
      case nb: (Inr nb)
      show thesis
      proof (cases "nb \<le> ?base")
        case True
        with trim Some get Inr tt nb have e: "st' = st2" "r = Inr (?base, 0)"
          by (auto simp: bjm_trim_def Let_def)
        have "force \<Longrightarrow> base_of L st s = max (base_of L st s) (min (unat before - 1) (base_of L st s + length (msgs L st s)))"
          using t(6) [OF nb] True base lst by (auto simp: word_le_nat_alt)
        then have "trimmed_by L st s before force st' r 0"
          using e same2 rg2 base by (simp add: trimmed_by_def)
        then show thesis by (rule that)
      next
        case False
        have tr: "trim_adopt L st2 s (s_log sb) ?base nb adopt = (st', r)"
          using trim Some get Inr tt nb False by (simp add: bjm_trim_def Let_def)
        have fs2: "find_sub st2 s = Some sb" using fs by (simp add: st2 find_sub_def)
        note a = trim_adoptD [OF tr fs2 refl]
        have rg: "receipt L st' = receipt L st" "group_rec L st' = group_rec L st"
          using a(1,2) rg2 receipt_cong [of L st' st2] group_rec_cong [of L st' st2] by simp_all
        have others: "m \<noteq> s \<Longrightarrow> base_of L st' m = base_of L st m \<and> msgs L st' m = msgs L st m" for m
          using views_of_log [OF a(3)] same2 by simp
        from a(4) show thesis
        proof (elim disjE exE conjE)
          fix e assume "log_of st' s = log_of st2 s" and e: "r = Inl e"
          then have "base_of L st' m = base_of L st m \<and> msgs L st' m = msgs L st m" for m
            using views_of_log [of st' s st2 L] others same2 by (cases "m = s") auto
          then show thesis using trimmed_none [of L st' st r e s before force] that rg e by metis
        next
          fix lg' tm
          assume cp: "elog_compact L (s_log sb) nb tm = Inr lg'" and lg: "log_of st' s = Some lg'"
            and r: "r = Inr (elog_base_index L lg',
                     if elog_base_index L lg' > ?base then elog_base_index L lg' - ?base else 0)"
          let ?k = "unat nb - base_of L st s"
          have lo: "base_of L st s < unat nb" and hi: "unat nb \<le> base_of L st s + length (msgs L st s)"
            using False base t(4) [OF nb] lst by (simp_all add: word_le_nat_alt)
          have c: "view_base L lg' = unat nb" "view_ents L lg' = drop ?k (msgs L st s)"
            using elog_compactD [OF laws(1) cp] view g lo hi by simp_all
          have b': "base_of L st' s = unat nb" "msgs L st' s = drop ?k (msgs L st s)"
            using lg c by (simp_all add: base_of_def msgs_def)
          have ob: "unat (elog_base_index L lg') = unat nb" using elog_indexD(1) [OF laws(1)] c by simp
          then have gt: "elog_base_index L lg' > ?base" using lo base by (simp add: word_less_nat_alt)
          then have "unat (elog_base_index L lg' - ?base) = ?k"
            using unat_sub_u64 [of ?base "elog_base_index L lg'"] ob base by simp
          moreover have "\<not> force \<Longrightarrow> receipt L st s c = Some a \<Longrightarrow> unat nb \<le> unat a" for c a
            using t(7) [OF nb] rg1 by (simp add: word_le_nat_alt)
          moreover have "\<not> force \<Longrightarrow> g \<noteq> [] \<Longrightarrow> group_rec L st s g = Some q \<Longrightarrow> unat nb \<le> unat (owed_floor q)" for g q
            using t(8) [OF nb] rg1 by (simp add: word_le_nat_alt)
          moreover have "force \<Longrightarrow> unat nb = max (base_of L st s)
              (min (unat before - 1) (base_of L st s + length (msgs L st s)))"
            using t(6) [OF nb] lst lo by simp
          ultimately have "trimmed_by L st s before force st' r ?k"
            unfolding trimmed_by_def using b' lo hi others rg t(5) [OF nb] r gt ob by simp
          then show thesis by (rule that)
        qed
      qed
    qed
  qed
qed

section \<open>A pass over the policies\<close>

text \<open>The stored policy of a subject. Marks live under other keys and do not touch it.\<close>

definition policy_of :: "('t, 'l) lib \<Rightarrow> ('t, 'l) store \<Rightarrow> string \<Rightarrow> bjm_policy option" where
  "policy_of L st n =
     (case slot_view L (st_policy st) (CHR ''p'' # ''/'' @ n) of
        None \<Rightarrow> None
      | Some b \<Rightarrow> (case policy_decode L b of Inl _ \<Rightarrow> None | Inr p \<Rightarrow> Some p))"

lemma policy_of_cong:
  "slot_view L (st_policy st') = slot_view L (st_policy st) \<Longrightarrow> policy_of L st' = policy_of L st"
  by (simp add: policy_of_def fun_eq_iff)

lemma policy_get_of:
  assumes "bpt_laws L" and "bjm_policy_get L st n = (st', Inr x)"
  shows "policy_of L st n = x"
proof -
  obtain st1 r1 where op: "policy_open L st = (st1, r1)" by (cases "policy_open L st")
  with assms(2) show ?thesis using tree_openD(3) [OF assms(1) op]
    by (auto simp: bjm_policy_get_def policy_of_def dest!: bpt_searchD [OF assms(1)] policy_keyD
        split: sum.splits option.splits)
qed

lemma marks_prune_policy:
  assumes "bpt_laws L"
  shows "policy_of L (marks_prune L st n b) = policy_of L st"
proof -
  have "policy_of L (fst (marks_store L st n m)) = policy_of L st" for m
  proof (cases "policy_key CHR ''m'' n")
    case (Inl e)
    then show ?thesis by (simp add: marks_store_def)
  next
    case (Inr key)
    then have key: "key \<noteq> CHR ''p'' # ''/'' @ k" for k by (auto dest: policy_keyD)
    show ?thesis
    proof (cases "policy_handle st")
      case (Inl e)
      with Inr show ?thesis by (simp add: marks_store_def)
    next
      case t: (Inr t)
      then have view: "slot_view L (st_policy st) = view_tree L t"
        by (auto simp: policy_handle_def split: slot.splits)
      obtain t' r where put: "bpt_put L t key (marks_encode m) = (t', r)" by (cases "bpt_put L t key (marks_encode m)")
      have "view_tree L t' (CHR ''p'' # ''/'' @ k) = view_tree L t (CHR ''p'' # ''/'' @ k)" for k
        using bpt_put_frame [OF assms put] key by metis
      with Inr t view put show ?thesis
        by (simp add: marks_store_def policy_of_def fun_eq_iff)
    qed
  qed
  then show ?thesis by (simp add: marks_prune_def split: sum.split)
qed

lemma trim_policy:
  assumes laws: "bpt_laws L" and trim: "bjm_trim L st s before force = (st', r)"
  shows "policy_of L st' = policy_of L st"
proof (cases "st_adopt st")
  case None
  with trim show ?thesis by (simp add: bjm_trim_def)
next
  case (Some adopt)
  obtain st1 r1 where get: "subject_get L st s False = (st1, r1)" by (cases "subject_get L st s False")
  obtain x y where st1: "st1 = st\<lparr>st_subs := x, st_files := y\<rparr>" using subject_get_frame [OF get] by blast
  have p1: "policy_of L st1 = policy_of L st" by (rule policy_of_cong) (simp add: st1)
  show ?thesis
  proof (cases r1)
    case (Inl e)
    with trim Some get p1 show ?thesis by (simp add: bjm_trim_def)
  next
    case (Inr sb)
    let ?base = "elog_base_index L (s_log sb)" and ?last = "elog_last_index L (s_log sb)"
    obtain st2 r2 where tt: "trim_target L st1 s ?last before force = (st2, r2)"
      by (cases "trim_target L st1 s ?last before force")
    obtain u v where st2: "st2 = st1\<lparr>st_cursors := u, st_queues := v\<rparr>" using trim_targetD(1) [OF laws tt] by blast
    have p2: "policy_of L st2 = policy_of L st" using p1 by (simp add: policy_of_def st2 fun_eq_iff)
    have cong: "policy_of L (z\<lparr>st_files := f\<rparr>) = policy_of L z" "policy_of L (upd_sub z n h) = policy_of L z"
      "policy_of L (z\<lparr>st_subs := ss\<rparr>) = policy_of L z" for z f n h ss
      by (simp_all add: policy_of_def upd_sub_def fun_eq_iff)
    have sw: "trim_swap L st2 s lg lg' base ad = (st', r) \<Longrightarrow> policy_of L st' = policy_of L st2" for lg lg' base ad
      by (auto simp: trim_swap_def trim_reopen_def open_file_def Let_def cong marks_prune_policy [OF laws]
          split: slot.splits if_splits)
    show ?thesis
    proof (cases "\<exists>nb. r2 = Inr nb \<and> \<not> nb \<le> ?base")
      case False
      with trim Some get Inr tt p2 show ?thesis
        by (cases r2) (auto simp: bjm_trim_def Let_def split: if_splits)
    next
      case True
      then obtain nb where nb: "r2 = Inr nb" "\<not> nb \<le> ?base" by blast
      then have "trim_adopt L st2 s (s_log sb) ?base nb adopt = (st', r)"
        using trim Some get Inr tt by (simp add: bjm_trim_def Let_def)
      then have "policy_of L st' = policy_of L st2"
        using sw by (auto simp: trim_adopt_def cong split: sum.splits if_splits ns_file.splits)
      then show ?thesis using p2 by simp
    qed
  qed
qed

text \<open>
  \<open>kept\<close> relates the store before and after: each subject lost a prefix of \<open>k\<close> messages, none if
  it has no policy, and nothing owed unless its policy ignores consumers.
\<close>

definition owed_above :: "('t, 'l) lib \<Rightarrow> ('t, 'l) store \<Rightarrow> string \<Rightarrow> nat \<Rightarrow> bool" where
  "owed_above L st m b \<longleftrightarrow>
     (\<forall>c a. receipt L st m c = Some a \<longrightarrow> b \<le> unat a) \<and>
     (\<forall>g q. g \<noteq> [] \<longrightarrow> group_rec L st m g = Some q \<longrightarrow> b \<le> unat (owed_floor q))"

definition kept :: "('t, 'l) lib \<Rightarrow> ('t, 'l) store \<Rightarrow> ('t, 'l) store \<Rightarrow> bool" where
  "kept L st st' \<longleftrightarrow>
     receipt L st' = receipt L st \<and> group_rec L st' = group_rec L st \<and> policy_of L st' = policy_of L st \<and>
     (\<forall>m. \<exists>k. k \<le> length (msgs L st m) \<and> base_of L st' m = base_of L st m + k \<and>
        msgs L st' m = drop k (msgs L st m) \<and>
        (k > 0 \<longrightarrow> (\<exists>p. policy_of L st m = Some p \<and>
                        (\<not> p_ignore_consumers p \<longrightarrow> owed_above L st m (base_of L st m + k)))))"

lemma kept_same:
  assumes "receipt L st' = receipt L st" "group_rec L st' = group_rec L st" "policy_of L st' = policy_of L st"
    and "\<And>m. base_of L st' m = base_of L st m \<and> msgs L st' m = msgs L st m"
  shows "kept L st st'"
  unfolding kept_def using assms by (auto intro!: exI [of _ "0 :: nat"])

lemma kept_trans:
  assumes ab: "kept L a b" and bc: "kept L b c"
  shows "kept L a c"
proof -
  have same: "receipt L b = receipt L a" "group_rec L b = group_rec L a" "policy_of L b = policy_of L a"
    using ab by (simp_all add: kept_def)
  have "\<exists>k. k \<le> length (msgs L a m) \<and> base_of L c m = base_of L a m + k \<and>
        msgs L c m = drop k (msgs L a m) \<and>
        (k > 0 \<longrightarrow> (\<exists>p. policy_of L a m = Some p \<and>
                        (\<not> p_ignore_consumers p \<longrightarrow> owed_above L a m (base_of L a m + k))))" for m
  proof -
    obtain k1 where 1: "k1 \<le> length (msgs L a m)" "base_of L b m = base_of L a m + k1"
        "msgs L b m = drop k1 (msgs L a m)"
        "k1 > 0 \<longrightarrow> (\<exists>p. policy_of L a m = Some p \<and>
                        (\<not> p_ignore_consumers p \<longrightarrow> owed_above L a m (base_of L a m + k1)))"
      using ab unfolding kept_def by meson
    obtain k2 where 2: "k2 \<le> length (msgs L b m)" "base_of L c m = base_of L b m + k2"
        "msgs L c m = drop k2 (msgs L b m)"
        "k2 > 0 \<longrightarrow> (\<exists>p. policy_of L b m = Some p \<and>
                        (\<not> p_ignore_consumers p \<longrightarrow> owed_above L b m (base_of L b m + k2)))"
      using bc unfolding kept_def by meson
    have ow: "owed_above L b m x = owed_above L a m x" for x
      by (simp add: owed_above_def same)
    have "k1 + k2 > 0 \<longrightarrow> (\<exists>p. policy_of L a m = Some p \<and>
                        (\<not> p_ignore_consumers p \<longrightarrow> owed_above L a m (base_of L a m + (k1 + k2))))"
    proof (cases "k2 > 0")
      case True
      with 2(4) 1(2) show ?thesis by (simp add: same ow add.assoc)
    next
      case False
      with 1(4) show ?thesis by simp
    qed
    then show ?thesis
      using 1 2 by (intro exI [of _ "k1 + k2"]) (auto simp: add.commute)
  qed
  with ab bc show ?thesis by (simp add: kept_def)
qed

lemma retain_one_kept:
  assumes laws: "elog_laws L" "bpt_laws L" and one: "retain_one L now n (st, x, y) = (st', x', y')"
  shows "kept L st st'"
proof -
  obtain st1 r1 where pg: "bjm_policy_get L st n = (st1, r1)" by (cases "bjm_policy_get L st n")
  obtain pt where st1: "st1 = st\<lparr>st_policy := pt\<rparr>" using policy_getD(1) [OF laws(2) pg] by blast
  have pol1: "policy_of L st1 = policy_of L st" by (rule policy_of_cong) (rule policy_getD(2) [OF laws(2) pg])
  have k1: "kept L st st1"
    using pol1 view_cong [of st1 st L] by (intro kept_same) (auto simp: st1 intro: receipt_cong group_rec_cong)
  show ?thesis
  proof (cases "\<exists>p. r1 = Inr (Some p)")
    case False
    with one pg have "st' = st1" by (cases r1) (auto simp: retain_one_def split: option.splits)
    with k1 show ?thesis by simp
  next
    case True
    then obtain p where r1: "r1 = Inr (Some p)" by blast
    have pol: "policy_of L st n = Some p" using policy_get_of [OF laws(2)] pg r1 by simp
    obtain st2 r2 where get: "subject_get L st1 n False = (st2, r2)" by (cases "subject_get L st1 n False")
    obtain a b where st2: "st2 = st1\<lparr>st_subs := a, st_files := b\<rparr>" using subject_get_frame [OF get] by blast
    have k2: "kept L st1 st2"
      using subject_get_log [OF laws(1) get]
      by (intro kept_same) (auto simp: st2 intro: receipt_cong group_rec_cong policy_of_cong)
    show ?thesis
    proof (cases "\<exists>sb. r2 = Inr sb \<and> policy_boundary L st2 sb p now \<noteq> 0")
      case False
      with one pg r1 get have "st' = st2" by (cases r2) (auto simp: retain_one_def Let_def)
      with k1 k2 kept_trans show ?thesis by metis
    next
      case True
      then obtain sb where sb: "r2 = Inr sb" "policy_boundary L st2 sb p now \<noteq> 0" by blast
      let ?b = "policy_boundary L st2 sb p now"
      obtain st3 r3 where tr: "bjm_trim L st2 n ?b (p_ignore_consumers p) = (st3, r3)"
        by (cases "bjm_trim L st2 n ?b (p_ignore_consumers p)")
      have st': "st' = st3"
        using one pg r1 get sb tr by (auto simp: retain_one_def Let_def split: sum.splits if_splits)
      obtain k where k: "trimmed_by L st2 n ?b (p_ignore_consumers p) st3 r3 k"
        using trimD [OF laws tr] by blast
      have pol2: "policy_of L st2 n = Some p" using pol pol1 k2 by (simp add: kept_def)
      have k3: "kept L st2 st3"
        unfolding kept_def
      proof (intro conjI allI)
        show "receipt L st3 = receipt L st2" "group_rec L st3 = group_rec L st2"
          using k by (simp_all add: trimmed_by_def)
        show "policy_of L st3 = policy_of L st2" by (rule trim_policy [OF laws(2) tr])
        fix m
        show "\<exists>k. k \<le> length (msgs L st2 m) \<and> base_of L st3 m = base_of L st2 m + k \<and>
          msgs L st3 m = drop k (msgs L st2 m) \<and>
          (k > 0 \<longrightarrow> (\<exists>p. policy_of L st2 m = Some p \<and>
                        (\<not> p_ignore_consumers p \<longrightarrow> owed_above L st2 m (base_of L st2 m + k))))"
        proof (cases "m = n")
          case True
          with k pol2 show ?thesis by (intro exI [of _ k]) (simp add: trimmed_by_def owed_above_def)
        next
          case False
          with k show ?thesis by (intro exI [of _ 0]) (simp add: trimmed_by_def)
        qed
      qed
      with k1 k2 kept_trans st' show ?thesis by metis
    qed
  qed
qed

lemma retain_all_kept:
  assumes laws: "elog_laws L" "bpt_laws L"
  shows "fold (retain_one L now) ns (st, x, y) = (st', x', y') \<Longrightarrow> kept L st st'"
proof (induction ns arbitrary: st x y)
  case Nil
  then show ?case by (simp add: kept_same)
next
  case (Cons n ns)
  obtain st1 x1 y1 where one: "retain_one L now n (st, x, y) = (st1, x1, y1)"
    by (cases "retain_one L now n (st, x, y)") auto
  from retain_one_kept [OF laws one] Cons.IH [of st1 x1 y1] Cons.prems one kept_trans show ?case by fastforce
qed

lemma retention_kept:
  assumes laws: "elog_laws L" "bpt_laws L" and run: "bjm_retention_run L st now = (st', r)"
  shows "kept L st st'"
proof -
  obtain st1 r1 where op: "policy_open L st = (st1, r1)" by (cases "policy_open L st")
  note o = tree_openD(3) [OF laws(2) op]
  then obtain pt where st1: "st1 = st\<lparr>st_policy := pt\<rparr>" by blast
  have k1: "kept L st st1"
    using o view_cong [of st1 st L]
    by (intro kept_same policy_of_cong) (auto simp: st1 intro: receipt_cong group_rec_cong)
  have "st' = st1 \<or> (\<exists>es x y. fold (retain_one L now) (policy_names es) (st1, 0, 0) = (st', x, y))"
    using run op by (auto simp: bjm_retention_run_def split: sum.splits option.splits prod.splits)
  then show ?thesis using k1 retain_all_kept [OF laws] kept_trans by metis
qed

end
