(* ===== verification/Push_Registry.thy ===== *)
theory Push_Registry
  imports Store
begin

text \<open>
  The durable push registrations (\<open>bjm_push_*\<close>, \<open>src/src/store.c\<close>): one record per
  consumer in a tree keyed by the consumer's name.
\<close>

definition decode_push :: "('t, 'l) lib \<Rightarrow> bytes \<Rightarrow> bjm_push_sub res" where
  "decode_push L val = (case bj_decode L val of Inl e \<Rightarrow> Inl e | Inr evs \<Rightarrow> push_decode evs)"

definition bjm_push_get ::
    "('t, 'l) lib \<Rightarrow> ('t, 'l) store \<Rightarrow> string \<Rightarrow> ('t, 'l) store \<times> bjm_push_sub option res" where
  "bjm_push_get L st consumer =
     (case push_open L st of
        (st, Inl e) \<Rightarrow> (st, Inl e)
      | (st, Inr t) \<Rightarrow>
          (case bpt_search L t (push_key consumer) of
             Inl e \<Rightarrow> (st, Inl e)
           | Inr None \<Rightarrow> (st, Inr None)
           | Inr (Some val) \<Rightarrow>
               (case decode_push L val of Inl e \<Rightarrow> (st, Inl e) | Inr s \<Rightarrow> (st, Inr (Some s)))))"

text \<open>Synced on the spot, so a registration that was answered for survives a restart.\<close>

definition bjm_push_set ::
    "('t, 'l) lib \<Rightarrow> ('t, 'l) store \<Rightarrow> string \<Rightarrow> bjm_push_sub \<Rightarrow> ('t, 'l) store \<times> unit res" where
  "bjm_push_set L st consumer s =
     (case push_open L st of
        (st, Inl e) \<Rightarrow> (st, Inl e)
      | (st, Inr t) \<Rightarrow>
          (case bpt_put L t (push_key consumer) (push_encode s) of
             (t, Inl e) \<Rightarrow> (st\<lparr>st_push := Opened t\<rparr>, Inl e)
           | (t, Inr _) \<Rightarrow> (case bpt_sync L t of (t, r) \<Rightarrow> (st\<lparr>st_push := Opened t\<rparr>, r))))"

text \<open>
  \<open>deleted\<close> and the error code are separate out-parameters: a failed sync still reports the
  deletion.
\<close>

definition bjm_push_delete ::
    "('t, 'l) lib \<Rightarrow> ('t, 'l) store \<Rightarrow> string \<Rightarrow> ('t, 'l) store \<times> bool \<times> unit res" where
  "bjm_push_delete L st consumer =
     (case push_open L st of
        (st, Inl e) \<Rightarrow> (st, False, Inl e)
      | (st, Inr t) \<Rightarrow>
          (case bpt_search L t (push_key consumer) of
             Inl e \<Rightarrow> (st, False, Inl e)
           | Inr None \<Rightarrow> (st, False, Inr ())
           | Inr (Some _) \<Rightarrow>
               (case bpt_delete L t (push_key consumer) of
                  (t, Inl e) \<Rightarrow> (st\<lparr>st_push := Opened t\<rparr>, False, Inl e)
                | (t, Inr _) \<Rightarrow>
                    (case bpt_sync L t of (t, r) \<Rightarrow> (st\<lparr>st_push := Opened t\<rparr>, True, r)))))"

text \<open>
  Walk the registrations. \<open>fn\<close> is the caller's callback over a state of its own; a true answer
  stops the walk, and the code that ended the cursor is then not looked at.
\<close>

fun push_walk ::
    "('t, 'l) lib \<Rightarrow> ('a \<Rightarrow> string \<Rightarrow> bjm_push_sub \<Rightarrow> 'a \<times> bool) \<Rightarrow> (string \<times> bytes) list \<Rightarrow> 'a \<Rightarrow> 'a \<times> bool"
  where
  "push_walk L fn [] a = (a, False)"
| "push_walk L fn ((k, val) # es) a =
     (if length k > BJM_CONSUMER_MAX then push_walk L fn es a
      else (case decode_push L val of
              Inl _ \<Rightarrow> push_walk L fn es a
            | Inr s \<Rightarrow> (case fn a (c_str k) s of
                         (a, True) \<Rightarrow> (a, True)
                       | (a, False) \<Rightarrow> push_walk L fn es a)))"

definition bjm_push_each ::
    "('t, 'l) lib \<Rightarrow> ('t, 'l) store \<Rightarrow> ('a \<Rightarrow> string \<Rightarrow> bjm_push_sub \<Rightarrow> 'a \<times> bool) \<Rightarrow> 'a
      \<Rightarrow> ('t, 'l) store \<times> 'a \<times> unit res" where
  "bjm_push_each L st fn a =
     (case push_open L st of
        (st, Inl e) \<Rightarrow> (st, a, Inl e)
      | (st, Inr t) \<Rightarrow>
          (case bpt_cursor L t None None of
             None \<Rightarrow> (st, a, Inl BJ_ERR_STATE)
           | Some (es, rc) \<Rightarrow>
               (case push_walk L fn es a of
                  (a, stopped) \<Rightarrow>
                    (st, a, case rc of Some e \<Rightarrow> if stopped then Inr () else Inl e | None \<Rightarrow> Inr ()))))"

section \<open>What is registered\<close>

definition registered :: "('t, 'l) lib \<Rightarrow> ('t, 'l) store \<Rightarrow> string \<Rightarrow> bjm_push_sub option" where
  "registered L st consumer =
     (case slot_view L (st_push st) consumer of
        None \<Rightarrow> None
      | Some b \<Rightarrow> (case decode_push L b of Inl _ \<Rightarrow> None | Inr s \<Rightarrow> Some s))"

lemma push_getD:
  assumes "bpt_laws L" and "bjm_push_get L st c = (st', r)"
  shows "st' = st\<lparr>st_push := st_push st'\<rparr>"
    and "slot_view L (st_push st') = slot_view L (st_push st)"
    and "r = Inr x \<Longrightarrow> registered L st c = x"
proof -
  obtain st1 r1 where op: "push_open L st = (st1, r1)" by (cases "push_open L st")
  note opD = tree_openD(2) [OF assms(1) op]
  have "st' = st1"
    using assms(2) op by (auto simp: bjm_push_get_def split: sum.splits option.splits)
  with opD show "st' = st\<lparr>st_push := st_push st'\<rparr>"
    and "slot_view L (st_push st') = slot_view L (st_push st)" by auto
  show "r = Inr x \<Longrightarrow> registered L st c = x"
    using assms(2) op opD
    by (auto simp: bjm_push_get_def registered_def push_key_def dest!: bpt_searchD [OF assms(1)]
        split: sum.splits option.splits)
qed

lemma push_setD:
  assumes laws: "bj_laws L" "bpt_laws L" and wf: "push_sub_wf s"
    and set: "bjm_push_set L st c s = (st', Inr ())"
  shows "registered L st' = (registered L st)(c \<mapsto> s)"
proof -
  obtain st1 t where op: "push_open L st = (st1, Inr t)"
    using set by (cases "push_open L st") (auto simp: bjm_push_set_def split: sum.splits)
  note opD = tree_openD(2) [OF laws(2) op]
  obtain t1 where put: "bpt_put L t (push_key c) (push_encode s) = (t1, Inr ())"
    using set op
    by (cases "bpt_put L t (push_key c) (push_encode s)") (auto simp: bjm_push_set_def split: sum.splits)
  obtain t2 where sy: "bpt_sync L t1 = (t2, Inr ())" and st': "st_push st' = Opened t2"
    using set op put by (auto simp: bjm_push_set_def split: prod.splits)
  from push_codec.stored_view [OF laws wf put] obtain b
    where "view_tree L t1 = (view_tree L t)(push_key c \<mapsto> b)" "decode_push L b = Inr s"
    unfolding decode_push_def by blast
  then show ?thesis
    using bpt_syncD [OF laws(2) sy] st' opD
    by (auto simp: registered_def push_key_def fun_eq_iff)
qed

lemma push_deleteD:
  assumes laws: "bpt_laws L" and del: "bjm_push_delete L st c = (st', d, r)"
  shows "st' = st\<lparr>st_push := st_push st'\<rparr>"
    and "d \<Longrightarrow> registered L st' = (registered L st)(c := None)"
    and "\<not> d \<Longrightarrow> registered L st' = registered L st"
    and "is_ok r \<Longrightarrow> registered L st' c = None"
proof -
  obtain st1 r1 where op: "push_open L st = (st1, r1)" by (cases "push_open L st")
  note opD = tree_openD(2) [OF laws op]
  then obtain x where x: "st1 = st\<lparr>st_push := x\<rparr>" by blast
  show "st' = st\<lparr>st_push := st_push st'\<rparr>"
    using del op x by (auto simp: bjm_push_delete_def split: sum.splits option.splits prod.splits)
  note rules = bpt_searchD [OF laws] bpt_deleteD [OF laws] bpt_syncD [OF laws]
  have view: "slot_view L (st_push st') =
      (if d then (slot_view L (st_push st))(c := None) else slot_view L (st_push st))"
    using del op opD
    by (auto simp: bjm_push_delete_def push_key_def dest!: rules
        split: sum.splits option.splits prod.splits)
  show "d \<Longrightarrow> registered L st' = (registered L st)(c := None)"
    using view by (auto simp: registered_def fun_eq_iff)
  show "\<not> d \<Longrightarrow> registered L st' = registered L st"
    using view by (auto simp: registered_def fun_eq_iff)
  show "is_ok r \<Longrightarrow> registered L st' c = None"
    using del op opD view
    by (auto simp: bjm_push_delete_def push_key_def registered_def dest!: rules
        split: sum.splits option.splits prod.splits)
qed

lemma push_set_frame:
  assumes "bpt_laws L" and "bjm_push_set L st c s = (st', r)"
  shows "st' = st\<lparr>st_push := st_push st'\<rparr>"
proof -
  obtain st1 r1 where op: "push_open L st = (st1, r1)" by (cases "push_open L st")
  then obtain x where "st1 = st\<lparr>st_push := x\<rparr>" using tree_openD(2) [OF assms(1) op] by blast
  with assms(2) op show ?thesis
    by (auto simp: bjm_push_set_def split: sum.splits prod.splits)
qed

text \<open>Registering and looking up.\<close>

lemma push_roundtrip:
  assumes "bj_laws L" "bpt_laws L" "push_sub_wf s" and "bjm_push_set L st c s = (st1, Inr ())"
    and "bjm_push_get L st1 c' = (st2, Inr r)"
  shows "r = (if c' = c then Some s else registered L st c')"
  using push_setD [OF assms(1-4)] push_getD(3) [OF assms(2,5)] by auto

end
