(* ===== verification/Decimal.thy ===== *)
theory Decimal
  imports Sukkal_Prelude
begin

text \<open>
  Numbers as text, the way the delivery engine and the request handlers use them: \<open>%llu\<close>, \<open>%d\<close>
  and \<open>%ld\<close> of \<open>snprintf\<close>, and \<open>strtoull\<close> in base ten.
\<close>

definition is_digit :: "char \<Rightarrow> bool" where
  "is_digit c \<longleftrightarrow> CHR ''0'' \<le> c \<and> c \<le> CHR ''9''"

definition is_space :: "char \<Rightarrow> bool" where
  "is_space c \<longleftrightarrow> c = CHR '' '' \<or> CHR 0x09 \<le> c \<and> c \<le> CHR 0x0D"

definition digit_char :: "int \<Rightarrow> char" where
  "digit_char d = char_of (48 + d)"

definition digit_value :: "char \<Rightarrow> int" where
  "digit_value c = of_char c - 48"

text \<open>Decimal digits of a number that is not negative.\<close>

function dec :: "int \<Rightarrow> string" where
  "dec n = (if n < 10 then [digit_char n] else dec (n div 10) @ [digit_char (n mod 10)])"
  by pat_completeness auto
termination
  by (relation "measure nat") auto

declare dec.simps [simp del]

definition dec_signed :: "int \<Rightarrow> string" where
  "dec_signed n = (if n < 0 then CHR ''-'' # dec (- n) else dec n)"

definition dec_u64 :: "u64 \<Rightarrow> string" where
  "dec_u64 v = dec (uint v)"

definition digits_value :: "string \<Rightarrow> int" where
  "digits_value ds = foldl (\<lambda>v c. v * 10 + digit_value c) 0 ds"

text \<open>
  Leading white space and a sign are accepted, a value that does not fit answers \<open>UINT64_MAX\<close>, a
  minus sign negates modulo \<open>2 ^ 64\<close>, and no digits at all are zero.
\<close>

definition strtoull :: "string \<Rightarrow> u64" where
  "strtoull s =
     (let s = dropWhile is_space s;
          neg = (take 1 s = ''-'');
          s = (if take 1 s = ''-'' \<or> take 1 s = ''+'' then drop 1 s else s);
          v = digits_value (takeWhile is_digit s)
      in if v \<ge> 0x10000000000000000 then UINT64_MAX
         else if neg then - word_of_int v else word_of_int v)"

section \<open>Printing and reading back\<close>

lemma of_char_digit: "0 \<le> d \<Longrightarrow> d < 10 \<Longrightarrow> (of_char (digit_char d) :: int) = 48 + d"
  by (simp add: digit_char_def)

lemma digit_char_is_digit: "0 \<le> d \<Longrightarrow> d < 10 \<Longrightarrow> is_digit (digit_char d)"
proof -
  assume "0 \<le> d" "d < 10"
  then have "d = 0 \<or> d = 1 \<or> d = 2 \<or> d = 3 \<or> d = 4 \<or> d = 5 \<or> d = 6 \<or> d = 7 \<or> d = 8 \<or> d = 9"
    by presburger
  then show ?thesis
    by (elim disjE; simp only: digit_char_def is_digit_def; code_simp)
qed

lemma dec_digits: "0 \<le> n \<Longrightarrow> list_all is_digit (dec n)"
proof (induction n rule: dec.induct)
  case (1 n)
  then show ?case
    by (subst dec.simps) (auto simp: digit_char_is_digit)
qed

lemma digits_value_snoc: "digits_value (ds @ [c]) = digits_value ds * 10 + digit_value c"
  by (simp add: digits_value_def)

lemma digits_value_dec: "0 \<le> n \<Longrightarrow> digits_value (dec n) = n"
proof (induction n rule: dec.induct)
  case (1 n)
  show ?case
  proof (cases "n < 10")
    case True
    with "1.prems" show ?thesis
      by (subst dec.simps) (simp add: digits_value_def digit_value_def of_char_digit)
  next
    case False
    with 1 show ?thesis
      by (subst dec.simps) (simp add: digits_value_snoc digit_value_def of_char_digit)
  qed
qed

lemma dec_nonempty: "dec n \<noteq> []"
  by (subst dec.simps) simp

lemma digit_not_sign: "is_digit c \<Longrightarrow> \<not> is_space c \<and> c \<noteq> CHR ''-'' \<and> c \<noteq> CHR ''+''"
  by (auto simp: is_digit_def is_space_def less_eq_char_def)

lemma strtoull_dec:
  assumes "\<not> is_digit c"
  shows "strtoull (dec_u64 v @ c # r) = v" and "strtoull (dec_u64 v) = v"
proof -
  let ?ds = "dec_u64 v"
  have all: "list_all is_digit ?ds" and ne: "?ds \<noteq> []"
    by (simp_all add: dec_u64_def dec_digits dec_nonempty)
  then obtain d ds where ds: "?ds = d # ds" "is_digit d" by (cases ?ds) auto
  have take: "takeWhile is_digit (?ds @ c # r) = ?ds" "takeWhile is_digit ?ds = ?ds"
    using all assms by (auto simp: list_all_iff takeWhile_append2 takeWhile_eq_all_conv)
  have skip: "dropWhile is_space (?ds @ r') = ?ds @ r'" for r'
    using ds digit_not_sign [OF ds(2)] by simp
  have val: "digits_value ?ds = uint v" by (simp add: dec_u64_def digits_value_dec)
  have lt: "uint v < 0x10000000000000000" using uint_lt2p [of v] by simp
  have sign: "take 1 (?ds @ r') \<noteq> ''-''" "take 1 (?ds @ r') \<noteq> ''+''" for r'
    using ds digit_not_sign [OF ds(2)] by auto
  show "strtoull (?ds @ c # r) = v"
    unfolding strtoull_def Let_def skip using sign [of "c # r"] lt by (simp add: take(1) val)
  show "strtoull ?ds = v"
    unfolding strtoull_def Let_def skip [of "[]", simplified]
    using sign [of "[]"] lt by (simp add: take(2) val)
qed

lemma dec_length: "0 \<le> n \<Longrightarrow> n < 10 ^ Suc k \<Longrightarrow> length (dec n) \<le> Suc k"
proof (induction k arbitrary: n)
  case 0
  then show ?case by (subst dec.simps) simp
next
  case (Suc k)
  then show ?case using Suc.IH [of "n div 10"] by (subst dec.simps) auto
qed

end
