(* ===== verification/Pusher.thy ===== *)
theory Pusher
  imports Retention Push_Registry Decimal
begin

text \<open>
  The delivery engine (\<open>src/src/push.c\<close>): the list of subscriptions, the list of subjects, how a
  batch is chosen and sent, what its response means, and the pump that drives it. The transport is
  the host's: what it answers is part of the state (\<open>transport\<close>), and what is asked of it is
  recorded (\<open>p_sent\<close>, \<open>p_closed\<close>). A transport reports back after \<open>send\<close> has returned, as the
  interface demands. Memory is assumed to be available, and messages to \<open>stderr\<close> are left out.
\<close>

section \<open>State\<close>

definition PUSH_DEFAULT_BATCH_BYTES :: u64 where "PUSH_DEFAULT_BATCH_BYTES = 65536"
definition PUSH_MAX_BATCH_BYTES :: u64 where "PUSH_MAX_BATCH_BYTES = 4 * 1024 * 1024"
definition PUSH_BACKOFF_MS :: u64 where "PUSH_BACKOFF_MS = 500"
definition PUSH_MAX_BACKOFF_MS :: u64 where "PUSH_MAX_BACKOFF_MS = 30000"
definition PUSH_TICK_MS :: u64 where "PUSH_TICK_MS = 2"
definition PUSH_IDLE_MS :: u64 where "PUSH_IDLE_MS = 1000"
definition BJM_PUSH_JOBS_MAX :: nat where "BJM_PUSH_JOBS_MAX = 64"
definition SUKKAL_MEDIA_TYPE :: string where "SUKKAL_MEDIA_TYPE = ''application/binjson''"

text \<open>
  One subscription. \<open>u_id\<close> is its address, which the transport is given and hands back; an absent
  \<open>X-Sukkal-Ack\<close> or \<open>X-Sukkal-Done\<close> is \<open>None\<close>.
\<close>

record psub =
  u_id :: nat
  u_consumer :: string
  u_cfg :: bjm_push_sub
  u_conn :: "nat option"
  u_hdrs :: "string list"
  u_inflight :: bool
  u_gone :: bool
  u_url :: string
  u_subject :: string
  u_first :: u64
  u_last :: u64
  u_lag :: u64
  u_body :: bytes
  u_ack_hint :: "u64 option"
  u_resp :: string
  u_jobs :: "u64 list"
  u_done_list :: "u64 list option"
  u_due_ms :: u64
  u_wake_ms :: u64
  u_failures :: nat
  u_last_error :: string
  u_delivered :: u64
  u_rr :: nat

definition psub_zero :: psub where
  "psub_zero =
     \<lparr>u_id = 0, u_consumer = [], u_cfg = push_sub_zero, u_conn = None, u_hdrs = [], u_inflight = False,
      u_gone = False, u_url = [], u_subject = [], u_first = 0, u_last = 0, u_lag = 0, u_body = [],
      u_ack_hint = None, u_resp = [], u_jobs = [], u_done_list = None, u_due_ms = 0, u_wake_ms = 0,
      u_failures = 0, u_last_error = [], u_delivered = 0, u_rr = 0\<rparr>"

text \<open>
  What the transport does: the connection \<open>open\<close> answers (\<open>None\<close> when there is no such function
  or it answers \<open>NULL\<close>), whether it has a \<open>close\<close>, and whether \<open>send\<close> starts a transfer.
\<close>

record transport =
  x_open :: "nat option"
  x_close :: bool
  x_send :: "(nat option \<Rightarrow> string \<Rightarrow> string list \<Rightarrow> bytes \<Rightarrow> bool) option"

definition no_transport :: transport where
  "no_transport = \<lparr>x_open = None, x_close = False, x_send = None\<rparr>"

record pusher =
  p_xfer :: transport
  p_subs :: "psub list"
  p_names :: "string list"
  p_work :: bool
  p_inflight :: int
  p_default_batch :: u64
  p_next_id :: nat
  p_sent :: "(nat \<times> string \<times> string list \<times> bytes) list"
  p_closed :: "nat list"

section \<open>The subject list\<close>

definition names_add :: "pusher \<Rightarrow> string \<Rightarrow> pusher" where
  "names_add p name =
     (if name \<in> set (p_names p) then p
      else p\<lparr>p_names := p_names p @ [take BJM_SUBJECT_MAX name]\<rparr>)"

fun nm_string :: "ev \<Rightarrow> pusher \<Rightarrow> pusher" where
  "nm_string (EStr v) p = (if length v > BJM_SUBJECT_MAX then p else names_add p (c_str v))"
| "nm_string _ p = p"

definition names_load :: "('t, 'l) lib \<Rightarrow> ('t, 'l) store \<Rightarrow> pusher \<Rightarrow> pusher res" where
  "names_load L st p =
     (case bjm_store_listing st of
        Inl e \<Rightarrow> Inl e
      | Inr names \<Rightarrow>
          (case bjm_subjects L names None of
             Inl e \<Rightarrow> Inl e
           | Inr out \<Rightarrow>
               (case bj_decode L out of Inl e \<Rightarrow> Inl e | Inr evs \<Rightarrow> Inr (fold nm_string evs p))))"

definition pat_matches :: "string \<Rightarrow> string \<Rightarrow> bool" where
  "pat_matches pattern name =
     (if bjm_pattern_is pattern then bjm_pattern_match pattern name else pattern = name)"

section \<open>What a response says\<close>

definition on_body :: "psub \<Rightarrow> string \<Rightarrow> psub" where
  "on_body s d = s\<lparr>u_resp := u_resp s @ take (191 - length (u_resp s)) d\<rparr>"

definition to_lower :: "char \<Rightarrow> char" where
  "to_lower c = (if CHR ''A'' \<le> c \<and> c \<le> CHR ''Z'' then char_of ((of_char c :: int) + 32) else c)"

text \<open>Where the value begins, or zero.\<close>

definition hdr_is :: "string \<Rightarrow> string \<Rightarrow> nat" where
  "hdr_is d name =
     (if length d \<le> length name then 0
      else if map to_lower (take (length name) d) = name then length name else 0)"

text \<open>Up to \<open>k\<close> numbers, whatever stands between them; a number wraps at 64 bits.\<close>

fun done_numbers :: "nat \<Rightarrow> string \<Rightarrow> u64 list" where
  "done_numbers 0 s = []"
| "done_numbers (Suc k) s =
     (let s = dropWhile (\<lambda>c. \<not> is_digit c) s in
      if s = [] then []
      else foldl (\<lambda>v c. v * 10 + word_of_int (digit_value c)) 0 (takeWhile is_digit s)
             # done_numbers k (dropWhile is_digit s))"

definition on_hdr :: "psub \<Rightarrow> string \<Rightarrow> psub" where
  "on_hdr s d =
     (let at_ack = hdr_is d ''x-sukkal-ack:'' in
      if at_ack \<noteq> 0 then s\<lparr>u_ack_hint := Some (strtoull (drop at_ack d))\<rparr>
      else
        let at_done = hdr_is d ''x-sukkal-done:'' in
        if at_done \<noteq> 0
        then s\<lparr>u_done_list := Some (done_numbers BJM_PUSH_JOBS_MAX (drop at_done d))\<rparr>
        else s)"

section \<open>Registering\<close>

definition psub_free :: "pusher \<Rightarrow> psub \<Rightarrow> pusher" where
  "psub_free p s =
     (case u_conn s of
        Some c \<Rightarrow> if x_close (p_xfer p) then p\<lparr>p_closed := p_closed p @ [c]\<rparr> else p
      | None \<Rightarrow> p)"

definition psub_new :: "pusher \<Rightarrow> string \<Rightarrow> bjm_push_sub \<Rightarrow> psub" where
  "psub_new p consumer cfg =
     psub_zero\<lparr>u_id := p_next_id p, u_consumer := take BJM_CONSUMER_MAX consumer, u_cfg := cfg,
       u_conn := x_open (p_xfer p)\<rparr>"

definition load_one :: "pusher \<Rightarrow> string \<Rightarrow> bjm_push_sub \<Rightarrow> pusher \<times> bool" where
  "load_one p consumer cfg =
     (p\<lparr>p_subs := p_subs p @ [psub_new p consumer cfg], p_next_id := p_next_id p + 1\<rparr>, False)"

definition bjm_pusher_new ::
    "('t, 'l) lib \<Rightarrow> ('t, 'l) store \<Rightarrow> u64 \<Rightarrow> ('t, 'l) store \<times> pusher option" where
  "bjm_pusher_new L st default_batch =
     (let p = \<lparr>p_xfer = no_transport, p_subs = [], p_names = [], p_work = False, p_inflight = 0,
               p_default_batch = (if default_batch \<noteq> 0 then default_batch else PUSH_DEFAULT_BATCH_BYTES),
               p_next_id = 0, p_sent = [], p_closed = []\<rparr>
      in (case names_load L st p of
            Inl _ \<Rightarrow> (st, None)
          | Inr p \<Rightarrow>
              (case bjm_push_each L st load_one p of
                 (st, p, Inl _) \<Rightarrow> (st, None)
               | (st, p, Inr _) \<Rightarrow> (st, Some (p\<lparr>p_work := True\<rparr>)))))"

text \<open>The loop frees only the subscriptions with a delivery in flight.\<close>

definition bjm_pusher_free :: "pusher \<Rightarrow> pusher" where
  "bjm_pusher_free p = fold (\<lambda>s p. if u_inflight s then psub_free p s else p) (p_subs p) p"

definition bjm_pusher_count :: "pusher \<Rightarrow> nat" where
  "bjm_pusher_count p = length (p_subs p)"

definition bjm_pusher_notify :: "pusher \<Rightarrow> string \<Rightarrow> pusher" where
  "bjm_pusher_notify p subject = (names_add p subject)\<lparr>p_work := True\<rparr>"

text \<open>The position of the first element with a property.\<close>

fun position :: "('a \<Rightarrow> bool) \<Rightarrow> 'a list \<Rightarrow> nat option" where
  "position P [] = None"
| "position P (x # xs) = (if P x then Some 0 else map_option Suc (position P xs))"

text \<open>Take an element out by moving the last one into its place.\<close>

definition swap_out :: "nat \<Rightarrow> 'a list \<Rightarrow> 'a list" where
  "swap_out i xs = butlast (xs[i := last xs])"

definition bjm_pusher_add :: "pusher \<Rightarrow> string \<Rightarrow> bjm_push_sub \<Rightarrow> pusher" where
  "bjm_pusher_add p consumer cfg =
     (case position (\<lambda>s. \<not> u_gone s \<and> u_consumer s = consumer) (p_subs p) of
        Some i \<Rightarrow> p\<lparr>p_subs := (p_subs p)[i := (p_subs p ! i)\<lparr>u_cfg := cfg\<rparr>], p_work := True\<rparr>
      | None \<Rightarrow> (fst (load_one p consumer cfg))\<lparr>p_work := True\<rparr>)"

definition bjm_pusher_remove :: "pusher \<Rightarrow> string \<Rightarrow> pusher" where
  "bjm_pusher_remove p consumer =
     (case position (\<lambda>s. u_consumer s = consumer) (p_subs p) of
        None \<Rightarrow> p
      | Some i \<Rightarrow>
          let s = p_subs p ! i in
          if u_inflight s then p\<lparr>p_subs := (p_subs p)[i := s\<lparr>u_gone := True\<rparr>]\<rparr>
          else (psub_free p s)\<lparr>p_subs := swap_out i (p_subs p)\<rparr>)"

section \<open>Where a subscription starts\<close>

definition seed_one ::
    "('t, 'l) lib \<Rightarrow> string \<Rightarrow> string \<Rightarrow> bool \<Rightarrow> u64 \<Rightarrow> string \<Rightarrow> ('t, 'l) store \<Rightarrow> ('t, 'l) store" where
  "seed_one L consumer pattern at_end from name st =
     (if \<not> pat_matches pattern name then st
      else
        (case bjm_cursor_get L st name consumer of
           (st, Inl _) \<Rightarrow> st
         | (st, Inr (Some _)) \<Rightarrow> st
         | (st, Inr None) \<Rightarrow>
             (case (if at_end then bjm_last_index L st name
                    else (st, if from > 1 then from - 1 else 0)) of
                (st, a) \<Rightarrow> fst (bjm_cursor_set L st name consumer a))))"

definition bjm_pusher_seed ::
    "('t, 'l) lib \<Rightarrow> ('t, 'l) store \<Rightarrow> pusher \<Rightarrow> string \<Rightarrow> string \<Rightarrow> bool \<Rightarrow> u64
      \<Rightarrow> ('t, 'l) store \<times> pusher" where
  "bjm_pusher_seed L st p consumer pattern at_end from =
     (let st = fold (seed_one L consumer (take BJM_SUBJECT_MAX pattern) at_end from) (p_names p) st
      in (fst (bjm_cursor_sync L st), p\<lparr>p_work := True\<rparr>))"

end
