(* ===== verification/Delivery.thy ===== *)
theory Delivery
  imports Pusher
begin

text \<open>
  Deliveries (\<open>src/src/push.c\<close>): sending a batch, leasing jobs for a pushed worker, choosing the next
  batch of a subscription, settling what a response says, and the pump.
\<close>

section \<open>Sending a batch\<close>

text \<open>
  One header line, cut to the line buffer and dropped when the header buffer has no room for it.
\<close>

definition hdr_add :: "psub \<Rightarrow> string \<Rightarrow> psub" where
  "hdr_add s line =
     (let line = take (BJM_CALLBACK_MAX + 127) line;
          hdrlen = sum_list (map (\<lambda>h. int (length h) + 1) (u_hdrs s))
      in if hdrlen + int (length line) + 1 > 8 * (int BJM_CALLBACK_MAX + 128) then s
         else s\<lparr>u_hdrs := u_hdrs s @ [line]\<rparr>)"

definition header_lines :: "psub \<Rightarrow> nat \<Rightarrow> string list" where
  "header_lines s cnt =
     [''Content-Type: '' @ SUKKAL_MEDIA_TYPE,
      ''X-Sukkal-Subject: '' @ u_subject s,
      ''X-Sukkal-Consumer: '' @ u_consumer s,
      ''X-Sukkal-Count: '' @ dec (int cnt),
      ''X-Sukkal-First-Index: '' @ dec_u64 (u_first s),
      ''X-Sukkal-Last-Index: '' @ dec_u64 (u_last s),
      if ps_group (u_cfg s) \<noteq> [] then ''X-Sukkal-Group: '' @ ps_group (u_cfg s)
      else ''X-Sukkal-Lag: '' @ dec_u64 (u_lag s)] @
     (if ps_token (u_cfg s) \<noteq> [] then [''Authorization: Bearer '' @ ps_token (u_cfg s)] else []) @
     [''Expect:'']"

definition send_batch :: "pusher \<Rightarrow> psub \<Rightarrow> nat \<Rightarrow> pusher \<times> psub \<times> bool" where
  "send_batch p s cnt =
     (let s = s\<lparr>u_url := take BJM_CALLBACK_MAX (ps_callback (u_cfg s)), u_hdrs := []\<rparr>;
          s = foldl hdr_add s (header_lines s cnt);
          s = s\<lparr>u_resp := [], u_ack_hint := None, u_done_list := None\<rparr>
      in (case x_send (p_xfer p) of
            None \<Rightarrow> (p, s, False)
          | Some send \<Rightarrow>
              if \<not> send (u_conn s) (u_url s) (u_hdrs s) (u_body s) then (p, s, False)
              else (p\<lparr>p_inflight := p_inflight p + 1,
                      p_sent := p_sent p @ [(u_id s, u_url s, u_hdrs s, u_body s)]\<rparr>,
                    s\<lparr>u_inflight := True\<rparr>, True)))"

section \<open>Leasing jobs for a worker\<close>

fun job_grab :: "ev \<Rightarrow> string \<times> u64 list \<Rightarrow> string \<times> u64 list" where
  "job_grab (EKey k) (key, js) = (grab_key 16 k, js)"
| "job_grab (EInt v) (key, js) =
     (key, if key = ''index'' \<and> length js < BJM_PUSH_JOBS_MAX then js @ [v] else js)"
| "job_grab _ x = x"

definition take_batch ::
    "('t, 'l) lib \<Rightarrow> ('t, 'l) store \<Rightarrow> psub \<Rightarrow> string
      \<Rightarrow> ('t, 'l) store \<times> psub \<times> (nat \<times> bytes) option" where
  "take_batch L st s name =
     (let want = (if ps_max_jobs (u_cfg s) \<noteq> 0 then ps_max_jobs (u_cfg s) else 1);
          want = (if want > of_nat BJM_PUSH_JOBS_MAX then of_nat BJM_PUSH_JOBS_MAX else want)
      in (case bjm_take L st name (ps_group (u_cfg s)) (uint want) UINT64_MAX of
            (st, Inl _) \<Rightarrow> (st, s, None)
          | (st, Inr (cnt, out)) \<Rightarrow>
              if cnt = 0 then (st, s, None)
              else
                (case bj_decode L out of
                   Inl _ \<Rightarrow> (st, s\<lparr>u_jobs := []\<rparr>, None)
                 | Inr evs \<Rightarrow>
                     let js = snd (fold job_grab evs ([], [])) in
                     (st, s\<lparr>u_jobs := js\<rparr>, if js = [] then None else Some (cnt, out)))))"

text \<open>The publishes the store made meanwhile reach the engine through its hook.\<close>

definition hear :: "pusher \<Rightarrow> (string \<times> u64) list \<Rightarrow> pusher" where
  "hear p pubs = fold (\<lambda>(subject, i) p. bjm_pusher_notify p subject) pubs p"

definition note_due :: "u64 option \<Rightarrow> psub \<Rightarrow> psub" where
  "note_due due s =
     (case due of
        None \<Rightarrow> s
      | Some d \<Rightarrow> if u_wake_ms s = 0 \<or> d < u_wake_ms s then s\<lparr>u_wake_ms := d\<rparr> else s)"

text \<open>
  One subject, for a worker and for a subscriber. The last component is \<open>None\<close> when there was
  nothing to send and the search goes on.
\<close>

definition offer_jobs ::
    "('t, 'l) lib \<Rightarrow> ('t, 'l) store \<Rightarrow> pusher \<Rightarrow> psub \<Rightarrow> string \<Rightarrow> nat
      \<Rightarrow> ('t, 'l) store \<times> pusher \<times> psub \<times> bool option" where
  "offer_jobs L st p s name i =
     (case take_batch L st s name of
        (st', s, got) \<Rightarrow>
          let p = hear p (drop (length (st_pubs st)) (st_pubs st')) in
          (case got of
             None \<Rightarrow>
               (case bjm_queue_next_due L st' name (ps_group (u_cfg s)) of
                  (st', Inl _) \<Rightarrow> (st', p, s, None)
                | (st', Inr due) \<Rightarrow> (st', p, note_due due s, None))
           | Some (cnt, out) \<Rightarrow>
               let s = s\<lparr>u_body := out, u_subject := take BJM_SUBJECT_MAX name, u_first := hd (u_jobs s),
                         u_last := last (u_jobs s), u_lag := 0,
                         u_rr := (i + 1) mod length (p_names p)\<rparr>
               in (case send_batch p s cnt of (p, s, ok) \<Rightarrow> (st', p, s, Some ok))))"

text \<open>
  Where delivery resumes: above the receipt, or above the base when messages beyond the receipt have
  been trimmed; the receipt is then moved there. \<open>None\<close> when there is nothing to deliver.
\<close>

definition resume_at ::
    "('t, 'l) lib \<Rightarrow> ('t, 'l) store \<Rightarrow> string \<Rightarrow> string \<Rightarrow> u64 \<Rightarrow> u64 \<Rightarrow> u64
      \<Rightarrow> ('t, 'l) store \<times> u64 option" where
  "resume_at L st name consumer base last_ix acked =
     (if last_ix \<le> acked then (st, None)
      else if acked < base
      then (fst (bjm_cursor_set L st name consumer base), if last_ix \<le> base then None else Some base)
      else (st, Some acked))"

text \<open>The next batch of a subject: \<open>(acked, count, bytes, last index of the log)\<close>.\<close>

definition find_batch ::
    "('t, 'l) lib \<Rightarrow> ('t, 'l) store \<Rightarrow> u64 \<Rightarrow> psub \<Rightarrow> string
      \<Rightarrow> ('t, 'l) store \<times> (u64 \<times> nat \<times> bytes \<times> u64) option" where
  "find_batch L st default_batch s name =
     (case bjm_subject_info L st name of
        (st, Inl _) \<Rightarrow> (st, None)
      | (st, Inr (base, last_ix, _)) \<Rightarrow>
          (case bjm_cursor_get L st name (u_consumer s) of
             (st, Inl _) \<Rightarrow> (st, None)
           | (st, Inr found) \<Rightarrow>
               (case resume_at L st name (u_consumer s) base last_ix
                       (case found of Some a \<Rightarrow> a | None \<Rightarrow> 0) of
                  (st, None) \<Rightarrow> (st, None)
                | (st, Some acked) \<Rightarrow>
                    let want = (if ps_batch_bytes (u_cfg s) \<noteq> 0 then ps_batch_bytes (u_cfg s)
                                else default_batch);
                        want = (if want > PUSH_MAX_BATCH_BYTES then PUSH_MAX_BATCH_BYTES else want)
                    in (case bjm_read L st name (acked + 1) want of
                          (st, Inl _) \<Rightarrow> (st, None)
                        | (st, Inr (cnt, out, log_last)) \<Rightarrow>
                            (st, if cnt = 0 then None else Some (acked, cnt, out, log_last))))))"

definition offer_messages ::
    "('t, 'l) lib \<Rightarrow> ('t, 'l) store \<Rightarrow> pusher \<Rightarrow> psub \<Rightarrow> string \<Rightarrow> nat
      \<Rightarrow> ('t, 'l) store \<times> pusher \<times> psub \<times> bool option" where
  "offer_messages L st p s name i =
     (case find_batch L st (p_default_batch p) s name of
        (st, None) \<Rightarrow> (st, p, s, None)
      | (st, Some (acked, cnt, out, log_last)) \<Rightarrow>
          let lst = acked + of_nat cnt;
              s = s\<lparr>u_body := out, u_subject := take BJM_SUBJECT_MAX name,
                    u_first := acked + 1, u_last := lst,
                    u_lag := (if log_last > lst then log_last - lst else 0),
                    u_rr := (i + 1) mod length (p_names p)\<rparr>
          in (case send_batch p s cnt of (p, s, ok) \<Rightarrow> (st, p, s, Some ok)))"

section \<open>The search for a batch ends\<close>

text \<open>
  A take publishes dead letters, which can add the dead-letter channel of the subject to the list
  while it is being walked, and nothing else. The number of subjects still to come, counting
  channels that may yet appear, bounds the walk.
\<close>

lemma pubs_kept:
  "subject_get L st n c = (st', r1) \<Longrightarrow> st_pubs st' = st_pubs st"
  "queues_open L st = (st', r2) \<Longrightarrow> st_pubs st' = st_pubs st"
  "queue_load L st n g = (st', r3) \<Longrightarrow> st_pubs st' = st_pubs st"
  "queue_store L st n g q = (st', r4) \<Longrightarrow> st_pubs st' = st_pubs st"
proof -
  show get: "subject_get L st n c = (st', r1) \<Longrightarrow> st_pubs st' = st_pubs st" for st st' c r1
    by (auto simp: subject_get_def Let_def split: option.splits prod.splits sum.splits if_splits)
  show "queues_open L st = (st', r2) \<Longrightarrow> st_pubs st' = st_pubs st"
    by (auto simp: queues_open_def split: prod.splits)
  show "queue_load L st n g = (st', r3) \<Longrightarrow> st_pubs st' = st_pubs st"
    by (auto simp: queue_load_def split: prod.splits option.splits sum.splits dest: get)
  show "queue_store L st n g q = (st', r4) \<Longrightarrow> st_pubs st' = st_pubs st"
    by (auto simp: queue_store_def split: prod.splits option.splits sum.splits)
qed

lemma policy_get_pubs: "bjm_policy_get L st n = (st', r) \<Longrightarrow> st_pubs st' = st_pubs st"
  by (auto simp: bjm_policy_get_def policy_open_def split: prod.splits option.splits sum.splits)

lemma mark_publish_pubs: "st_pubs (mark_publish L st s i) = st_pubs st"
proof -
  have "subject_policy L st s = (st1, x) \<Longrightarrow> st_pubs st1 = st_pubs st" for st1 x
    by (auto simp: subject_policy_def upd_sub_def split: prod.splits option.splits sum.splits if_splits
        dest: policy_get_pubs)
  moreover have "marks_store L st2 m ms = (st1, x) \<Longrightarrow> st_pubs st1 = st_pubs st2" for st1 st2 m ms x
    by (auto simp: marks_store_def split: prod.splits option.splits sum.splits)
  ultimately show ?thesis
    by (auto simp: mark_publish_def upd_sub_def Let_def split: prod.splits option.splits sum.splits)
qed

lemma publish_pubs:
  "bjm_publish L st n ty b = (st', r) \<Longrightarrow> \<exists>ps. st_pubs st' = st_pubs st @ ps \<and> fst ` set ps \<subseteq> {n}"
  by (auto simp: bjm_publish_def upd_sub_def mark_publish_pubs Let_def dest: pubs_kept(1)
      split: prod.splits sum.splits if_splits)

lemma dead_letters_pubs:
  "\<exists>ps. st_pubs (dead_letters L st s g d now ds) = st_pubs st @ ps \<and> fst ` set ps \<subseteq> {d}"
proof (induction ds arbitrary: st)
  case (Cons x ds)
  obtain i a where x: "x = (i, a)" by (cases x)
  obtain st1 r where get: "subject_get L st s False = (st1, r)" by (cases "subject_get L st s False")
  note same = pubs_kept(1) [OF get]
  have pub: "\<exists>ps. st_pubs (dead_letters L (fst (bjm_publish L st1 d k b)) s g d now ds) = st_pubs st @ ps \<and>
      fst ` set ps \<subseteq> {d}" for k b
  proof -
    obtain st2 y where p: "bjm_publish L st1 d k b = (st2, y)" by (cases "bjm_publish L st1 d k b")
    obtain p1 where p1: "st_pubs st2 = st_pubs st1 @ p1" "fst ` set p1 \<subseteq> {d}"
      using publish_pubs [OF p] by blast
    obtain p2 where "st_pubs (dead_letters L st2 s g d now ds) = st_pubs st2 @ p2" "fst ` set p2 \<subseteq> {d}"
      using Cons.IH [of st2] by blast
    with p1 same show ?thesis by (intro exI [of _ "p1 @ p2"]) (simp add: p image_Un)
  qed
  show ?case
  proof (cases r)
    case (Inl e)
    with get same show ?thesis by (simp add: x)
  next
    case (Inr src)
    have skip: "\<exists>ps. st_pubs (dead_letters L st1 s g d now ds) = st_pubs st @ ps \<and> fst ` set ps \<subseteq> {d}"
      using Cons.IH [of st1] same by simp
    show ?thesis
    proof (cases "elog_get L (s_log src) i")
      case (Inl e)
      with get \<open>r = Inr src\<close> skip show ?thesis by (simp add: x)
    next
      case (Inr m)
      obtain ty payload where "m = (ty, payload)" by (cases m)
      with get \<open>r = Inr src\<close> Inr skip pub show ?thesis
        by (cases "snd (bj_build L (dead_envelope s g i a now ty payload))") (simp_all add: x)
    qed
  qed
qed simp

lemma take_pubs:
  assumes "bjm_take L st s g n lease_ms = (st', r)"
  shows "\<exists>ps. st_pubs st' = st_pubs st @ ps \<and>
           (ps = [] \<or> (\<exists>d. dead_subject_of s (BJM_SUBJECT_MAX + 1) = Some d \<and> fst ` set ps \<subseteq> {d}))"
proof -
  have route: "\<exists>ps. st_pubs (route_dead L st1 s g now ds) = st_pubs st1 @ ps \<and>
      (ps = [] \<or> (\<exists>d. dead_subject_of s (BJM_SUBJECT_MAX + 1) = Some d \<and> fst ` set ps \<subseteq> {d}))"
    for st1 now ds
  proof (cases "ds = [] \<or> dead_subject_of s (BJM_SUBJECT_MAX + 1) = None")
    case True
    then show ?thesis by (auto simp: route_dead_def)
  next
    case False
    then obtain d where "dead_subject_of s (BJM_SUBJECT_MAX + 1) = Some d" "ds \<noteq> []" by auto
    with dead_letters_pubs [of L st1 s g d now ds] show ?thesis by (simp add: route_dead_def) blast
  qed
  obtain st1 where "st_pubs st1 = st_pubs st" "st' = st1 \<or> (\<exists>now ds. st' = route_dead L st1 s g now ds)"
    using assms
    by (auto simp: bjm_take_def Let_def dest!: pubs_kept split: prod.splits sum.splits option.splits) blast+
  with route show ?thesis by (metis append_Nil2)
qed

definition to_come :: "string list \<Rightarrow> nat" where
  "to_come names =
     length names + card {x \<in> set names. \<exists>d. dead_subject_of x (BJM_SUBJECT_MAX + 1) = Some d \<and> d \<notin> set names}"

lemma hear_names:
  "fst ` set ps \<subseteq> {d} \<Longrightarrow> length d \<le> BJM_SUBJECT_MAX \<Longrightarrow>
     p_names (hear p ps) = p_names p \<or> d \<notin> set (p_names p) \<and> p_names (hear p ps) = p_names p @ [d]"
proof (induction ps arbitrary: p)
  case (Cons x ps)
  have x: "fst x = d" and rest: "fst ` set ps \<subseteq> {d}" using Cons.prems(1) by auto
  have step: "hear p (x # ps) = hear (bjm_pusher_notify p d) ps"
    by (cases x) (use x in \<open>simp add: hear_def\<close>)
  have names: "p_names (bjm_pusher_notify p d) = (if d \<in> set (p_names p) then p_names p else p_names p @ [d])"
    using Cons.prems(2) by (simp add: bjm_pusher_notify_def names_add_def)
  show ?case
    using Cons.IH [OF rest Cons.prems(2), of "bjm_pusher_notify p d"] step names by (auto split: if_splits)
qed (simp add: hear_def)

lemma dead_subject_none: "dead_subject_of s c = Some d \<Longrightarrow> dead_subject_of d c' = None"
  by (auto simp: dead_subject_of_def has_dead_suffix_def Let_def split: if_splits)

lemma dead_subject_short: "dead_subject_of s (BJM_SUBJECT_MAX + 1) = Some d \<Longrightarrow> length d \<le> BJM_SUBJECT_MAX"
  by (auto simp: dead_subject_of_def Let_def split: if_splits)

lemma to_come_grows:
  assumes "x \<in> set names" and "dead_subject_of x (BJM_SUBJECT_MAX + 1) = Some d" and "d \<notin> set names"
  shows "to_come (names @ [d]) \<le> to_come names"
proof -
  let ?A = "\<lambda>ns. {x \<in> set ns. \<exists>d. dead_subject_of x (BJM_SUBJECT_MAX + 1) = Some d \<and> d \<notin> set ns}"
  have "?A (names @ [d]) \<subseteq> ?A names - {x}"
    using assms(2) dead_subject_none [OF assms(2)] by auto
  then have "card (?A (names @ [d])) \<le> card (?A names - {x})" by (intro card_mono) auto
  also have "card (?A names - {x}) < card (?A names)"
    using assms by (intro card_Diff1_less) auto
  finally show ?thesis by (simp add: to_come_def)
qed

lemma offer_jobs_names:
  assumes "offer_jobs L st p s name i = (st', p', s', r)" and "name \<in> set (p_names p)"
  shows "to_come (p_names p') \<le> to_come (p_names p)"
proof -
  obtain st1 s1 got where tb: "take_batch L st s name = (st1, s1, got)" by (cases "take_batch L st s name")
  then obtain ms lm y where "bjm_take L st name (ps_group (u_cfg s)) ms lm = (st1, y)"
    by (auto simp: take_batch_def Let_def split: prod.splits sum.splits if_splits)
  from take_pubs [OF this] obtain ps where ps: "st_pubs st1 = st_pubs st @ ps"
      "ps = [] \<or> (\<exists>d. dead_subject_of name (BJM_SUBJECT_MAX + 1) = Some d \<and> fst ` set ps \<subseteq> {d})"
    by blast
  have send: "p_names (fst (send_batch q u cnt)) = p_names q" for q u cnt
    by (auto simp: send_batch_def Let_def split: option.split)
  have "p_names p' = p_names (hear p ps)"
    using assms(1) tb ps(1) send
    by (auto simp: offer_jobs_def Let_def split: option.splits prod.splits sum.splits) (metis fst_conv)+
  moreover have "to_come (p_names (hear p ps)) \<le> to_come (p_names p)"
    using ps(2)
  proof
    assume "ps = []"
    then show ?thesis by (simp add: hear_def)
  next
    assume "\<exists>d. dead_subject_of name (BJM_SUBJECT_MAX + 1) = Some d \<and> fst ` set ps \<subseteq> {d}"
    then obtain d where d: "dead_subject_of name (BJM_SUBJECT_MAX + 1) = Some d" "fst ` set ps \<subseteq> {d}" by blast
    with hear_names [OF d(2) dead_subject_short [OF d(1)], of p] to_come_grows [OF assms(2) d(1)]
    show ?thesis by auto
  qed
  ultimately show ?thesis by simp
qed

lemma offer_messages_names:
  "offer_messages L st p s name i = (st', p', s', r) \<Longrightarrow> p_names p' = p_names p"
  by (auto simp: offer_messages_def send_batch_def Let_def
      split: option.splits prod.splits sum.splits if_splits)

section \<open>Choosing the next batch\<close>

definition offer ::
    "('t, 'l) lib \<Rightarrow> ('t, 'l) store \<Rightarrow> pusher \<Rightarrow> psub \<Rightarrow> string \<Rightarrow> nat
      \<Rightarrow> ('t, 'l) store \<times> pusher \<times> psub \<times> bool option" where
  "offer L st p s name i =
     (if \<not> pat_matches (ps_pattern (u_cfg s)) name then (st, p, s, None)
      else if ps_group (u_cfg s) \<noteq> [] then offer_jobs L st p s name i
      else offer_messages L st p s name i)"

lemma offer_names:
  "offer L st p s name i = (st', p', s', r) \<Longrightarrow> name \<in> set (p_names p) \<Longrightarrow>
     to_come (p_names p') \<le> to_come (p_names p)"
  using offer_jobs_names offer_messages_names [of L st p s name i]
  by (fastforce simp: offer_def split: if_splits)

lemma walk_shrinks:
  assumes n: "n < length (p_names p)"
    and o: "offer L st p s (p_names p ! ((u_rr s + n) mod length (p_names p))) i = (st', p', s', r)"
  shows "to_come (p_names p') - Suc n < to_come (p_names p) - n"
proof -
  have "p_names p ! ((u_rr s + n) mod length (p_names p)) \<in> set (p_names p)"
    using mod_less_divisor [of "length (p_names p)"] n by (intro nth_mem) fastforce
  from offer_names [OF o this] n show ?thesis by (simp add: to_come_def)
qed

text \<open>
  Round robin from the subject after the last one served. The result tells whether a delivery was
  started.
\<close>

function start_loop ::
    "('t, 'l) lib \<Rightarrow> ('t, 'l) store \<Rightarrow> pusher \<Rightarrow> psub \<Rightarrow> nat \<Rightarrow> ('t, 'l) store \<times> pusher \<times> psub \<times> bool" where
  "start_loop L st p s n =
     (if n < length (p_names p) then
        let i = (u_rr s + n) mod length (p_names p) in
        (case offer L st p s (p_names p ! i) i of
           (st, p, s, None) \<Rightarrow> start_loop L st p s (n + 1)
         | (st, p, s, Some started) \<Rightarrow> (st, p, s, started))
      else (st, p, s, False))"
  by pat_completeness auto
termination
  by (relation "measure (\<lambda>(L, st, p, s, n). to_come (p_names p) - n)") (auto dest: walk_shrinks [OF _ sym])

declare start_loop.simps [simp del]

definition start_delivery ::
    "('t, 'l) lib \<Rightarrow> ('t, 'l) store \<Rightarrow> pusher \<Rightarrow> psub \<Rightarrow> ('t, 'l) store \<times> pusher \<times> psub \<times> bool" where
  "start_delivery L st p s = start_loop L st p (s\<lparr>u_wake_ms := 0\<rparr>) 0"

end
