(* ===== verification/Settling.thy ===== *)
theory Settling
  imports Delivery
begin

text \<open>
  What ends a delivery and what drives the engine (\<open>src/src/push.c\<close>): backoff, settling the jobs of a
  worker and the batch of a subscriber, the pump, and the listing of subscriptions.
\<close>

section \<open>Backoff\<close>

fun push_wait :: "nat \<Rightarrow> u64 \<Rightarrow> u64" where
  "push_wait 0 w = w"
| "push_wait (Suc n) w = (if w < PUSH_MAX_BACKOFF_MS then push_wait n (w * 2) else w)"

definition backoff :: "psub \<Rightarrow> u64 \<Rightarrow> psub" where
  "backoff s now =
     (let failures = u_failures s + 1;
          w = push_wait (failures - 1) PUSH_BACKOFF_MS;
          w = (if w > PUSH_MAX_BACKOFF_MS then PUSH_MAX_BACKOFF_MS else w)
      in s\<lparr>u_failures := failures, u_due_ms := now + w\<rparr>)"

section \<open>Settling\<close>

definition http_ok :: "int \<Rightarrow> bool" where
  "http_ok status \<longleftrightarrow> status \<ge> 200 \<and> status < 300"

text \<open>The buffer of \<open>last_error\<close> holds 127 characters.\<close>

definition unreachable :: "string option \<Rightarrow> string" where
  "unreachable err = take 127 (case err of Some e \<Rightarrow> e | None \<Rightarrow> ''unreachable'')"

definition http_error :: "psub \<Rightarrow> int \<Rightarrow> string" where
  "http_error s status =
     take 127 (''HTTP '' @ dec_signed status @ (if u_resp s \<noteq> [] then '': '' else []) @ c_str (u_resp s))"

text \<open>One leased job: finished, or handed back to the group's own backoff.\<close>

definition settle_job ::
    "('t, 'l) lib \<Rightarrow> psub \<Rightarrow> bool \<Rightarrow> u64 \<Rightarrow> ('t, 'l) store \<times> u64 \<Rightarrow> ('t, 'l) store \<times> u64" where
  "settle_job L s ok idx x =
     (case x of (st, delivered) \<Rightarrow>
        let finished = ok \<and> (case u_done_list s of None \<Rightarrow> True | Some ds \<Rightarrow> idx \<in> set ds) in
        if finished then (fst (bjm_done L st (u_subject s) (ps_group (u_cfg s)) idx), delivered + 1)
        else (fst (bjm_fail L st (u_subject s) (ps_group (u_cfg s)) idx UINT64_MAX), delivered))"

definition recover :: "psub \<Rightarrow> psub" where
  "recover s = (if u_failures s \<noteq> 0 then s\<lparr>u_failures := 0, u_last_error := []\<rparr> else s)"

text \<open>The last component tells whether there may be more to deliver (\<open>p->work = 1\<close>).\<close>

definition finish_jobs ::
    "('t, 'l) lib \<Rightarrow> ('t, 'l) store \<Rightarrow> psub \<Rightarrow> bool \<Rightarrow> int \<Rightarrow> string option \<Rightarrow> u64
      \<Rightarrow> ('t, 'l) store \<times> psub \<times> bool" where
  "finish_jobs L st s reached status err now =
     (let ok = (reached \<and> http_ok status) in
      if \<not> reached then (st, backoff (s\<lparr>u_last_error := unreachable err\<rparr>) now, False)
      else
        (case fold (settle_job L s ok) (u_jobs s) (st, u_delivered s) of
           (st, delivered) \<Rightarrow>
             let s = s\<lparr>u_jobs := [], u_delivered := delivered\<rparr> in
             if \<not> ok then (st, backoff (s\<lparr>u_last_error := http_error s status\<rparr>) now, False)
             else (st, (recover s)\<lparr>u_due_ms := 0\<rparr>, True)))"

definition acked_to :: "psub \<Rightarrow> u64" where
  "acked_to s =
     (case u_ack_hint s of None \<Rightarrow> u_last s | Some a \<Rightarrow> if a > u_last s then u_last s else a)"

definition finish_batch ::
    "('t, 'l) lib \<Rightarrow> ('t, 'l) store \<Rightarrow> psub \<Rightarrow> bool \<Rightarrow> int \<Rightarrow> string option \<Rightarrow> u64
      \<Rightarrow> ('t, 'l) store \<times> psub \<times> bool" where
  "finish_batch L st s reached status err now =
     (if \<not> reached \<or> \<not> http_ok status
      then (st, backoff (s\<lparr>u_last_error := if \<not> reached then unreachable err else http_error s status\<rparr>) now,
            False)
      else
        let a = acked_to s in
        if a \<ge> u_first s then
          (fst (bjm_cursor_sync L (fst (bjm_cursor_set L st (u_subject s) (u_consumer s) a))),
           recover (s\<lparr>u_delivered := u_delivered s + (a - u_first s + 1), u_due_ms := 0\<rparr>), True)
        else
          (st, backoff (s\<lparr>u_last_error :=
                  take 127 (''accepted 0 of '' @ dec_u64 (u_last s - u_first s + 1) @ '' message(s)'')\<rparr>) now,
           False))"

text \<open>The end of one delivery; the subscription is the one the transport was given.\<close>

definition finish ::
    "('t, 'l) lib \<Rightarrow> ('t, 'l) store \<Rightarrow> pusher \<Rightarrow> nat \<Rightarrow> bool \<Rightarrow> int \<Rightarrow> string option \<Rightarrow> u64
      \<Rightarrow> ('t, 'l) store \<times> pusher" where
  "finish L st p i reached status err now =
     (let s = (p_subs p ! i)\<lparr>u_inflight := False\<rparr>;
          p = p\<lparr>p_inflight := p_inflight p - 1\<rparr>
      in if u_gone s then (st, (psub_free p s)\<lparr>p_subs := swap_out i (p_subs p)\<rparr>)
         else
           (case (if ps_group (u_cfg s) \<noteq> [] then finish_jobs L st s reached status err now
                  else finish_batch L st s reached status err now) of
              (st, s, again) \<Rightarrow>
                (st, p\<lparr>p_subs := (p_subs p)[i := s], p_work := (again \<or> p_work p)\<rparr>)))"

definition bjm_pusher_delivered ::
    "('t, 'l) lib \<Rightarrow> ('t, 'l) store \<Rightarrow> pusher \<Rightarrow> nat \<Rightarrow> bool \<Rightarrow> int \<Rightarrow> string option \<Rightarrow> u64
      \<Rightarrow> ('t, 'l) store \<times> pusher" where
  "bjm_pusher_delivered L st p sub reached status err now =
     (case position (\<lambda>s. u_id s = sub) (p_subs p) of
        None \<Rightarrow> (st, p)
      | Some i \<Rightarrow> finish L st p i reached status err now)"

definition on_sub :: "pusher \<Rightarrow> nat \<Rightarrow> (psub \<Rightarrow> psub) \<Rightarrow> pusher" where
  "on_sub p sub f = p\<lparr>p_subs := map (\<lambda>s. if u_id s = sub then f s else s) (p_subs p)\<rparr>"

definition bjm_pusher_on_header :: "pusher \<Rightarrow> nat \<Rightarrow> string \<Rightarrow> pusher" where
  "bjm_pusher_on_header p sub line = on_sub p sub (\<lambda>s. on_hdr s line)"

definition bjm_pusher_on_body :: "pusher \<Rightarrow> nat \<Rightarrow> string \<Rightarrow> pusher" where
  "bjm_pusher_on_body p sub d = on_sub p sub (\<lambda>s. on_body s d)"

definition bjm_pusher_set_transport :: "pusher \<Rightarrow> transport \<Rightarrow> pusher" where
  "bjm_pusher_set_transport p t = p\<lparr>p_xfer := t\<rparr>"

section \<open>The pump\<close>

text \<open>The state of one pass: \<open>(started, busy, next_due)\<close>.\<close>

definition sooner :: "u64 \<Rightarrow> u64 \<Rightarrow> u64" where
  "sooner due next_due = (if next_due = 0 \<or> due < next_due then due else next_due)"

definition pump_one ::
    "('t, 'l) lib \<Rightarrow> u64 \<Rightarrow> nat \<Rightarrow> ('t, 'l) store \<times> pusher \<times> bool \<times> bool \<times> u64
      \<Rightarrow> ('t, 'l) store \<times> pusher \<times> bool \<times> bool \<times> u64" where
  "pump_one L now i x =
     (case x of (st, p, started, busy, next_due) \<Rightarrow>
        let s = p_subs p ! i in
        if u_gone s then (st, p, started, busy, next_due)
        else if u_inflight s then (st, p, started, True, next_due)
        else if u_due_ms s > now then (st, p, started, True, sooner (u_due_ms s) next_due)
        else
          (case start_delivery L st p s of
             (st, p, s, ok) \<Rightarrow>
               let p = p\<lparr>p_subs := (p_subs p)[i := s]\<rparr> in
               if u_wake_ms s \<noteq> 0 then (st, p, started \<or> ok, True, sooner (u_wake_ms s) next_due)
               else (st, p, started \<or> ok, busy, next_due)))"

definition pump_pass ::
    "('t, 'l) lib \<Rightarrow> ('t, 'l) store \<Rightarrow> pusher \<Rightarrow> u64 \<Rightarrow> ('t, 'l) store \<times> pusher \<times> u64" where
  "pump_pass L st p now =
     (case fold (pump_one L now) [0..<length (p_subs p)] (st, p, False, False, 0) of
        (st, p, started, busy, next_due) \<Rightarrow>
          (st, if \<not> started \<and> \<not> busy then p\<lparr>p_work := False\<rparr> else p, next_due))"

text \<open>The answer is how long the caller may sleep, in milliseconds.\<close>

definition bjm_pusher_pump ::
    "('t, 'l) lib \<Rightarrow> ('t, 'l) store \<Rightarrow> pusher \<Rightarrow> u64 \<Rightarrow> ('t, 'l) store \<times> pusher \<times> u64" where
  "bjm_pusher_pump L st p now =
     (case (if p_work p then pump_pass L st p now else (st, p, 0)) of
        (st, p, next_due) \<Rightarrow>
          (st, p,
           if p_inflight p \<noteq> 0 then PUSH_TICK_MS
           else if p_work p then 0
           else if next_due \<noteq> 0 then
             let wait = next_due - now in if wait < PUSH_IDLE_MS then wait else PUSH_IDLE_MS
           else PUSH_IDLE_MS))"

section \<open>Listing\<close>

definition psub_object :: "psub \<Rightarrow> ev list" where
  "psub_object s = bj_object
     [(''consumer'', [EStr (u_consumer s)]), (''pattern'', [EStr (ps_pattern (u_cfg s))]),
      (''callback'', [EStr (ps_callback (u_cfg s))]), (''group'', [EStr (ps_group (u_cfg s))]),
      (''delivered'', [EInt (u_delivered s)]), (''inflight'', [EBool (u_inflight s)]),
      (''failures'', [EInt (of_nat (u_failures s))]), (''error'', [EStr (u_last_error s)])]"

definition bjm_pusher_list :: "('t, 'l) lib \<Rightarrow> pusher \<Rightarrow> bytes res" where
  "bjm_pusher_list L p = bj_finish L (bj_array (map psub_object (p_subs p)))"

end
