(* ===== verification/Push_Engine.thy ===== *)
theory Push_Engine
  imports Settling Reference_Library
begin

text \<open>
  The engine as a state machine: what one attempt to deliver changes, the invariant every operation
  keeps, and the states that can be reached from a start.
\<close>

section \<open>What an attempt changes\<close>

definition same_sub :: "psub \<Rightarrow> psub \<Rightarrow> bool" where
  "same_sub s s' \<longleftrightarrow>
     u_id s' = u_id s \<and> u_consumer s' = u_consumer s \<and> u_cfg s' = u_cfg s \<and> u_conn s' = u_conn s \<and>
     u_gone s' = u_gone s \<and> u_due_ms s' = u_due_ms s"

definition same_engine :: "pusher \<Rightarrow> pusher \<Rightarrow> bool" where
  "same_engine p p' \<longleftrightarrow>
     p_subs p' = p_subs p \<and> p_xfer p' = p_xfer p \<and> p_next_id p' = p_next_id p \<and>
     p_closed p' = p_closed p \<and> p_default_batch p' = p_default_batch p \<and> (p_work p \<longrightarrow> p_work p')"

definition attempted :: "pusher \<Rightarrow> psub \<Rightarrow> pusher \<Rightarrow> psub \<Rightarrow> bool \<Rightarrow> bool" where
  "attempted p s p' s' ok \<longleftrightarrow>
     same_engine p p' \<and> same_sub s s' \<and>
     (if ok then p_inflight p' = p_inflight p + 1 \<and> u_inflight s' \<and>
           p_sent p' = p_sent p @ [(u_id s, u_url s', u_hdrs s', u_body s')] \<and>
           (\<exists>send. x_send (p_xfer p) = Some send \<and> send (u_conn s) (u_url s') (u_hdrs s') (u_body s'))
      else p_inflight p' = p_inflight p \<and> u_inflight s' = u_inflight s \<and> p_sent p' = p_sent p)"

lemma hdrs_frame: "\<exists>hs. foldl hdr_add s ls = s\<lparr>u_hdrs := hs\<rparr>"
proof (induction ls arbitrary: s)
  case Nil
  show ?case by (rule exI [of _ "u_hdrs s"]) simp
next
  case (Cons h ls)
  obtain x where x: "hdr_add s h = s\<lparr>u_hdrs := x\<rparr>"
    by (cases "hdr_add s h = s") (auto simp: hdr_add_def Let_def intro: that [of "u_hdrs s"] split: if_splits)
  obtain y where "foldl hdr_add (hdr_add s h) ls = (hdr_add s h)\<lparr>u_hdrs := y\<rparr>" using Cons.IH by blast
  with x show ?case by auto
qed

lemma send_batch_attempted:
  assumes "send_batch p s cnt = (p', s', ok)"
  shows "attempted p s p' s' ok"
proof -
  define s1 where "s1 = s\<lparr>u_url := take BJM_CALLBACK_MAX (ps_callback (u_cfg s)), u_hdrs := []\<rparr>"
  obtain hs where f: "foldl hdr_add s1 (header_lines s1 cnt) = s1\<lparr>u_hdrs := hs\<rparr>"
    using hdrs_frame by blast
  show ?thesis
    using assms
    unfolding send_batch_def Let_def s1_def [symmetric] f
    by (auto simp: s1_def attempted_def same_engine_def same_sub_def split: option.splits if_splits)
qed

lemma hear_engine: "same_engine p (hear p ps) \<and> p_inflight (hear p ps) = p_inflight p \<and> p_sent (hear p ps) = p_sent p"
proof (induction ps arbitrary: p)
  case (Cons x ps)
  obtain d i where x: "x = (d, i)" by (cases x)
  have "hear p (x # ps) = hear (bjm_pusher_notify p d) ps" by (simp add: hear_def x)
  moreover have "same_engine p (bjm_pusher_notify p d) \<and> p_inflight (bjm_pusher_notify p d) = p_inflight p \<and>
      p_sent (bjm_pusher_notify p d) = p_sent p"
    by (simp add: bjm_pusher_notify_def names_add_def same_engine_def)
  ultimately show ?case using Cons.IH [of "bjm_pusher_notify p d"] by (simp add: same_engine_def)
qed (simp add: hear_def same_engine_def)

lemma take_batch_sub:
  "take_batch L st s name = (st', s', r) \<Longrightarrow> \<exists>js. s' = s\<lparr>u_jobs := js\<rparr>"
  by (auto simp: take_batch_def Let_def split: prod.splits sum.splits if_splits intro: exI [of _ "u_jobs s"])

lemma offer_jobs_attempted:
  assumes "offer_jobs L st p s name i = (st', p', s', r)"
  shows "attempted p s p' s' (r = Some True)"
proof -
  obtain st1 s1 got where tb: "take_batch L st s name = (st1, s1, got)" by (cases "take_batch L st s name")
  obtain js where s1: "s1 = s\<lparr>u_jobs := js\<rparr>" using take_batch_sub [OF tb] by blast
  define q where "q = hear p (drop (length (st_pubs st)) (st_pubs st1))"
  have q: "same_engine p q" "p_inflight q = p_inflight p" "p_sent q = p_sent p"
    using hear_engine unfolding q_def by blast+
  show ?thesis
  proof (cases got)
    case None
    with assms tb have "p' = q \<and> (\<exists>w. s' = s1\<lparr>u_wake_ms := w\<rparr>) \<and> r = None"
      by (auto simp: offer_jobs_def q_def note_due_def Let_def
          split: prod.splits sum.splits option.splits if_splits intro: exI [of _ "u_wake_ms s1"])
    then show ?thesis using q by (auto simp: attempted_def same_engine_def same_sub_def s1)
  next
    case (Some x)
    obtain cnt out where x: "x = (cnt, out)" by (cases x)
    obtain s2 ok where sb: "send_batch q s2 cnt = (p', s', ok)" and s2: "same_sub s s2" "u_inflight s2 = u_inflight s"
        and r: "r = Some ok"
      using assms tb Some
      by (auto simp: offer_jobs_def q_def [symmetric] Let_def x same_sub_def s1 split: prod.splits)
    from send_batch_attempted [OF sb] s2 q r show ?thesis
      by (auto simp: attempted_def same_engine_def same_sub_def split: if_splits)
  qed
qed

lemma not_attempted: "attempted p s p s False"
  by (simp add: attempted_def same_engine_def same_sub_def)

lemma offer_messages_attempted:
  assumes "offer_messages L st p s name i = (st', p', s', r)"
  shows "attempted p s p' s' (r = Some True)"
proof -
  obtain st1 b where fb: "find_batch L st (p_default_batch p) s name = (st1, b)"
    by (cases "find_batch L st (p_default_batch p) s name")
  show ?thesis
  proof (cases b)
    case None
    with assms fb show ?thesis by (simp add: offer_messages_def not_attempted)
  next
    case (Some x)
    obtain a cnt out e where x: "x = (a, cnt, out, e)" by (cases x)
    obtain s2 ok where sb: "send_batch p s2 cnt = (p', s', ok)" and s2: "same_sub s s2" "u_inflight s2 = u_inflight s"
        and r: "r = Some ok"
      using assms fb Some by (auto simp: offer_messages_def x Let_def same_sub_def split: prod.splits)
    from send_batch_attempted [OF sb] s2 r show ?thesis
      by (auto simp: attempted_def same_engine_def same_sub_def split: if_splits)
  qed
qed

lemma offer_attempted:
  "offer L st p s name i = (st', p', s', r) \<Longrightarrow> attempted p s p' s' (r = Some True)"
  using offer_jobs_attempted offer_messages_attempted
  by (fastforce simp: offer_def not_attempted split: if_splits)

lemma attempted_trans:
  "attempted p s p1 s1 False \<Longrightarrow> attempted p1 s1 p' s' ok \<Longrightarrow> attempted p s p' s' ok"
  by (auto simp: attempted_def same_engine_def same_sub_def split: if_splits)

lemma start_loop_attempted:
  "start_loop L st p s n = (st', p', s', ok) \<Longrightarrow> attempted p s p' s' ok"
proof (induction L st p s n arbitrary: st' p' s' ok rule: start_loop.induct)
  case (1 L st p s n)
  show ?case
  proof (cases "n < length (p_names p)")
    case False
    with 1(2) show ?thesis
      by (subst (asm) start_loop.simps) (simp add: not_attempted)
  next
    case True
    define i where "i = (u_rr s + n) mod length (p_names p)"
    obtain st1 p1 s1 r where o: "offer L st p s (p_names p ! i) i = (st1, p1, s1, r)"
      by (cases "offer L st p s (p_names p ! i) i")
    note a = offer_attempted [OF o]
    show ?thesis
    proof (cases r)
      case None
      with 1(2) True o have "start_loop L st1 p1 s1 (n + 1) = (st', p', s', ok)"
        by (subst (asm) start_loop.simps) (simp add: i_def Let_def)
      from 1(1) [OF True i_def o [symmetric] refl refl _ this] None a show ?thesis
        by (auto intro: attempted_trans)
    next
      case (Some b)
      with 1(2) True o have "p' = p1 \<and> s' = s1 \<and> ok = b"
        by (subst (asm) start_loop.simps) (simp add: i_def Let_def)
      with a Some show ?thesis by (cases b) auto
    qed
  qed
qed

lemma start_attempted:
  assumes "start_delivery L st p s = (st', p', s', ok)"
  shows "attempted p s p' s' ok"
proof -
  have "attempted p (s\<lparr>u_wake_ms := 0\<rparr>) p' s' ok"
    using assms unfolding start_delivery_def by (rule start_loop_attempted)
  then show ?thesis by (cases ok) (simp_all add: attempted_def same_sub_def)
qed

section \<open>One pass of the pump\<close>

text \<open>
  The indices \<open>D\<close> are those a delivery was started for, in order: nobody in flight, deleted or
  waiting is among them, and each was handed to the transport once.
\<close>

definition served :: "u64 \<Rightarrow> psub \<Rightarrow> psub \<Rightarrow> bool \<Rightarrow> bool" where
  "served now s s' sent \<longleftrightarrow>
     same_sub s s' \<and>
     (if sent then \<not> u_inflight s \<and> \<not> u_gone s \<and> u_due_ms s \<le> now \<and> u_inflight s'
      else u_inflight s' = u_inflight s)"

definition handed :: "pusher \<Rightarrow> nat \<Rightarrow> nat \<times> string \<times> string list \<times> bytes \<Rightarrow> bool" where
  "handed p j e =
     (case e of (i, u, h, b) \<Rightarrow>
        i = u_id (p_subs p ! j) \<and>
        (\<exists>send. x_send (p_xfer p) = Some send \<and> send (u_conn (p_subs p ! j)) u h b))"

definition pumped :: "u64 \<Rightarrow> nat \<Rightarrow> pusher \<Rightarrow> pusher \<Rightarrow> nat list \<Rightarrow> bool" where
  "pumped now k p p' D \<longleftrightarrow>
     p_xfer p' = p_xfer p \<and> p_next_id p' = p_next_id p \<and> p_closed p' = p_closed p \<and>
     length (p_subs p') = length (p_subs p) \<and> distinct D \<and> set D \<subseteq> {..<k} \<and>
     (\<forall>j < length (p_subs p).
        served now (p_subs p ! j) (p_subs p' ! j) (j \<in> set D) \<and>
        (k \<le> j \<longrightarrow> p_subs p' ! j = p_subs p ! j)) \<and>
     p_inflight p' = p_inflight p + int (length D) \<and>
     (\<exists>E. p_sent p' = p_sent p @ E \<and> list_all2 (handed p) D E)"

lemma served_refl: "served now s s False"
  by (simp add: served_def same_sub_def)

lemma pumped_refl: "pumped now k p p []"
  by (simp add: pumped_def served_refl)

lemma pumped_skip: "pumped now k p p' D \<Longrightarrow> pumped now (Suc k) p p' D"
  unfolding pumped_def by (auto simp: less_Suc_eq)

lemma pumped_step:
  assumes pd: "pumped now k p p1 D" and k: "k < length (p_subs p)"
    and att: "attempted p1 (p_subs p1 ! k) p2 s' ok"
    and free: "\<not> u_inflight (p_subs p1 ! k)" "\<not> u_gone (p_subs p1 ! k)" "u_due_ms (p_subs p1 ! k) \<le> now"
  shows "pumped now (Suc k) p (p2\<lparr>p_subs := (p_subs p2)[k := s']\<rparr>) (if ok then D @ [k] else D)"
proof -
  let ?D = "if ok then D @ [k] else D" and ?subs = "(p_subs p2)[k := s']"
  have eq: "p_subs p1 ! k = p_subs p ! k" and len: "length (p_subs p1) = length (p_subs p)"
    and kD: "k \<notin> set D" "distinct D" "set D \<subseteq> {..<k}"
    using pd k by (auto simp: pumped_def)
  have subs: "p_subs p2 = p_subs p1"
    using att by (auto simp: attempted_def same_engine_def)
  have "served now (p_subs p ! j) (?subs ! j) (j \<in> set ?D) \<and> (Suc k \<le> j \<longrightarrow> ?subs ! j = p_subs p ! j)"
    if j: "j < length (p_subs p)" for j
  proof (cases "j = k")
    case True
    with att free eq len k kD show ?thesis by (auto simp: attempted_def served_def subs)
  next
    case False
    with pd j show ?thesis by (auto simp: pumped_def subs)
  qed
  moreover have "p_inflight p2 = p_inflight p + int (length ?D)"
    using pd att by (auto simp: pumped_def attempted_def split: if_splits)
  moreover have "\<exists>E. p_sent p2 = p_sent p @ E \<and> list_all2 (handed p) ?D E"
  proof -
    obtain E where E: "p_sent p1 = p_sent p @ E" "list_all2 (handed p) D E" and x: "p_xfer p1 = p_xfer p"
      using pd by (auto simp: pumped_def)
    show ?thesis
    proof (cases ok)
      case True
      let ?e = "(u_id (p_subs p1 ! k), u_url s', u_hdrs s', u_body s')"
      have "p_sent p2 = p_sent p1 @ [?e]" "handed p k ?e"
        using att True eq x by (auto simp: attempted_def handed_def)
      then show ?thesis using True E
        by (intro exI [of _ "E @ [?e]"]) (auto intro!: list_all2_appendI)
    next
      case False
      then show ?thesis using E att by (auto simp: attempted_def)
    qed
  qed
  moreover have "distinct ?D \<and> set ?D \<subseteq> {..<Suc k}" using kD by auto
  moreover have "p_xfer p2 = p_xfer p" "p_next_id p2 = p_next_id p" "p_closed p2 = p_closed p"
    using att pd by (auto simp: attempted_def same_engine_def pumped_def)
  moreover have "length ?subs = length (p_subs p)" by (simp add: subs len)
  ultimately show ?thesis unfolding pumped_def by simp
qed

lemma pump_one_pumped:
  assumes "pumped now k p p1 D" and "k < length (p_subs p)"
    and "pump_one L now k (st1, p1, x) = (st2, p2, y)"
  shows "\<exists>D'. pumped now (Suc k) p p2 D'"
proof -
  obtain started busy due where x: "x = (started, busy, due)" by (cases x)
  let ?s = "p_subs p1 ! k"
  obtain st' p' s' ok where sd: "start_delivery L st1 p1 ?s = (st', p', s', ok)"
    by (cases "start_delivery L st1 p1 ?s")
  show ?thesis
  proof (cases "u_gone ?s \<or> u_inflight ?s \<or> u_due_ms ?s > now")
    case True
    then have "p2 = p1" using assms(3) by (auto simp: pump_one_def x Let_def split: if_splits)
    with pumped_skip [OF assms(1)] show ?thesis by blast
  next
    case False
    then have "p2 = p'\<lparr>p_subs := (p_subs p')[k := s']\<rparr>"
      using assms(3) sd by (auto simp: pump_one_def x Let_def split: if_splits)
    moreover have "pumped now (Suc k) p (p'\<lparr>p_subs := (p_subs p')[k := s']\<rparr>) (if ok then D @ [k] else D)"
      using pumped_step [OF assms(1,2) start_attempted [OF sd]] False by (simp add: not_less)
    ultimately show ?thesis by blast
  qed
qed

lemma pump_fold_pumped:
  "k \<le> length (p_subs p) \<Longrightarrow> fold (pump_one L now) [0..<k] (st, p, x) = (st', p', y) \<Longrightarrow>
     \<exists>D. pumped now k p p' D"
proof (induction k arbitrary: st' p' y)
  case 0
  then show ?case using pumped_refl by auto
next
  case (Suc k)
  obtain st1 p1 z where f: "fold (pump_one L now) [0..<k] (st, p, x) = (st1, p1, z)"
    by (cases "fold (pump_one L now) [0..<k] (st, p, x)")
  with Suc obtain D where D: "pumped now k p p1 D" by auto
  have "pump_one L now k (st1, p1, z) = (st', p', y)" using Suc.prems f by simp
  with pump_one_pumped [OF D] Suc.prems show ?case by (metis Suc_le_lessD surj_pair)
qed

lemma pump_pumped:
  assumes "bjm_pusher_pump L st p now = (st', p', t)"
  shows "\<exists>D p1. pumped now (length (p_subs p)) p p1 D \<and> (p' = p1 \<or> p' = p1\<lparr>p_work := False\<rparr>)"
proof (cases "p_work p")
  case False
  then have "p' = p" using assms by (auto simp: bjm_pusher_pump_def)
  moreover have "pumped now (length (p_subs p)) p p []" by (rule pumped_refl)
  ultimately show ?thesis by blast
next
  case True
  obtain st1 p1 started busy due
    where f: "fold (pump_one L now) [0..<length (p_subs p)] (st, p, False, False, 0) = (st1, p1, started, busy, due)"
    by (cases "fold (pump_one L now) [0..<length (p_subs p)] (st, p, False, False, 0)")
  then have "p' = p1 \<or> p' = p1\<lparr>p_work := False\<rparr>"
    using assms True by (auto simp: bjm_pusher_pump_def pump_pass_def)
  with pump_fold_pumped [OF order_refl f] show ?thesis by blast
qed

section \<open>The invariant\<close>

text \<open>
  Every subscription has an address of its own, the counter counts the deliveries in flight, and only
  a delivery in flight keeps a deleted subscription.
\<close>

definition engine_inv :: "pusher \<Rightarrow> bool" where
  "engine_inv p \<longleftrightarrow>
     distinct (map u_id (p_subs p)) \<and> list_all (\<lambda>s. u_id s < p_next_id p) (p_subs p) \<and>
     p_inflight p = int (length (filter u_inflight (p_subs p))) \<and>
     list_all (\<lambda>s. u_gone s \<longrightarrow> u_inflight s) (p_subs p)"

lemma mset_swap_out: "i < length xs \<Longrightarrow> mset (swap_out i xs) = mset xs - {#xs ! i#}"
proof -
  assume i: "i < length xs"
  then have ne: "xs[i := last xs] \<noteq> []" and ne': "xs \<noteq> []" by auto
  have l: "last (xs[i := last xs]) = last xs"
    using i ne' by (cases "i = length xs - 1") (auto simp: last_list_update last_conv_nth)
  have "mset (xs[i := last xs]) = mset (swap_out i xs) + {#last xs#}"
    using append_butlast_last_id [OF ne] l unfolding swap_out_def
    by (metis mset_append mset_single_iff_right)
  moreover have "mset (xs[i := last xs]) = add_mset (last xs) (mset xs - {#xs ! i#})"
    using i by (rule mset_update)
  ultimately show ?thesis by simp
qed

lemma count_update:
  "i < length xs \<Longrightarrow>
     int (length (filter P (xs[i := y]))) =
     int (length (filter P xs)) + (if P y then 1 else 0) - (if P (xs ! i) then 1 else 0)"
proof (induction xs arbitrary: i)
  case (Cons x xs)
  show ?case
  proof (cases i)
    case (Suc j)
    with Cons.prems have "j < length xs" by simp
    from Cons.IH [OF this] show ?thesis by (cases "P y"; cases "P (xs ! j)"; simp add: Suc)
  qed auto
qed simp

lemma position_less: "position P xs = Some i \<Longrightarrow> i < length xs \<and> P (xs ! i)"
  by (induction xs arbitrary: i) (auto split: if_splits)

lemma map_update_same: "i < length xs \<Longrightarrow> f y = f (xs ! i) \<Longrightarrow> map f (xs[i := y]) = map f xs"
  by (metis list_update_id map_update)

lemma list_all_update: "list_all P xs \<Longrightarrow> P y \<Longrightarrow> list_all P (xs[i := y])"
  by (auto simp: list_all_iff dest: set_update_subset_insert [THEN subsetD])

lemma inv_update:
  assumes "engine_inv p" and "i < length (p_subs p)" and "u_id s' = u_id (p_subs p ! i)"
    and "u_gone s' \<longrightarrow> u_inflight s'"
    and "p_subs p' = (p_subs p)[i := s']" and "p_next_id p' = p_next_id p"
    and "p_inflight p' = p_inflight p + (if u_inflight s' then 1 else 0) - (if u_inflight (p_subs p ! i) then 1 else 0)"
  shows "engine_inv p'"
proof -
  have "u_id (p_subs p ! i) < p_next_id p" using assms(1,2) by (auto simp: engine_inv_def list_all_length)
  then show ?thesis
    using assms by (auto simp: engine_inv_def map_update_same count_update intro!: list_all_update)
qed

lemma distinct_count_atmost_one: "distinct xs \<longleftrightarrow> (\<forall>a. count (mset xs) a \<le> 1)"
  unfolding distinct_count_atmost_1
  by (metis One_nat_def count_mset_0_iff le_Suc_eq le_zero_eq order_refl zero_le)

lemma inv_swap_out:
  assumes "engine_inv p" and i: "i < length (p_subs p)"
    and "p_subs p' = swap_out i (p_subs p)" and "p_next_id p' = p_next_id p"
    and "p_inflight p' = p_inflight p - (if u_inflight (p_subs p ! i) then 1 else 0)"
  shows "engine_inv p'"
proof -
  let ?s = "p_subs p ! i"
  have m: "mset (p_subs p') = mset (p_subs p) - {#?s#}" using mset_swap_out [OF i] assms(3) by simp
  have in_m: "?s \<in># mset (p_subs p)" using i by simp
  have sub: "set (p_subs p') \<subseteq> set (p_subs p)"
    using m by (metis in_diffD set_mset_mset subsetI)
  have "mset (map u_id (p_subs p')) \<subseteq># mset (map u_id (p_subs p))"
    using m by (metis diff_subset_eq_self image_mset_subseteq_mono mset_map)
  then have d: "distinct (map u_id (p_subs p'))"
    using assms(1) unfolding engine_inv_def distinct_count_atmost_one
    by (meson mset_subset_eq_count order_trans)
  have "size (filter_mset u_inflight (mset (p_subs p'))) =
      size (filter_mset u_inflight (mset (p_subs p))) - (if u_inflight ?s then 1 else 0)"
    using in_m by (simp add: m size_Diff_singleton)
  moreover have "u_inflight ?s \<Longrightarrow> 0 < size (filter_mset u_inflight (mset (p_subs p)))"
    using in_m by (metis filter_mset_eq_conv size_eq_0_iff_empty neq0_conv count_empty count_filter_mset not_in_iff)
  ultimately have "int (length (filter u_inflight (p_subs p'))) =
      int (length (filter u_inflight (p_subs p))) - (if u_inflight ?s then 1 else 0)"
    by (auto simp flip: size_mset mset_filter)
  with d sub assms show ?thesis by (auto simp: engine_inv_def list_all_iff)
qed

lemma inv_work [simp]:
  "engine_inv (p\<lparr>p_work := b\<rparr>) = engine_inv p" "engine_inv (p\<lparr>p_names := ns\<rparr>) = engine_inv p"
  "engine_inv (p\<lparr>p_xfer := t\<rparr>) = engine_inv p" "engine_inv (p\<lparr>p_closed := cs\<rparr>) = engine_inv p"
  by (simp_all add: engine_inv_def)

lemma load_one_inv: "engine_inv p \<Longrightarrow> engine_inv (fst (load_one p c cfg))"
  by (auto simp: engine_inv_def load_one_def psub_new_def psub_zero_def list_all_iff less_SucI)

lemma add_inv: "engine_inv p \<Longrightarrow> engine_inv (bjm_pusher_add p c cfg)"
proof (cases "position (\<lambda>s. \<not> u_gone s \<and> u_consumer s = c) (p_subs p)")
  case None
  assume "engine_inv p"
  with None load_one_inv show ?thesis by (simp add: bjm_pusher_add_def)
next
  case (Some i)
  assume "engine_inv p"
  note i = position_less [OF Some]
  have "engine_inv (p\<lparr>p_subs := (p_subs p)[i := (p_subs p ! i)\<lparr>u_cfg := cfg\<rparr>]\<rparr>)"
    by (rule inv_update [OF \<open>engine_inv p\<close>, of i "(p_subs p ! i)\<lparr>u_cfg := cfg\<rparr>"]) (use i in auto)
  then show ?thesis by (simp add: bjm_pusher_add_def Some engine_inv_def)
qed

lemma psub_free_frame:
  "p_subs (psub_free p s) = p_subs p" "p_next_id (psub_free p s) = p_next_id p"
  "p_inflight (psub_free p s) = p_inflight p" "p_work (psub_free p s) = p_work p"
  by (simp_all add: psub_free_def split: option.split)

lemma remove_inv: "engine_inv p \<Longrightarrow> engine_inv (bjm_pusher_remove p c)"
proof (cases "position (\<lambda>s. u_consumer s = c) (p_subs p)")
  case None
  assume "engine_inv p"
  with None show ?thesis by (simp add: bjm_pusher_remove_def)
next
  case (Some i)
  assume inv: "engine_inv p"
  note i = position_less [OF Some]
  let ?s = "p_subs p ! i"
  show ?thesis
  proof (cases "u_inflight ?s")
    case True
    have "engine_inv (p\<lparr>p_subs := (p_subs p)[i := ?s\<lparr>u_gone := True\<rparr>]\<rparr>)"
      by (rule inv_update [OF inv, of i "?s\<lparr>u_gone := True\<rparr>"]) (use i True in auto)
    then show ?thesis by (simp add: bjm_pusher_remove_def Some True Let_def)
  next
    case False
    have "engine_inv ((psub_free p ?s)\<lparr>p_subs := swap_out i (p_subs p)\<rparr>)"
      by (rule inv_swap_out [OF inv, of i]) (use i False in \<open>auto simp: psub_free_frame\<close>)
    then show ?thesis by (simp add: bjm_pusher_remove_def Some False Let_def)
  qed
qed

lemma on_sub_inv:
  assumes "engine_inv p" and "\<And>s. u_id (f s) = u_id s \<and> u_inflight (f s) = u_inflight s \<and> u_gone (f s) = u_gone s"
  shows "engine_inv (on_sub p i f)"
proof -
  let ?g = "\<lambda>s. if u_id s = i then f s else s"
  have ids: "map u_id (map ?g xs) = map u_id xs" for xs using assms(2) by (induction xs) auto
  have "length (filter u_inflight (map ?g xs)) = length (filter u_inflight xs)"
    "list_all (\<lambda>s. u_gone s \<longrightarrow> u_inflight s) (map ?g xs) = list_all (\<lambda>s. u_gone s \<longrightarrow> u_inflight s) xs"
    "list_all (\<lambda>s. u_id s < n) (map ?g xs) = list_all (\<lambda>s. u_id s < n) xs" for xs n
    using assms(2) by (induction xs) auto
  with ids [of "p_subs p"] show ?thesis using assms(1) unfolding engine_inv_def on_sub_def
    by (simp del: map_map)
qed

lemma on_hdr_frame: "u_id (on_hdr s d) = u_id s \<and> u_inflight (on_hdr s d) = u_inflight s \<and> u_gone (on_hdr s d) = u_gone s"
  by (simp add: on_hdr_def Let_def)

lemma on_body_frame: "u_id (on_body s d) = u_id s \<and> u_inflight (on_body s d) = u_inflight s \<and> u_gone (on_body s d) = u_gone s"
  by (simp add: on_body_def)

lemma finish_jobs_frame:
  "finish_jobs L st s reached status err now = (st', s', b) \<Longrightarrow>
     u_id s' = u_id s \<and> u_inflight s' = u_inflight s \<and> u_gone s' = u_gone s \<and> u_consumer s' = u_consumer s \<and>
     u_conn s' = u_conn s \<and> u_cfg s' = u_cfg s"
  by (auto simp: finish_jobs_def backoff_def recover_def Let_def split: prod.splits if_splits)

lemma finish_batch_frame:
  "finish_batch L st s reached status err now = (st', s', b) \<Longrightarrow>
     u_id s' = u_id s \<and> u_inflight s' = u_inflight s \<and> u_gone s' = u_gone s \<and> u_consumer s' = u_consumer s \<and>
     u_conn s' = u_conn s \<and> u_cfg s' = u_cfg s"
  by (auto simp: finish_batch_def backoff_def recover_def Let_def split: prod.splits if_splits)

lemma finish_inv:
  assumes inv: "engine_inv p" and i: "i < length (p_subs p)" and fl: "u_inflight (p_subs p ! i)"
    and fin: "finish L st p i reached status err now = (st', p')"
  shows "engine_inv p'"
proof -
  define s where "s = (p_subs p ! i)\<lparr>u_inflight := False\<rparr>"
  show ?thesis
  proof (cases "u_gone s")
    case True
    have "engine_inv ((psub_free (p\<lparr>p_inflight := p_inflight p - 1\<rparr>) s)\<lparr>p_subs := swap_out i (p_subs p)\<rparr>)"
      by (rule inv_swap_out [OF inv i]) (use fl in \<open>simp_all add: psub_free_frame\<close>)
    with fin True show ?thesis by (simp add: finish_def s_def [symmetric] Let_def)
  next
    case False
    obtain st1 s1 b where f: "(if ps_group (u_cfg s) \<noteq> [] then finish_jobs L st s reached status err now
         else finish_batch L st s reached status err now) = (st1, s1, b)"
      by (metis prod_cases3)
    then have s1: "u_id s1 = u_id s" "u_inflight s1 = u_inflight s" "u_gone s1 = u_gone s"
      using finish_jobs_frame finish_batch_frame by (metis (no_types, lifting))+
    have "p' = p\<lparr>p_inflight := p_inflight p - 1, p_subs := (p_subs p)[i := s1], p_work := b \<or> p_work p\<rparr>"
      using fin False f by (simp add: finish_def s_def [symmetric] Let_def split: if_splits)
    moreover have "engine_inv (p\<lparr>p_inflight := p_inflight p - 1, p_subs := (p_subs p)[i := s1], p_work := b \<or> p_work p\<rparr>)"
      by (rule inv_update [OF inv i, of s1]) (use s1 fl False in \<open>simp_all add: s_def\<close>)
    ultimately show ?thesis by simp
  qed
qed

lemma pumped_inv:
  assumes inv: "engine_inv p" and pd: "pumped now (length (p_subs p)) p p' D"
  shows "engine_inv p'"
proof -
  let ?n = "length (p_subs p)"
  have len: "length (p_subs p') = ?n" and D: "distinct D" "set D \<subseteq> {..<?n}"
    and at: "\<And>j. j < ?n \<Longrightarrow> served now (p_subs p ! j) (p_subs p' ! j) (j \<in> set D)"
    and fr: "p_next_id p' = p_next_id p" "p_inflight p' = p_inflight p + int (length D)"
    using pd by (auto simp: pumped_def)
  have same: "same_sub (p_subs p ! j) (p_subs p' ! j)" if "j < ?n" for j
    using at [OF that] by (simp add: served_def)
  have ids: "map u_id (p_subs p') = map u_id (p_subs p)"
    using same len by (auto intro!: nth_equalityI simp: same_sub_def)
  have lt: "list_all (\<lambda>s. u_id s < p_next_id p') (p_subs p')"
    using inv same len fr by (auto simp: engine_inv_def list_all_length same_sub_def)
  have gone: "list_all (\<lambda>s. u_gone s \<longrightarrow> u_inflight s) (p_subs p')"
    unfolding list_all_length
  proof (intro allI impI)
    fix j assume "j < length (p_subs p')" and g: "u_gone (p_subs p' ! j)"
    then have j: "j < ?n" using len by simp
    from at [OF j] g inv j show "u_inflight (p_subs p' ! j)"
      by (auto simp: served_def same_sub_def engine_inv_def list_all_length split: if_splits)
  qed
  let ?B = "{j. j < ?n \<and> u_inflight (p_subs p ! j)}"
  have "{j. j < length (p_subs p') \<and> u_inflight (p_subs p' ! j)} = ?B \<union> set D"
  proof -
    have "u_inflight (p_subs p' ! j) \<longleftrightarrow> u_inflight (p_subs p ! j) \<or> j \<in> set D" if "j < ?n" for j
      using at [OF that] by (auto simp: served_def split: if_splits)
    then show ?thesis using D(2) by (auto simp: len)
  qed
  moreover have "?B \<inter> set D = {}" using at by (auto simp: served_def)
  ultimately have "length (filter u_inflight (p_subs p')) = length (filter u_inflight (p_subs p)) + length D"
    using D(1) by (simp add: length_filter_conv_card card_Un_disjoint distinct_card)
  with inv fr ids lt gone show ?thesis by (simp add: engine_inv_def)
qed

lemma pump_inv: "engine_inv p \<Longrightarrow> bjm_pusher_pump L st p now = (st', p', t) \<Longrightarrow> engine_inv p'"
  using pump_pumped [of L st p now st' p' t] pumped_inv by fastforce

lemma names_add_inv: "engine_inv (names_add p n) = engine_inv p"
  by (simp add: names_add_def)

lemma push_walk_inv:
  "engine_inv p \<Longrightarrow> push_walk L load_one es p = (p', b) \<Longrightarrow> engine_inv p'"
proof (induction es arbitrary: p)
  case (Cons e es)
  obtain k v where e: "e = (k, v)" by (cases e)
  show ?case
  proof (cases "length k > BJM_CONSUMER_MAX \<or> \<not> is_ok (decode_push L v)")
    case True
    then have "push_walk L load_one (e # es) p = push_walk L load_one es p"
      by (auto simp: e is_ok_iff split: sum.split)
    with Cons show ?thesis by simp
  next
    case False
    then obtain s where s: "decode_push L v = Inr s" by (auto simp: is_ok_iff)
    obtain p1 where l: "load_one p (c_str k) s = (p1, False)" by (simp add: load_one_def)
    then have "engine_inv p1" using load_one_inv [OF Cons.prems(1)] by (metis fst_conv)
    moreover have "push_walk L load_one (e # es) p = push_walk L load_one es p1"
      using False s l by (simp add: e)
    ultimately show ?thesis using Cons by simp
  qed
qed simp

lemma nm_string_inv: "engine_inv (nm_string e p) = engine_inv p"
  by (cases e) (simp_all add: names_add_inv)

lemma new_inv:
  assumes "bjm_pusher_new L st b = (st', Some p)"
  shows "engine_inv p"
proof -
  define p0 where "p0 = \<lparr>p_xfer = no_transport, p_subs = [], p_names = [], p_work = False, p_inflight = 0,
     p_default_batch = (if b \<noteq> 0 then b else PUSH_DEFAULT_BATCH_BYTES),
     p_next_id = 0, p_sent = [], p_closed = []\<rparr>"
  have p0: "engine_inv p0" by (simp add: engine_inv_def p0_def)
  have "engine_inv (fold nm_string evs p0)" for evs
    using p0 by (induction evs arbitrary: p0) (simp_all add: nm_string_inv)
  then have names: "names_load L st p0 = Inr p1 \<Longrightarrow> engine_inv p1" for p1
    by (auto simp: names_load_def split: sum.splits)
  obtain p1 st1 p2 where "names_load L st p0 = Inr p1" "bjm_push_each L st load_one p1 = (st1, p2, Inr ())"
      "p = p2\<lparr>p_work := True\<rparr>"
    using assms by (auto simp: bjm_pusher_new_def p0_def [symmetric] Let_def split: sum.splits prod.splits)
  moreover from this names have "engine_inv p2"
    using push_walk_inv by (fastforce simp: bjm_push_each_def split: prod.splits sum.splits option.splits)
  ultimately show ?thesis by simp
qed

section \<open>Reachable states\<close>

text \<open>
  Whatever happens between two calls of the engine: requests register, remove and seed; the loop
  pumps; the transport reports on deliveries in flight; and the store is changed by everyone else.
\<close>

inductive engine_step ::
    "('t, 'l) lib \<Rightarrow> ('t, 'l) store \<times> pusher \<Rightarrow> ('t, 'l) store \<times> pusher \<Rightarrow> bool" for L where
  add: "engine_step L (st, p) (st, bjm_pusher_add p c cfg)"
| remove: "engine_step L (st, p) (st, bjm_pusher_remove p c)"
| notify: "engine_step L (st, p) (st, bjm_pusher_notify p name)"
| seed: "bjm_pusher_seed L st p c pattern at_end from = (st', p') \<Longrightarrow> engine_step L (st, p) (st', p')"
| pump: "bjm_pusher_pump L st p now = (st', p', t) \<Longrightarrow> engine_step L (st, p) (st', p')"
| header: "engine_step L (st, p) (st, bjm_pusher_on_header p sub line)"
| body: "engine_step L (st, p) (st, bjm_pusher_on_body p sub d)"
| delivered: "s \<in> set (p_subs p) \<Longrightarrow> u_inflight s \<Longrightarrow>
    bjm_pusher_delivered L st p (u_id s) reached status err now = (st', p') \<Longrightarrow> engine_step L (st, p) (st', p')"
| transport: "engine_step L (st, p) (st, bjm_pusher_set_transport p xfer)"
| store: "engine_step L (st, p) (st', p)"

inductive_cases engine_stepE: "engine_step L x y"

inductive engine_reach :: "('t, 'l) lib \<Rightarrow> ('t, 'l) store \<times> pusher \<Rightarrow> bool" for L where
  start: "bjm_pusher_new L st b = (st', Some p) \<Longrightarrow> engine_reach L (st', p)"
| step: "engine_reach L x \<Longrightarrow> engine_step L x y \<Longrightarrow> engine_reach L y"

lemma delivered_index:
  assumes "engine_inv p" and "s \<in> set (p_subs p)"
  obtains i where "position (\<lambda>u. u_id u = u_id s) (p_subs p) = Some i" and "i < length (p_subs p)"
    and "p_subs p ! i = s"
proof -
  have "position (\<lambda>u. u_id u = u_id s) xs \<noteq> None" if "s \<in> set xs" for xs
    using that by (induction xs) auto
  with assms(2) obtain i where i: "position (\<lambda>u. u_id u = u_id s) (p_subs p) = Some i" by blast
  note l = position_less [OF i]
  have "p_subs p ! i = s"
    using assms l by (auto simp: engine_inv_def distinct_map dest: inj_onD)
  with i l that show thesis by blast
qed

lemma engine_step_inv: "engine_step L x y \<Longrightarrow> engine_inv (snd x) \<Longrightarrow> engine_inv (snd y)"
proof (induction rule: engine_step.induct)
  case (delivered s p st reached status err now st' p')
  then have inv: "engine_inv p" by simp
  obtain i where "position (\<lambda>u. u_id u = u_id s) (p_subs p) = Some i" "i < length (p_subs p)" "p_subs p ! i = s"
    using delivered_index [OF inv delivered(1)] .
  with finish_inv [OF inv] delivered show ?case by (auto simp: bjm_pusher_delivered_def)
qed (auto simp: add_inv remove_inv bjm_pusher_notify_def names_add_inv bjm_pusher_seed_def
    bjm_pusher_on_header_def bjm_pusher_on_body_def on_sub_inv on_hdr_frame on_body_frame
    bjm_pusher_set_transport_def pump_inv)

lemma engine_reach_inv: "engine_reach L x \<Longrightarrow> engine_inv (snd x)"
  by (induction rule: engine_reach.induct) (auto simp: new_inv engine_step_inv)

end
