(* ===== verification/Push_Properties.thy ===== *)
theory Push_Properties
  imports Push_Engine
begin

text \<open>
  The properties of the delivery engine: what is sent and when, what a response settles, how failures
  are paced, and what the pump answers; each with a concrete run that shows its hypotheses can hold.
\<close>

section \<open>The next batch of a subscriber\<close>

abbreviation place :: "u64 option \<Rightarrow> nat" where
  "place r \<equiv> (case r of None \<Rightarrow> 0 | Some a \<Rightarrow> unat a)"

lemma find_batchD:
  assumes laws: "lib_laws L" and fb: "find_batch L st db s name = (st', Some (a, cnt, out, e))"
  shows "unat a = max (place (receipt L st name (u_consumer s))) (base_of L st name)"
    and "0 < cnt" and "unat a + cnt \<le> base_of L st name + length (msgs L st name)"
    and "unat e = base_of L st name + length (msgs L st name)"
    and "\<exists>l m. log_of st' name = Some l \<and> elog_get_batch L l (a + 1) m = Inr (cnt, out)"
    and "base_of L st' n = base_of L st n" and "msgs L st' n = msgs L st n"
proof -
  note ll = lib_lawsD [OF laws]
  obtain st1 base last_ix bts where info: "bjm_subject_info L st name = (st1, Inr (base, last_ix, bts))"
    using fb by (auto simp: find_batch_def split: prod.splits sum.splits)
  obtain st2 found where get: "bjm_cursor_get L st1 name (u_consumer s) = (st2, Inr found)"
    using fb info by (auto simp: find_batch_def split: prod.splits sum.splits)
  define acked where "acked = (case found of Some a \<Rightarrow> a | None \<Rightarrow> 0)"
  have "\<exists>st3 m. resume_at L st2 name (u_consumer s) base last_ix acked = (st3, Some a) \<and>
      bjm_read L st3 name (a + 1) m = (st', Inr (cnt, out, e)) \<and> cnt \<noteq> 0"
    using fb info get
    by (cases "resume_at L st2 name (u_consumer s) base last_ix acked")
      (auto simp: find_batch_def acked_def [symmetric] Let_def
        split: prod.splits sum.splits option.splits if_split_asm)
  then obtain st3 m where res: "resume_at L st2 name (u_consumer s) base last_ix acked = (st3, Some a)"
    and rd: "bjm_read L st3 name (a + 1) m = (st', Inr (cnt, out, e))" and "cnt \<noteq> 0"
    by blast
  then show "0 < cnt" by simp
  obtain sb where sb: "subject_get L st name False = (st1, Inr sb)" and
      vals: "base = elog_base_index L (s_log sb)" "last_ix = elog_last_index L (s_log sb)"
    using info by (auto simp: bjm_subject_info_def split: prod.splits sum.splits)
  have vb: "unat base = base_of L st name" "unat last_ix = base_of L st name + length (msgs L st name)"
    using subject_get_view [OF ll(3) sb] elog_indexD [OF ll(3), of "s_log sb"] vals by simp_all
  have fr1: "st1 = st\<lparr>st_subs := st_subs st1, st_files := st_files st1\<rparr>" using read_frame(3) [OF info] .
  have c1: "st_cursors st1 = st_cursors st" by (subst fr1) simp
  note g = cursor_getD [OF ll(2) get]
  have place: "unat acked = place (receipt L st name (u_consumer s))"
    using g(3) [OF refl] receipt_cong [of L st1 st] c1 by (auto simp: acked_def split: option.split)
  have st3: "\<exists>x. st3 = st2\<lparr>st_cursors := x\<rparr>" and a: "unat a = max (unat acked) (unat base)"
    using res cursor_set_frame [OF ll(2), of st2 name "u_consumer s" base]
    by (auto simp: resume_at_def word_le_nat_alt word_less_nat_alt max_def split: if_splits)
      (metis (no_types) surjective_pairing store.surjective store.update_convs(6))+
  from a place vb(1) show "unat a = max (place (receipt L st name (u_consumer s))) (base_of L st name)" by simp
  have lg2: "st_subs st3 = st_subs st1" "st_files st3 = st_files st1"
  proof -
    obtain x y where "st3 = st2\<lparr>st_cursors := x\<rparr>" "st2 = st1\<lparr>st_cursors := y\<rparr>" using st3 g(1) by blast
    then show "st_subs st3 = st_subs st1" "st_files st3 = st_files st1" by simp_all
  qed
  note v13 = view_cong [OF lg2]
  have v1: "base_of L st1 n = base_of L st n" "msgs L st1 n = msgs L st n" for n
    using subject_get_log [OF ll(3) sb] by simp_all
  show keep: "base_of L st' n = base_of L st n" "msgs L st' n = msgs L st n" for n
    using read_log(1) [OF ll(3) rd, of n] v13 [where L = L and n = n] v1 [of n] by simp_all
  have lt: "a < last_ix"
    using res by (auto simp: resume_at_def not_le split: if_splits)
  from lt have "unat a + 1 < 2 ^ 64" using unat_u64_lt [of last_ix] by (simp add: word_less_nat_alt)
  from unat_Suc_u64 [OF this] have a1: "unat (a + 1) = unat a + 1" .
  then have "a + 1 \<noteq> 0" by (metis Suc_eq_plus1 nat.distinct(1) unat_0)
  obtain sc where sc: "subject_get L st3 name False = (st', Inr sc)" and
      gb: "elog_get_batch L (s_log sc) (a + 1) m = Inr (cnt, out)" and e: "e = elog_last_index L (s_log sc)"
    using rd \<open>a + 1 \<noteq> 0\<close> by (auto simp: bjm_read_def Let_def split: prod.splits sum.splits if_splits)
  show "\<exists>l m. log_of st' name = Some l \<and> elog_get_batch L l (a + 1) m = Inr (cnt, out)"
    using subject_get_found [OF sc] gb by (auto simp: log_of_def)
  have vc: "view_base L (s_log sc) = base_of L st name" "view_ents L (s_log sc) = msgs L st name"
    using subject_get_view [OF ll(3) sc] v13 [where L = L and n = name] v1 [of name] by simp_all
  show "unat e = base_of L st name + length (msgs L st name)"
    using elog_indexD(2) [OF ll(3), of "s_log sc"] vc e by simp
  have "unat a < base_of L st name + length (msgs L st name)" using lt vb(2) by (simp add: word_less_nat_alt)
  moreover have "cnt \<le> base_of L st name + length (msgs L st name) - unat a"
    using elog_get_batchD [OF ll(3) gb] a1 vc by simp
  ultimately show "unat a + cnt \<le> base_of L st name + length (msgs L st name)" by linarith
qed

lemma delivery_facts:
  assumes "lib_laws L" and "length name \<le> BJM_SUBJECT_MAX"
    and "offer_messages L st p s name i = (st', p', s', Some True)"
  shows "u_subject s' = name \<and>
         unat (u_first s') = max (place (receipt L st name (u_consumer s))) (base_of L st name) + 1 \<and>
         u_first s' \<le> u_last s' \<and> unat (u_last s') \<le> base_of L st name + length (msgs L st name) \<and>
         unat (u_lag s') = base_of L st name + length (msgs L st name) - unat (u_last s') \<and>
         (\<exists>l m cnt. log_of st' name = Some l \<and> elog_get_batch L l (u_first s') m = Inr (cnt, u_body s') \<and>
            unat (u_last s') + 1 = unat (u_first s') + cnt) \<and>
         p_sent p' = p_sent p @ [(u_id s, u_url s', u_hdrs s', u_body s')]"
proof -
  obtain st1 a cnt out e where fb: "find_batch L st (p_default_batch p) s name = (st1, Some (a, cnt, out, e))"
    using assms(3) by (auto simp: offer_messages_def split: prod.splits option.splits)
  note d = find_batchD [OF assms(1) fb]
  let ?last = "a + of_nat cnt" and ?n = "base_of L st name + length (msgs L st name)"
  define s2 where "s2 = s\<lparr>u_body := out, u_subject := take BJM_SUBJECT_MAX name, u_first := a + 1, u_last := ?last,
      u_lag := (if e > ?last then e - ?last else 0), u_rr := (i + 1) mod length (p_names p)\<rparr>"
  have sb: "send_batch p s2 cnt = (p', s', True)" and st': "st' = st1"
    using assms(3) fb by (auto simp: offer_messages_def Let_def s2_def split: prod.splits)
  have keep: "u_subject s' = u_subject s2 \<and> u_first s' = u_first s2 \<and> u_last s' = u_last s2 \<and>
      u_lag s' = u_lag s2 \<and> u_body s' = u_body s2"
  proof -
    obtain hs where "foldl hdr_add (s2\<lparr>u_url := take BJM_CALLBACK_MAX (ps_callback (u_cfg s2)), u_hdrs := []\<rparr>)
        (header_lines (s2\<lparr>u_url := take BJM_CALLBACK_MAX (ps_callback (u_cfg s2)), u_hdrs := []\<rparr>) cnt) =
        s2\<lparr>u_url := take BJM_CALLBACK_MAX (ps_callback (u_cfg s2)), u_hdrs := []\<rparr>\<lparr>u_hdrs := hs\<rparr>"
      using hdrs_frame by blast
    with sb show ?thesis by (auto simp: send_batch_def Let_def split: option.splits if_splits)
  qed
  have n: "?n < 2 ^ 64" using d(4) unat_u64_lt [of e] by simp
  have cnt: "unat (of_nat cnt :: u64) = cnt"
    using d(3) n by (simp add: unsigned_of_nat take_bit_nat_eq_self)
  have last: "unat ?last = unat a + cnt"
    using unat_add_u64 [of a "of_nat cnt"] d(3) n cnt by simp
  have first: "unat (a + 1) = unat a + 1"
    using unat_Suc_u64 [of a] d(2,3) n by simp
  have lag: "unat (if e > ?last then e - ?last else 0) = ?n - unat ?last"
    using d(4) last by (auto simp: word_less_nat_alt unat_sub_u64 word_le_nat_alt)
  have "a + 1 \<le> ?last" using first last d(2) by (simp add: word_le_nat_alt)
  moreover have "p_sent p' = p_sent p @ [(u_id s, u_url s', u_hdrs s', u_body s')]"
    using send_batch_attempted [OF sb] by (simp add: attempted_def s2_def)
  moreover obtain l m where "log_of st1 name = Some l" "elog_get_batch L l (a + 1) m = Inr (cnt, out)"
    using d(5) by blast
  ultimately show ?thesis
    using keep first last lag d(1,3) assms(2) unfolding st'
    by (intro conjI exI [of _ l] exI [of _ m] exI [of _ cnt]) (simp_all add: s2_def)
qed


section \<open>What a response settles\<close>

lemma cursor_sync_receipts:
  "bpt_laws L \<Longrightarrow> bjm_cursor_sync L st = (st', r) \<Longrightarrow>
     st' = st\<lparr>st_cursors := st_cursors st'\<rparr> \<and> slot_view L (st_cursors st') = slot_view L (st_cursors st)"
  by (auto simp: bjm_cursor_sync_def dest: bpt_syncD split: slot.splits prod.splits)

lemma batch_settled:
  assumes "lib_laws L" and "exact_int (acked_to s)" and "bjm_subject_valid (u_subject s)"
    and "finish_batch L st s reached status err now = (st', s', again)"
  shows "acked_to s \<le> u_last s \<and>
         (if reached \<and> http_ok status \<and> u_first s \<le> acked_to s
          then again \<and> u_failures s' = 0 \<and>
               (receipt L st' (u_subject s) (u_consumer s) = receipt L st (u_subject s) (u_consumer s) \<or>
                receipt L st' (u_subject s) (u_consumer s) =
                  Some (case receipt L st (u_subject s) (u_consumer s) of
                          None \<Rightarrow> acked_to s | Some j \<Rightarrow> max j (acked_to s)))
          else \<not> again \<and> st' = st \<and> u_failures s' = u_failures s + 1) \<and>
         (\<forall>n c. bjm_subject_valid n \<longrightarrow> (n, c) \<noteq> (u_subject s, u_consumer s) \<longrightarrow>
            receipt L st' n c = receipt L st n c) \<and>
         msgs L st' = msgs L st \<and> base_of L st' = base_of L st \<and> group_rec L st' = group_rec L st"
proof -
  note ll = lib_lawsD [OF assms(1)]
  have le: "acked_to s \<le> u_last s" by (auto simp: acked_to_def split: option.split)
  show ?thesis
  proof (cases "reached \<and> http_ok status \<and> u_first s \<le> acked_to s")
    case False
    with assms(4) le show ?thesis
      by (auto simp: finish_batch_def backoff_def Let_def split: if_splits)
  next
    case True
    obtain st1 r1 where set: "bjm_cursor_set L st (u_subject s) (u_consumer s) (acked_to s) = (st1, r1)"
      by (cases "bjm_cursor_set L st (u_subject s) (u_consumer s) (acked_to s)")
    obtain st2 r2 where sync: "bjm_cursor_sync L st1 = (st2, r2)" by (cases "bjm_cursor_sync L st1")
    have fin: "st' = st2" "again" "u_failures s' = 0"
      using assms(4) True set sync by (auto simp: finish_batch_def recover_def Let_def split: if_splits)
    note sy = cursor_sync_receipts [OF ll(2) sync]
    have rec: "receipt L st' = receipt L st1" using sy fin receipt_cong by metis
    obtain x y where "st1 = st\<lparr>st_cursors := x\<rparr>" "st2 = st1\<lparr>st_cursors := y\<rparr>"
      using cursor_set_frame [OF ll(2) set] sy by blast
    then have fr: "st_subs st' = st_subs st" "st_files st' = st_files st" "st_queues st' = st_queues st"
      by (simp_all add: fin)
    have views: "msgs L st' = msgs L st" "base_of L st' = base_of L st"
      using view_cong [OF fr(1,2)] by (auto simp: fun_eq_iff)
    have groups: "group_rec L st' = group_rec L st" using fr(3) by (auto intro: group_rec_cong)
    have own: "receipt L st1 (u_subject s) (u_consumer s) = receipt L st (u_subject s) (u_consumer s) \<or>
        receipt L st1 (u_subject s) (u_consumer s) =
          Some (case receipt L st (u_subject s) (u_consumer s) of None \<Rightarrow> acked_to s | Some j \<Rightarrow> max j (acked_to s))"
      using cursor_set_receipt [OF ll(1,2) assms(2), of st _ _ st1]
        cursor_set_failed [OF ll(1,2) assms(2), of st _ _ st1] set
      by (cases r1) auto
    have others: "receipt L st1 n c = receipt L st n c"
      if "bjm_subject_valid n" "(n, c) \<noteq> (u_subject s, u_consumer s)" for n c
      using cursor_set_other [OF ll(1,2) assms(2) set assms(3) that] .
    show ?thesis
      unfolding rec views groups using True le fin(2,3) own others by simp
  qed
qed


lemma push_wait_doubles:
  "unat w * 2 ^ n < 2 ^ 64 \<Longrightarrow> w \<noteq> 0 \<Longrightarrow>
     unat (push_wait n w) = unat w * 2 ^ n \<or>
     PUSH_MAX_BACKOFF_MS \<le> push_wait n w \<and> 30000 \<le> unat w * 2 ^ n"
proof (induction n arbitrary: w)
  case (Suc n)
  have m: "unat PUSH_MAX_BACKOFF_MS = 30000" by (simp add: PUSH_MAX_BACKOFF_MS_def)
  show ?case
  proof (cases "w < PUSH_MAX_BACKOFF_MS")
    case False
    then have "30000 \<le> unat w" using m by (simp add: not_less word_le_nat_alt)
    then have "30000 * 1 \<le> unat w * 2 ^ Suc n" by (intro mult_le_mono) simp_all
    moreover have "PUSH_MAX_BACKOFF_MS \<le> w" using False by (simp add: not_less)
    ultimately show ?thesis by (simp add: leD)
  next
    case True
    then have lt: "unat w < 30000" using m by (simp add: word_less_nat_alt)
    have dbl: "unat (w * 2) = unat w * 2"
      using lt by (simp add: unat_word_ariths)
    have "w * 2 \<noteq> 0" using dbl Suc.prems(2) by (metis mult_eq_0_iff unat_0 unat_eq_zero zero_neq_numeral)
    with Suc.IH [of "w * 2"] Suc.prems(1) dbl True show ?thesis by (simp add: mult.assoc)
  qed
qed simp

lemma push_wait_large: "16 \<le> n \<Longrightarrow> PUSH_MAX_BACKOFF_MS \<le> push_wait n PUSH_BACKOFF_MS"
proof -
  have stop: "PUSH_MAX_BACKOFF_MS \<le> push_wait n w" if "PUSH_MAX_BACKOFF_MS \<le> w" for n w
    using that by (cases n) (simp_all add: leD)
  assume "16 \<le> n"
  then obtain k where n: "n = Suc (Suc (Suc (Suc (Suc (Suc k)))))"
    using le_Suc_ex [of 6 n] by (auto simp: eval_nat_numeral)
  show ?thesis
    unfolding n by (simp add: PUSH_BACKOFF_MS_def) (use stop [of 32000 k] in \<open>simp add: PUSH_MAX_BACKOFF_MS_def\<close>)
qed

text \<open>
  A failed delivery waits half a second, doubled with every failure in a row, and never more than
  thirty seconds.
\<close>

theorem push_backoff_bounds:
  assumes "unat now + 30000 < 2 ^ 64"
  shows "u_failures (backoff s now) = u_failures s + 1 \<and>
         unat (u_due_ms (backoff s now)) = unat now + min (500 * 2 ^ u_failures s) 30000"
proof -
  let ?w = "push_wait (u_failures s) PUSH_BACKOFF_MS"
  define w where "w = (if ?w > PUSH_MAX_BACKOFF_MS then PUSH_MAX_BACKOFF_MS else ?w)"
  have m: "unat PUSH_MAX_BACKOFF_MS = 30000" "unat PUSH_BACKOFF_MS = 500" "PUSH_BACKOFF_MS \<noteq> 0"
    by (simp_all add: PUSH_MAX_BACKOFF_MS_def PUSH_BACKOFF_MS_def)
  have "unat w = min (500 * 2 ^ u_failures s) 30000"
  proof (cases "16 \<le> u_failures s")
    case True
    have "(2 :: nat) ^ 16 \<le> 2 ^ u_failures s" using True by (rule power_increasing) simp
    then have "30000 \<le> 500 * (2 :: nat) ^ u_failures s" by simp
    moreover have "w = PUSH_MAX_BACKOFF_MS"
      using push_wait_large [OF True] by (auto simp: w_def)
    ultimately show ?thesis using m(1) by simp
  next
    case False
    have "(2 :: nat) ^ u_failures s \<le> 2 ^ 16" using False by (intro power_increasing) simp_all
    then have "unat PUSH_BACKOFF_MS * 2 ^ u_failures s < 2 ^ 64" by (simp add: m)
    from push_wait_doubles [OF this m(3)] show ?thesis
      by (auto simp: w_def m word_less_nat_alt word_le_nat_alt)
  qed
  moreover have "unat (now + w) = unat now + unat w"
    using assms calculation by (intro unat_add_u64) simp
  moreover have "backoff s now = s\<lparr>u_failures := u_failures s + 1, u_due_ms := now + w\<rparr>"
    by (simp add: backoff_def Let_def w_def)
  ultimately show ?thesis by simp
qed

theorem push_backoff_bounds_witness:
  "unat (u_due_ms (backoff (psub_zero\<lparr>u_failures := 3\<rparr>) 100)) = 4100"
  using push_backoff_bounds [of 100 "psub_zero\<lparr>u_failures := 3\<rparr>"] by simp

section \<open>The headers of a delivery\<close>

lemma hdrs_all_fit:
  assumes "\<forall>h \<in> set ls. length h \<le> 400" and "\<forall>h \<in> set (u_hdrs s). length h \<le> 400"
    and "length (u_hdrs s) + length ls \<le> 12"
  shows "u_hdrs (foldl hdr_add s ls) = u_hdrs s @ ls"
  using assms
proof (induction ls arbitrary: s)
  case (Cons h ls)
  have "sum_list (map (\<lambda>h. int (length h) + 1) hs) \<le> 401 * int (length hs)" if "\<forall>h \<in> set hs. length h \<le> 400" for hs
    using that by (induction hs) auto
  from this [OF Cons.prems(2)] Cons.prems(1,3)
  have "sum_list (map (\<lambda>h. int (length h) + 1) (u_hdrs s)) + int (length h) + 1 \<le> 5120"
    by (simp add: algebra_simps)
  then have add: "hdr_add s h = s\<lparr>u_hdrs := u_hdrs s @ [h]\<rparr>"
    using Cons.prems(1) by (simp add: hdr_add_def Let_def)
  have "u_hdrs (foldl hdr_add (s\<lparr>u_hdrs := u_hdrs s @ [h]\<rparr>) ls) = (u_hdrs s @ [h]) @ ls"
    using Cons.IH [of "s\<lparr>u_hdrs := u_hdrs s @ [h]\<rparr>"] Cons.prems by simp
  with add show ?case by simp
qed simp

lemma dec_u64_length: "length (dec_u64 v) \<le> 20"
proof -
  have "uint v < 10 ^ Suc 19" using uint_lt2p [of v] by simp
  from dec_length [OF uint_ge_0 this] show ?thesis by (simp add: dec_u64_def)
qed

definition plain_char :: "char \<Rightarrow> bool" where
  "plain_char c \<longleftrightarrow> CHR 0x20 \<le> c \<and> c < CHR 0x7F"

lemma name_plain: "name_valid n k \<Longrightarrow> list_all plain_char n"
  by (auto simp: list_all_iff plain_char_def name_char_def token_char_def less_eq_char_def less_char_def
      dest!: name_validD(3))

lemma digits_plain: "list_all is_digit ds \<Longrightarrow> list_all plain_char ds"
  by (auto simp: list_all_iff plain_char_def is_digit_def less_eq_char_def less_char_def)

text \<open>
  Every header of a delivery reaches the transport whole, in its place, and can neither end early
  nor start another: none is dropped or cut by the buffers, and none contains a control character or
  a byte above ASCII, for names and tokens that passed their checks.
\<close>

theorem headers_complete:
  assumes "bjm_subject_valid (u_subject s)" and "bjm_consumer_valid (u_consumer s)"
    and "ps_group (u_cfg s) = [] \<or> bjm_group_valid (ps_group (u_cfg s))"
    and "bjm_token_valid (ps_token (u_cfg s))" and "cnt < 2 ^ 31"
    and "send_batch p s cnt = (p', s', ok)"
  shows "u_hdrs s' = header_lines s cnt \<and> list_all (list_all plain_char) (header_lines s cnt)"
proof -
  define s1 where "s1 = s\<lparr>u_url := take BJM_CALLBACK_MAX (ps_callback (u_cfg s)), u_hdrs := []\<rparr>"
  have lines: "header_lines s1 cnt = header_lines s cnt" by (simp add: header_lines_def s1_def)
  have len: "length (u_subject s) \<le> 128" "length (u_consumer s) \<le> 128" "length (ps_group (u_cfg s)) \<le> 128"
    "length (ps_token (u_cfg s)) \<le> 128"
    using assms(1-4) name_validD(2) by (auto simp: valid_defs bjm_token_valid_def split: if_splits)
  have "int cnt < 10 ^ Suc 9" using assms(5) by simp
  from dec_length [OF _ this] have cnt: "length (dec (int cnt)) \<le> 10" by simp
  have "\<forall>h \<in> set (header_lines s cnt). length h \<le> 400"
    using len cnt dec_u64_length [of "u_first s"] dec_u64_length [of "u_last s"] dec_u64_length [of "u_lag s"]
    by (auto simp: header_lines_def SUKKAL_MEDIA_TYPE_def)
  moreover have "length (header_lines s cnt) \<le> 12" by (simp add: header_lines_def)
  ultimately have hdrs: "u_hdrs (foldl hdr_add s1 (header_lines s cnt)) = header_lines s cnt"
    using hdrs_all_fit [of "header_lines s cnt" s1] by (simp add: s1_def)
  have out: "u_hdrs s' = u_hdrs (foldl hdr_add s1 (header_lines s1 cnt))"
    using assms(6) by (auto simp: send_batch_def Let_def s1_def split: option.splits if_splits)
  have plain: "list_all plain_char (u_subject s)" "list_all plain_char (u_consumer s)"
    "list_all plain_char (ps_group (u_cfg s))" "list_all plain_char (ps_token (u_cfg s))"
    using assms(1-4) name_plain
    by (auto simp: valid_defs bjm_token_valid_def visible_char_def plain_char_def list_all_iff split: if_splits)
  have lits: "list_all plain_char (''Content-Type: '' @ SUKKAL_MEDIA_TYPE)"
    "list_all plain_char ''X-Sukkal-Subject: ''" "list_all plain_char ''X-Sukkal-Consumer: ''"
    "list_all plain_char ''X-Sukkal-Count: ''" "list_all plain_char ''X-Sukkal-First-Index: ''"
    "list_all plain_char ''X-Sukkal-Last-Index: ''" "list_all plain_char ''X-Sukkal-Group: ''"
    "list_all plain_char ''X-Sukkal-Lag: ''" "list_all plain_char ''Authorization: Bearer ''"
    "list_all plain_char ''Expect:''"
    by code_simp+
  have nums: "list_all plain_char (dec_u64 v)" "list_all plain_char (dec (int n))" for v n
    by (auto simp: dec_u64_def intro!: digits_plain dec_digits)
  have "list_all (list_all plain_char) (header_lines s cnt)"
    unfolding header_lines_def using plain lits nums by simp
  with out hdrs lines show ?thesis by simp
qed

section \<open>The pump\<close>

text \<open>
  C18: The engine holds at most one delivery per subscription, in every state it can reach: a pump
  starts deliveries only for subscriptions that have none in flight, are not deleted and whose
  backoff is over, each at most once, and the counter of deliveries in flight is exact.
\<close>

theorem pump_one_each:
  assumes "engine_reach L (st, p)" and "bjm_pusher_pump L st p now = (st', p', t)"
  shows "\<exists>E. p_sent p' = p_sent p @ E \<and> distinct (map fst E) \<and>
           (\<forall>e \<in> set E. \<exists>s \<in> set (p_subs p). u_id s = fst e \<and> \<not> u_inflight s \<and> \<not> u_gone s \<and> u_due_ms s \<le> now) \<and>
           p_inflight p' = p_inflight p + int (length E) \<and>
           p_inflight p' = int (length (filter u_inflight (p_subs p')))"
proof -
  have inv: "engine_inv p" using engine_reach_inv [OF assms(1)] by simp
  obtain D p1 where pd: "pumped now (length (p_subs p)) p p1 D" and p': "p' = p1 \<or> p' = p1\<lparr>p_work := False\<rparr>"
    using pump_pumped [OF assms(2)] by blast
  then obtain E where E: "p_sent p1 = p_sent p @ E" "list_all2 (handed p) D E"
    and D: "distinct D" "set D \<subseteq> {..<length (p_subs p)}" "p_inflight p1 = p_inflight p + int (length D)"
    and at: "\<forall>j < length (p_subs p). served now (p_subs p ! j) (p_subs p1 ! j) (j \<in> set D)"
    by (auto simp: pumped_def)
  have ids: "map fst E = map (\<lambda>j. u_id (p_subs p ! j)) D"
    using E(2) by (induction rule: list_all2_induct) (auto simp: handed_def)
  have "inj_on (\<lambda>j. u_id (p_subs p ! j)) {..<length (p_subs p)}"
    using inv by (auto simp: engine_inv_def inj_on_def distinct_conv_nth)
  then have dist: "distinct (map fst E)"
    unfolding ids distinct_map using D(1,2) by (auto intro: inj_on_subset)
  have "\<exists>s \<in> set (p_subs p). u_id s = fst e \<and> \<not> u_inflight s \<and> \<not> u_gone s \<and> u_due_ms s \<le> now"
    if "e \<in> set E" for e
  proof -
    have "fst e \<in> (\<lambda>j. u_id (p_subs p ! j)) ` set D" using that ids by (metis image_eqI list.set_map)
    then obtain j where "j \<in> set D" "fst e = u_id (p_subs p ! j)" by blast
    moreover from this have "j < length (p_subs p)" using D(2) by auto
    ultimately show ?thesis using at by (intro bexI [of _ "p_subs p ! j"]) (auto simp: served_def)
  qed
  moreover have "length E = length D" using E(2) by (simp add: list_all2_lengthD)
  moreover have "engine_inv p'" using pump_inv [OF inv assms(2)] .
  ultimately show ?thesis
    using E(1) D(3) dist p' by (intro exI [of _ E]) (auto simp: engine_inv_def)
qed

text \<open>
  What the engine keeps true in every state it can reach: no two subscriptions share an address,
  and a deleted subscription stays only while its delivery is in flight. A report always finds the
  subscription it is about.
\<close>

theorem engine_consistent:
  assumes "engine_reach L (st, p)"
  shows "distinct (map u_id (p_subs p)) \<and> p_inflight p = int (length (filter u_inflight (p_subs p))) \<and>
         list_all (\<lambda>s. u_gone s \<longrightarrow> u_inflight s) (p_subs p) \<and>
         list_all (\<lambda>s. \<exists>i. position (\<lambda>u. u_id u = u_id s) (p_subs p) = Some i \<and> p_subs p ! i = s) (p_subs p)"
proof -
  have inv: "engine_inv p" using engine_reach_inv [OF assms] by simp
  then have "list_all (\<lambda>s. \<exists>i. position (\<lambda>u. u_id u = u_id s) (p_subs p) = Some i \<and> p_subs p ! i = s) (p_subs p)"
    using delivered_index [OF inv] unfolding list_all_iff by metis
  with inv show ?thesis by (simp add: engine_inv_def)
qed

lemma pump_fold_due:
  "fold (pump_one L now) js (st, p, started, busy, due) = (st', p', started', busy', due') \<Longrightarrow>
     (due \<noteq> 0 \<longrightarrow> busy) \<and> p_work p \<Longrightarrow> (due' \<noteq> 0 \<longrightarrow> busy') \<and> p_work p'"
proof (induction js arbitrary: st p started busy due)
  case (Cons j js)
  obtain st1 p1 started1 busy1 due1
    where one: "pump_one L now j (st, p, started, busy, due) = (st1, p1, started1, busy1, due1)"
    by (cases "pump_one L now j (st, p, started, busy, due)")
  have "(due1 \<noteq> 0 \<longrightarrow> busy1) \<and> p_work p1"
    using one Cons.prems(2) start_attempted [of L st p "p_subs p ! j"]
    by (auto simp: pump_one_def attempted_def same_engine_def Let_def split: if_splits prod.splits)
  with Cons.IH [of st1 p1 started1 busy1 due1] Cons.prems(1) one show ?case by simp
qed simp

text \<open>
  C39: The pump never answers the time until the next backoff or lease is over: its answer is always
  one of three constants, and while anything waits on the clock with nothing in flight it is zero,
  so the loop that honours it polls without sleeping until then.
\<close>

theorem pump_never_sleeps_until_due:
  assumes "bjm_pusher_pump L st p now = (st', p', t)"
  shows "t = (if p_inflight p' \<noteq> 0 then 2 else if p_work p' then 0 else 1000)"
proof (cases "p_work p")
  case False
  with assms show ?thesis
    by (auto simp: bjm_pusher_pump_def PUSH_TICK_MS_def PUSH_IDLE_MS_def split: if_splits)
next
  case True
  obtain st1 p1 started busy due
    where f: "fold (pump_one L now) [0..<length (p_subs p)] (st, p, False, False, 0) = (st1, p1, started, busy, due)"
    by (cases "fold (pump_one L now) [0..<length (p_subs p)] (st, p, False, False, 0)")
  have "(due \<noteq> 0 \<longrightarrow> busy) \<and> p_work p1" using pump_fold_due [OF f] True by simp
  with assms True f show ?thesis
    by (auto simp: bjm_pusher_pump_def pump_pass_def PUSH_TICK_MS_def PUSH_IDLE_MS_def split: if_splits)
qed

end
