(* ===== verification/Push_Worker.thy ===== *)
theory Push_Worker
  imports Push_Engine
begin

text \<open>
  Workers: settling the jobs of a delivery against the group's record, the headers of a delivery, and
  the answers of the pump.
\<close>

section \<open>A release on the store, whatever storage does\<close>

lemma release_error:
  assumes laws: "lib_laws L" and rel: "queue_release L st s g i drop_it delay = (st', Inl e)"
    and rec: "group_rec L st s g = Some q" "queue_inv q"
    and wf: "\<And>q' d. release_job (now_ms st) q i drop_it delay = Some (q', d) \<Longrightarrow> qrec_wf q'"
  shows "group_rec L st' = group_rec L st"
proof -
  note ll = lib_lawsD [OF laws]
  obtain st1 r1 where op: "queues_open L st = (st1, r1)" by (cases "queues_open L st")
  note o = queues_openD [OF ll(2) op]
  obtain qs where st1: "st1 = st\<lparr>st_queues := qs\<rparr>" using o(1) by blast
  show ?thesis
  proof (cases r1)
    case (Inl e')
    with rel op o(2) show ?thesis by (simp add: queue_release_def)
  next
    case (Inr t)
    obtain st2 r2 where load: "queue_load L st1 s g = (st2, r2)" by (cases "queue_load L st1 s g")
    note ld = queue_loadD [OF ll(3,2) load]
    obtain x y where st2: "st2 = st1\<lparr>st_subs := x, st_files := y\<rparr>" using ld(1) by blast
    have gr: "group_rec L st2 = group_rec L st"
      using o(2) by (auto simp: st2 intro: trans [OF group_rec_cong])
    show ?thesis
    proof (cases r2)
      case (Inl e')
      with rel op \<open>r1 = Inr t\<close> load gr show ?thesis by (simp add: queue_release_def)
    next
      case (Inr y)
      obtain q2 ex where y: "y = (q2, ex)" by (cases y)
      have now: "now_ms st2 = now_ms st" by (simp add: st1 st2 now_ms_def)
      have q2: "ex \<Longrightarrow> q2 = q"
        using ld(4) [of q2 ex] Inr y o(2) rec(1) by (simp add: loaded_def)
      obtain q' d st3 where job: "release_job (now_ms st) q i drop_it delay = Some (q', d)"
          and store: "queue_store L st2 s g q' = (st3, Inl e)" and st': "st' = st3"
        using rel op \<open>r1 = Inr t\<close> load Inr q2
        by (auto simp: queue_release_def y now split: if_splits option.splits prod.splits sum.splits)
      have ex: "exact_evs (queue_encode q')" using wf [OF job] queue_codec.enc_exact by blast
      have "slot_view L (st_queues st3) = slot_view L (st_queues st2)"
        using store bpt_putD(2) [OF ll(1,2) ex]
        by (auto simp: queue_store_def queue_handle_def split: sum.splits prod.splits slot.splits)
      then show ?thesis using gr group_rec_cong [of L st3 st2] by (simp add: st')
    qed
  qed
qed

lemma release_wf:
  assumes "qrec_wf q" and "q_max_backoff_ms q \<noteq> 0"
    and "unat now + unat (q_max_backoff_ms q) \<le> 2 ^ 53"
    and job: "release_job now q i drop_it delay = Some (q', d)" and "drop_it \<or> delay = UINT64_MAX"
  shows "qrec_wf q'"
proof -
  obtain j where j: "fl_find q i = Some j" using job by (cases "fl_find q i") (auto simp: release_job_def)
  have jl: "j < length (q_fl q)" using fl_findD(1) [OF j] by simp
  show ?thesis
  proof (cases drop_it)
    case True
    then have q': "q' = fl_remove q j" using job j by (simp add: release_job_def)
    have "mset (q_fl q') \<subseteq># mset (q_fl q)" using fl_remove_mset [OF jl] by (simp add: q')
    then have "set (q_fl q') \<subseteq> set (q_fl q)" by (metis set_mset_mono set_mset_mset)
    then show ?thesis using assms(1) fl_remove_parts(3) [OF jl] by (auto simp: qrec_wf_def q' list_all_iff)
  next
    case False
    then have d: "d = backoff_for q (l_attempts (q_fl q ! j))"
      and q': "q' = q\<lparr>q_fl := (q_fl q)[j := (q_fl q ! j)\<lparr>l_expires := now + d\<rparr>]\<rparr>"
      using job j assms(5) by (auto simp: release_job_def Let_def)
    have "unat d \<le> unat (q_max_backoff_ms q)"
      using backoff_capped [OF assms(2)] by (simp add: d word_le_nat_alt)
    then have "unat now + unat d \<le> 2 ^ 53" using assms(3) by linarith
    then have "exact_int (now + d)" using unat_add_u64 [of now d] by (simp add: exact_int_def)
    moreover have "lease_exact (q_fl q ! j)" using assms(1) jl by (simp add: qrec_wf_def list_all_length)
    ultimately have "lease_exact ((q_fl q ! j)\<lparr>l_expires := now + d\<rparr>)" by (simp add: lease_exact_def)
    then show ?thesis
      using assms(1) by (auto simp: qrec_wf_def q' list_all_iff dest: set_update_subset_insert [THEN subsetD])
  qed
qed

text \<open>The clock a release reads is the host's and stays.\<close>

lemma release_clock: "queue_release L st s g i drop_it delay = (st', r) \<Longrightarrow> now_ms st' = now_ms st"
proof -
  have store: "queue_store L st s g q = (st', r) \<Longrightarrow> st_clock st' = st_clock st" for st st' q r
    by (auto simp: queue_store_def split: sum.splits prod.splits)
  have get: "subject_get L st n c = (st', r) \<Longrightarrow> st_clock st' = st_clock st" for st st' n c r
    by (auto simp: subject_get_def Let_def split: option.splits prod.splits sum.splits if_splits)
  have load: "queue_load L st s g = (st', r) \<Longrightarrow> st_clock st' = st_clock st" for st st' r
    by (auto simp: queue_load_def dest: get split: sum.splits prod.splits option.splits)
  have "queues_open L st = (st', r) \<Longrightarrow> st_clock st' = st_clock st" for st st' r
    by (auto simp: queues_open_def split: prod.splits)
  then show "queue_release L st s g i drop_it delay = (st', r) \<Longrightarrow> now_ms st' = now_ms st"
    using load store
    by (auto simp: queue_release_def now_ms_def split: sum.splits prod.splits option.splits if_splits)
qed

definition tracked :: "('t, 'l) lib \<Rightarrow> ('t, 'l) store \<Rightarrow> string \<Rightarrow> string \<Rightarrow> u64 set \<Rightarrow> u64 \<Rightarrow> u64 \<Rightarrow> bool" where
  "tracked L st s g J now cap \<longleftrightarrow>
     (\<exists>q. group_rec L st s g = Some q \<and> queue_inv q \<and> qrec_wf q \<and> l_index ` set (q_fl q) = J \<and>
        q_max_backoff_ms q = cap \<and> now_ms st = now)"

lemma release_tracked:
  assumes "lib_laws L" and "queue_release L st s g i drop_it delay = (st', r)"
    and "drop_it \<or> delay = UINT64_MAX" and "cap \<noteq> 0" and "unat now + unat cap \<le> 2 ^ 53"
    and "tracked L st s g J now cap"
  shows "tracked L st' s g J now cap \<or> drop_it \<and> tracked L st' s g (J - {i}) now cap"
proof -
  obtain q where q: "group_rec L st s g = Some q" "queue_inv q" "qrec_wf q" "l_index ` set (q_fl q) = J"
      "q_max_backoff_ms q = cap" and now: "now_ms st = now"
    using assms(6) by (auto simp: tracked_def)
  note clock = release_clock [OF assms(2)]
  have wf: "qrec_wf q'" if "release_job (now_ms st) q i drop_it delay = Some (q', d)" for q' d
    using release_wf [OF q(3) _ _ that] assms(3-5) q(5) now by simp
  show ?thesis
  proof (cases r)
    case (Inl e)
    have "group_rec L st' = group_rec L st"
      by (rule release_error [OF assms(1) assms(2) [unfolded Inl] q(1,2)]) (erule wf)
    then show ?thesis using q now clock by (auto simp: tracked_def)
  next
    case (Inr f)
    from queue_releaseD [OF assms(1) assms(2) [unfolded Inr]] show ?thesis
    proof (elim disjE exE conjE)
      assume "group_rec L st' = group_rec L st"
      then show ?thesis using q now clock by (auto simp: tracked_def)
    next
      fix q1 q' d
      assume "group_rec L st s g = Some q1" and "release_job (now_ms st) q1 i drop_it delay = Some (q', d)"
        and "qrec_wf q' \<longrightarrow> group_rec L st' s g = Some q'"
      then have job: "release_job (now_ms st) q i drop_it delay = Some (q', d)"
        and rec: "group_rec L st' s g = Some q'" using q(1) wf by auto
      note rd = release_jobD [OF q(2) job]
      have "q_max_backoff_ms q' = cap" using rd(3) q(5) by (simp add: queue_frame_def)
      then show ?thesis
        using rec rd(1,4,5) wf [OF job] now clock q(4) by (cases drop_it) (auto simp: tracked_def)
    qed
  qed
qed

section \<open>What a worker's reply settles\<close>

definition reported :: "psub \<Rightarrow> bool \<Rightarrow> u64 \<Rightarrow> bool" where
  "reported s ok i \<longleftrightarrow> ok \<and> (case u_done_list s of None \<Rightarrow> True | Some ds \<Rightarrow> i \<in> set ds)"

lemma settle_tracked:
  assumes "lib_laws L" and "cap \<noteq> 0" and "unat now + unat cap \<le> 2 ^ 53"
    and "tracked L st (u_subject s) (ps_group (u_cfg s)) J now cap"
    and "settle_job L s ok i (st, n) = (st', n')"
  shows "tracked L st' (u_subject s) (ps_group (u_cfg s)) J now cap \<or>
         reported s ok i \<and> tracked L st' (u_subject s) (ps_group (u_cfg s)) (J - {i}) now cap"
proof (cases "reported s ok i")
  case True
  obtain st1 r where rel: "queue_release L st (u_subject s) (ps_group (u_cfg s)) i True 0 = (st1, r)"
    by (cases "queue_release L st (u_subject s) (ps_group (u_cfg s)) i True 0")
  have "st' = st1"
    using assms(5) True rel
    by (auto simp: settle_job_def bjm_done_def reported_def Let_def split: sum.splits option.splits)
  with release_tracked [OF assms(1) rel _ assms(2-4)] True show ?thesis by auto
next
  case False
  obtain st1 r where rel: "queue_release L st (u_subject s) (ps_group (u_cfg s)) i False UINT64_MAX = (st1, r)"
    by (cases "queue_release L st (u_subject s) (ps_group (u_cfg s)) i False UINT64_MAX")
  have "st' = st1"
    using assms(5) False rel
    by (auto simp: settle_job_def bjm_fail_def reported_def Let_def split: option.splits)
  with release_tracked [OF assms(1) rel _ assms(2-4)] show ?thesis by auto
qed

lemma settle_all_tracked:
  assumes "lib_laws L" and "cap \<noteq> 0" and "unat now + unat cap \<le> 2 ^ 53"
  shows "tracked L st (u_subject s) (ps_group (u_cfg s)) J now cap \<Longrightarrow>
     fold (settle_job L s ok) js (st, n) = (st', n') \<Longrightarrow>
     \<exists>F. F \<subseteq> {i \<in> set js. reported s ok i} \<and> tracked L st' (u_subject s) (ps_group (u_cfg s)) (J - F) now cap"
proof (induction js arbitrary: st n J)
  case (Cons i js)
  obtain st1 n1 where one: "settle_job L s ok i (st, n) = (st1, n1)" by (cases "settle_job L s ok i (st, n)")
  with Cons.prems have rest: "fold (settle_job L s ok) js (st1, n1) = (st', n')" by simp
  let ?T = "\<lambda>st J. tracked L st (u_subject s) (ps_group (u_cfg s)) J now cap"
  from settle_tracked [OF assms Cons.prems(1) one] show ?case
  proof
    assume "?T st1 J"
    from Cons.IH [OF this rest] obtain F where "F \<subseteq> {i \<in> set js. reported s ok i}" "?T st' (J - F)" by blast
    then show ?thesis by (intro exI [of _ F] conjI) auto
  next
    assume r: "reported s ok i \<and> ?T st1 (J - {i})"
    then have "?T st1 (J - {i})" by blast
    from Cons.IH [OF this rest] obtain F where F: "F \<subseteq> {i \<in> set js. reported s ok i}" "?T st' (J - {i} - F)"
      by blast
    have "J - {i} - F = J - insert i F" by blast
    with F r show ?thesis by (intro exI [of _ "insert i F"] conjI) auto
  qed
next
  case Nil
  then show ?case by (intro exI [of _ "{}"]) simp
qed

lemma finish_jobs_tracked:
  assumes "lib_laws L" and "group_rec L st (u_subject s) (ps_group (u_cfg s)) = Some q"
    and "queue_inv q" and "qrec_wf q" and "q_max_backoff_ms q \<noteq> 0"
    and "unat (now_ms st) + unat (q_max_backoff_ms q) \<le> 2 ^ 53"
    and "finish_jobs L st s reached status err now = (st', s', again)"
  shows "\<exists>q' F. group_rec L st' (u_subject s) (ps_group (u_cfg s)) = Some q' \<and> queue_inv q' \<and>
           l_index ` set (q_fl q') = l_index ` set (q_fl q) - F \<and> F \<subseteq> set (u_jobs s) \<and>
           (reached \<and> http_ok status \<or> F = {}) \<and>
           (case u_done_list s of None \<Rightarrow> True | Some ds \<Rightarrow> F \<subseteq> set ds)"
proof (cases reached)
  case False
  with assms(7) have "st' = st" by (simp add: finish_jobs_def)
  then show ?thesis using assms(2,3) by (intro exI [of _ q] exI [of _ "{}"]) (auto split: option.split)
next
  case True
  let ?ok = "http_ok status"
  obtain st1 n1 where f: "fold (settle_job L s ?ok) (u_jobs s) (st, u_delivered s) = (st1, n1)"
    by (cases "fold (settle_job L s ?ok) (u_jobs s) (st, u_delivered s)")
  have st': "st' = st1" using assms(7) True f by (auto simp: finish_jobs_def Let_def split: if_splits)
  have "tracked L st (u_subject s) (ps_group (u_cfg s)) (l_index ` set (q_fl q)) (now_ms st) (q_max_backoff_ms q)"
    using assms(2-4) by (auto simp: tracked_def)
  from settle_all_tracked [OF assms(1,5,6) this f] obtain F q'
    where "F \<subseteq> {i \<in> set (u_jobs s). reported s ?ok i}" "group_rec L st' (u_subject s) (ps_group (u_cfg s)) = Some q'"
      "queue_inv q'" "l_index ` set (q_fl q') = l_index ` set (q_fl q) - F"
    by (auto simp: tracked_def st')
  then show ?thesis
    by (intro exI [of _ q'] exI [of _ F]) (auto simp: reported_def True split: option.splits)
qed

text \<open>
  A worker's reply finishes only what it reports. The jobs a group tracks after a delivery has
  ended are those it tracked before, less some the reply names: none when the worker was never
  reached or answered an error, only those in its list when it sent one, and only jobs of this
  delivery in any case. Every other job stays leased and comes back.
\<close>

theorem worker_finishes_only_reported:
  assumes "lib_laws L" and "group_rec L st (u_subject s) (ps_group (u_cfg s)) = Some q"
    and "queue_inv q" and "qrec_wf q" and "q_max_backoff_ms q \<noteq> 0"
    and "unat (now_ms st) + unat (q_max_backoff_ms q) \<le> 2 ^ 53"
    and "finish_jobs L st s reached status err now = (st', s', again)"
  shows "\<exists>q' F. group_rec L st' (u_subject s) (ps_group (u_cfg s)) = Some q' \<and> queue_inv q' \<and>
           l_index ` set (q_fl q') = l_index ` set (q_fl q) - F \<and> F \<subseteq> set (u_jobs s) \<and>
           (reached \<and> http_ok status \<or> F = {}) \<and>
           (case u_done_list s of None \<Rightarrow> True | Some ds \<Rightarrow> F \<subseteq> set ds)"
  using assms by (rule finish_jobs_tracked)

end
