(* ===== verification/Queue_Properties.thy ===== *)
theory Queue_Properties
  imports Queue
begin

text \<open>
  The properties of queue groups over the store, with concrete runs that show them at work.
\<close>

text \<open>A store with three messages on \<open>a\<close>, the last of them published by a consumer of jobs.\<close>

definition queue_run1 :: "(rtree, rlog) store" where
  "queue_run1 =
     (let st = fst (bjm_publish ref_lib (ref_store 100) ''a'' 1 [7]);
          st = fst (bjm_publish ref_lib st ''a'' 1 [8])
      in fst (bjm_queue_config ref_lib st ''a'' ''g'' 30 1 1000 300000))"

definition queue_run2 :: "(rtree, rlog) store" where
  "queue_run2 = fst (bjm_take ref_lib queue_run1 ''a'' ''g'' 5 UINT64_MAX)"

text \<open>
  C21: \<open>bjm_take\<close> is one step of the group: the record it loads, or a fresh one above the log's
  base, goes through \<open>Take\<close> and is stored; every object of the answer is a job of that step with
  the payload the log holds under its index; and no other group's record changes.
\<close>

theorem take_refines_step:
  assumes "lib_laws L" and "bjm_take L st s g n lease_ms = (st', Inr (cnt, out))"
  shows "\<exists>q0 existed q' js last_ix ls objs. loaded L st s g q0 existed \<and>
           unat last_ix = base_of L st s + length (msgs L st s) \<and>
           queue_step q0 (Take (now_ms st) lease_ms n last_ix) = (q', js) \<and>
           (qrec_wf q' \<longrightarrow> group_rec L st' s g = Some q') \<and>
           (\<forall>s' g'. s' @ ''/'' @ g' \<noteq> s @ ''/'' @ g \<longrightarrow> group_rec L st' s' g' = group_rec L st s' g') \<and>
           cnt = length objs \<and> (exact_evs (bj_array objs) \<longrightarrow> bj_decode L out = Inr (bj_array objs)) \<and>
           (\<forall>ob \<in> set objs. \<exists>(i, a) \<in> set js. \<exists>ty p. msg_at L st s (unat i) = Some (ty, p) \<and>
              ob = bj_object [(''index'', [EInt i]), (''attempts'', [EInt a]), (''expires_ms'', [EInt ls]),
                (''type'', [EInt (int_to_u64 ty)]), (''payload'', [EBin p])])"
  by (rule bjm_takeD [OF assms]) blast

theorem take_refines_step_witness:
  "\<exists>q0 existed q' js last_ix. loaded ref_lib queue_run1 ''a'' ''g'' q0 existed \<and>
     queue_step q0 (Take (now_ms queue_run1) UINT64_MAX 5 last_ix) = (q', js) \<and>
     (qrec_wf q' \<longrightarrow> group_rec ref_lib queue_run2 ''a'' ''g'' = Some q')"
proof -
  have "is_ok (snd (bjm_take ref_lib queue_run1 ''a'' ''g'' 5 UINT64_MAX))" by code_simp
  then obtain cnt out where "bjm_take ref_lib queue_run1 ''a'' ''g'' 5 UINT64_MAX = (queue_run2, Inr (cnt, out))"
    unfolding is_ok_iff queue_run2_def by (metis prod.collapse)
  from take_refines_step [OF ref_lib_laws this] show ?thesis by blast
qed

text \<open>
  \<open>bjm_done\<close> finishes exactly the job it names: when it answers that the job was there, the
  group's record is the old one with that one lease taken out, and otherwise nothing changed and
  the job was not leased.
\<close>

theorem done_finishes_one:
  assumes "lib_laws L" and "bjm_done L st s g i = (st', Inr found)"
  shows "if found
         then \<exists>q q'. group_rec L st s g = Some q \<and> i \<in> l_index ` set (q_fl q) \<and>
                (queue_inv q \<longrightarrow> l_index ` set (q_fl q') = l_index ` set (q_fl q) - {i} \<and> queue_inv q') \<and>
                (qrec_wf q' \<longrightarrow> group_rec L st' s g = Some q')
         else group_rec L st' = group_rec L st \<and>
              (\<forall>q. group_rec L st s g = Some q \<longrightarrow> i \<notin> l_index ` set (q_fl q))"
proof -
  obtain r where rel: "queue_release L st s g i True 0 = (st', Inr r)" and found: "found = (r \<noteq> None)"
    using assms(2) by (auto simp: bjm_done_def split: prod.splits sum.splits)
  from queue_releaseD [OF assms(1) rel] show ?thesis
  proof (elim disjE exE conjE)
    assume "r = None" and "group_rec L st' = group_rec L st"
      and "\<forall>q. group_rec L st s g = Some q \<longrightarrow> i \<notin> l_index ` set (q_fl q)"
    with found show ?thesis by simp
  next
    fix q q' d
    assume r: "r = Some d" and q: "group_rec L st s g = Some q"
      and job: "release_job (now_ms st) q i True 0 = Some (q', d)"
      and q': "qrec_wf q' \<longrightarrow> group_rec L st' s g = Some q'"
    have "i \<in> l_index ` set (q_fl q)"
    proof -
      obtain k where "fl_find q i = Some k"
        using job by (auto simp: release_job_def split: option.splits)
      then show ?thesis using fl_findD(2) [of q i] by auto
    qed
    with found r q q' release_jobD(1,4) [OF _ job] show ?thesis by auto
  qed
qed

theorem done_finishes_one_witness:
  "\<exists>q q'. group_rec ref_lib queue_run2 ''a'' ''g'' = Some q \<and>
     (queue_inv q \<longrightarrow> l_index ` set (q_fl q') = l_index ` set (q_fl q) - {2} \<and> queue_inv q')"
proof -
  have "snd (bjm_done ref_lib queue_run2 ''a'' ''g'' 2) = Inr True" by code_simp
  then have "bjm_done ref_lib queue_run2 ''a'' ''g'' 2 = (fst (bjm_done ref_lib queue_run2 ''a'' ''g'' 2), Inr True)"
    by (simp add: prod_eq_iff)
  from done_finishes_one [OF ref_lib_laws this] show ?thesis by auto
qed

text \<open>
  The floor of a subject's groups is below everything they still owe: every leased message and
  every message not handed out yet.
\<close>

theorem floor_below_owed:
  assumes "lib_laws L" and "bjm_queue_floor L st s = (st', Inr (f, n))"
    and "group_rec L st s g = Some q" and "g \<noteq> []"
  shows "(0 < q_next q \<longrightarrow> f < q_next q) \<and> (\<forall>l \<in> set (q_fl q). 0 < l_index l \<longrightarrow> f < l_index l)"
  using queue_floorD(3) [OF lib_lawsD(2) [OF assms(1)] assms(2) refl assms(3,4)]
    le_less_trans [OF _ owed_floor_below(1)] le_less_trans [OF _ owed_floor_below(2)] by blast

theorem floor_below_owed_witness:
  "\<exists>f. snd (bjm_queue_floor ref_lib queue_run2 ''a'') = Inr (f, 1) \<and> f = 0 \<and>
     (\<forall>q. group_rec ref_lib queue_run2 ''a'' ''g'' = Some q \<longrightarrow>
        (0 < q_next q \<longrightarrow> f < q_next q) \<and> (\<forall>l \<in> set (q_fl q). 0 < l_index l \<longrightarrow> f < l_index l))"
proof -
  have "snd (bjm_queue_floor ref_lib queue_run2 ''a'') = Inr (0, 1)" by code_simp
  moreover from this have "bjm_queue_floor ref_lib queue_run2 ''a'' =
      (fst (bjm_queue_floor ref_lib queue_run2 ''a''), Inr (0, 1))"
    by (simp add: prod_eq_iff)
  note floor_below_owed [OF ref_lib_laws this, of "''g''"]
  ultimately show ?thesis by simp
qed



text \<open>
  C24: A requeue undoes a dead letter: when the channel holds the envelope of a message of subject
  \<open>s\<close>, requeueing it appends that message, same entry type and same bytes, to \<open>s\<close> and nowhere
  else.
\<close>

theorem requeue_restores:
  assumes "lib_laws L" and "bjm_requeue L st s i = (st', Inr j)"
    and "dead_subject_of s (BJM_SUBJECT_MAX + 1) = Some d"
    and "msg_at L st d (unat i) = Some (k, b)" and "bj_decode L b = Inr (dead_envelope s g x a n ty p)"
    and "bjm_subject_valid s" and "ty = BJM_ENTRY_PLAIN \<or> ty = BJM_ENTRY_ENVELOPE"
  shows "msgs L st' s = msgs L st s @ [(ty, p)] \<and> (\<forall>m. m \<noteq> s \<longrightarrow> msgs L st' m = msgs L st m) \<and>
         unat j = base_of L st s + length (msgs L st s) + 1"
  using requeue_envelope [OF assms] by blast

definition queue_run3 :: "(rtree, rlog) store" where
  "queue_run3 = fst (bjm_take ref_lib (queue_run2\<lparr>st_clock := Some 200\<rparr>) ''a'' ''g'' 5 UINT64_MAX)"

theorem requeue_restores_witness:
  "msgs ref_lib (fst (bjm_requeue ref_lib queue_run3 ''a'' 1)) ''a'' = msgs ref_lib queue_run3 ''a'' @ [(1, [7])]"
proof -
  have "is_ok (snd (bjm_requeue ref_lib queue_run3 ''a'' 1))" by code_simp
  then obtain j where req: "bjm_requeue ref_lib queue_run3 ''a'' 1 =
      (fst (bjm_requeue ref_lib queue_run3 ''a'' 1), Inr j)"
    by (auto simp: is_ok_iff prod_eq_iff)
  have "map_option (\<lambda>m. bj_decode ref_lib (snd m)) (msg_at ref_lib queue_run3 ''a.dead'' (unat (1 :: u64))) =
      Some (Inr (dead_envelope ''a'' ''g'' 1 1 200 1 [7]))" by code_simp
  then obtain k b where at: "msg_at ref_lib queue_run3 ''a.dead'' (unat (1 :: u64)) = Some (k, b)"
      and dec: "bj_decode ref_lib b = Inr (dead_envelope ''a'' ''g'' 1 1 200 1 [7])" by auto
  have "dead_subject_of ''a'' (BJM_SUBJECT_MAX + 1) = Some ''a.dead''" "bjm_subject_valid ''a''" by code_simp+
  from requeue_restores [OF ref_lib_laws req this(1) at dec this(2)] show ?thesis
    by (simp add: BJM_ENTRY_PLAIN_def)
qed

text \<open>
  The delay before a failed job comes back never exceeds the group's cap, and doubles with every
  attempt until it reaches it.
\<close>

theorem backoff_bounds:
  assumes "q_max_backoff_ms q \<noteq> 0"
  shows "backoff_for q a \<le> q_max_backoff_ms q \<and>
         (1 \<le> unat a \<and> unat a \<le> 31 \<and> unat (q_backoff_ms q) * 2 ^ (unat a - 1) < 2 ^ 64 \<longrightarrow>
            unat (backoff_for q a) = min (unat (q_backoff_ms q) * 2 ^ (unat a - 1)) (unat (q_max_backoff_ms q)))"
  using backoff_capped [OF assms] backoff_doubles [OF assms] by blast

theorem backoff_bounds_witness:
  "backoff_for queue_example 40 \<le> 300000 \<and> unat (backoff_for queue_example 4) = 8000"
proof -
  have "q_max_backoff_ms queue_example \<noteq> 0" by (simp add: queue_example_def)
  from backoff_bounds [OF this, of 40] backoff_bounds [OF this, of 4] show ?thesis
    by (simp add: queue_example_def)
qed

text \<open>
  Without a cap a large base delay does not back off at all: the doubling wraps, the wrapped
  delay is replaced by the absent cap, and the failed job is offered again at once.
\<close>

theorem backoff_without_cap:
  "backoff_for (queue_example\<lparr>q_backoff_ms := 2 ^ 63, q_max_backoff_ms := 0\<rparr>) 2 = 0"
  by code_simp

end
