(* ===== verification/Push_Runs.thy ===== *)
theory Push_Runs
  imports Push_Properties Push_Worker Queue_Properties
begin

text \<open>
  Concrete runs of the delivery engine: each property of it applied to a store, a subscription and
  a transport where its hypotheses hold.
\<close>

definition push_store :: "(rtree, rlog) store" where
  "push_store = fst (bjm_publish ref_lib (fst (bjm_publish ref_lib (ref_store 100) ''a'' 1 [7])) ''a'' 1 [8])"

definition open_transport :: transport where
  "open_transport = \<lparr>x_open = Some 1, x_close = True, x_send = Some (\<lambda>conn url hdrs body. conn \<noteq> None)\<rparr>"

definition a_sub :: bjm_push_sub where
  "a_sub = push_sub_zero\<lparr>ps_pattern := ''a'', ps_callback := ''http://h/''\<rparr>"

definition engine0 :: "(rtree, rlog) store \<times> pusher" where
  "engine0 = (case bjm_pusher_new ref_lib push_store 0 of (st, Some p) \<Rightarrow> (st, p))"

definition engine1 :: pusher where
  "engine1 =
     bjm_pusher_add (bjm_pusher_notify (bjm_pusher_set_transport (snd engine0) open_transport) ''a'') ''c'' a_sub"

lemma engine0_new: "bjm_pusher_new ref_lib push_store 0 = (fst engine0, Some (snd engine0))"
proof -
  have "snd (bjm_pusher_new ref_lib push_store 0) \<noteq> None" by code_simp
  then show ?thesis by (auto simp: engine0_def split: prod.splits)
qed

lemma engine1_reached: "engine_reach ref_lib (fst engine0, engine1)"
  unfolding engine1_def
  by (intro engine_reach.step [OF _ engine_step.add] engine_reach.step [OF _ engine_step.notify]
      engine_reach.step [OF _ engine_step.transport]) (rule engine_reach.start [OF engine0_new])

theorem pump_one_each_witness:
  "\<exists>E. p_sent (fst (snd (bjm_pusher_pump ref_lib (fst engine0) engine1 100))) = p_sent engine1 @ E \<and>
     distinct (map fst E)"
proof -
  obtain st' p' t where run: "bjm_pusher_pump ref_lib (fst engine0) engine1 100 = (st', p', t)"
    by (rule prod_cases3)
  from pump_one_each [OF engine1_reached this] obtain E
    where "p_sent p' = p_sent engine1 @ E" "distinct (map fst E)" by (elim exE conjE)
  then show ?thesis unfolding run by (intro exI [of _ E]) simp
qed

theorem engine_consistent_witness: "distinct (map u_id (p_subs engine1)) \<and> length (p_subs engine1) = 1"
proof -
  have "length (p_subs engine1) = 1" by code_simp
  with engine_consistent [OF engine1_reached] show ?thesis by blast
qed

definition waiting :: pusher where
  "waiting = engine1\<lparr>p_subs := map (\<lambda>s. s\<lparr>u_due_ms := 600\<rparr>) (p_subs engine1)\<rparr>"

theorem pump_never_sleeps_until_due_witness:
  "snd (snd (bjm_pusher_pump ref_lib push_store waiting 100)) = 0"
proof -
  obtain st' p' t where run: "bjm_pusher_pump ref_lib push_store waiting 100 = (st', p', t)"
    by (rule prod_cases3)
  have "p_inflight (fst (snd (bjm_pusher_pump ref_lib push_store waiting 100))) = 0 \<and>
      p_work (fst (snd (bjm_pusher_pump ref_lib push_store waiting 100)))" by code_simp
  with pump_never_sleeps_until_due [OF run] run show ?thesis by simp
qed

text \<open>A delivery of the two messages on \<open>a\<close>.\<close>

definition a_psub :: psub where
  "a_psub = psub_zero\<lparr>u_consumer := ''c'', u_cfg := a_sub, u_conn := Some 1\<rparr>"

lemma send_started:
  assumes "send_batch p s cnt = (p', s', ok)" and "p_xfer p = open_transport" and "u_conn s \<noteq> None"
  shows "ok \<and> u_body s' = u_body s \<and> u_first s' = u_first s \<and> u_last s' = u_last s \<and> u_jobs s' = u_jobs s"
proof -
  define s1 where "s1 = s\<lparr>u_url := take BJM_CALLBACK_MAX (ps_callback (u_cfg s)), u_hdrs := []\<rparr>"
  obtain hs where f: "foldl hdr_add s1 (header_lines s1 cnt) = s1\<lparr>u_hdrs := hs\<rparr>"
    using hdrs_frame by blast
  show ?thesis
    using assms
    unfolding send_batch_def Let_def s1_def [symmetric] f
    by (auto simp: s1_def open_transport_def split: if_splits)
qed

lemma offer_messages_started:
  assumes "offer_messages L st p s name i = (st', p', s', r)" and "p_xfer p = open_transport" and "u_conn s \<noteq> None"
    and "find_batch L st (p_default_batch p) s name = (st1, Some (a, cnt, out, e))"
  shows "r = Some True \<and> st' = st1 \<and> u_body s' = out \<and> u_first s' = a + 1 \<and> u_last s' = a + of_nat cnt"
  using assms by (auto simp: offer_messages_def Let_def split: prod.splits dest!: send_started)

lemma hear_transport: "p_xfer (hear p ps) = p_xfer p"
  using hear_engine by (simp add: same_engine_def)

lemma offer_jobs_started:
  assumes "offer_jobs L st p s name i = (st', p', s', r)" and "p_xfer p = open_transport" and "u_conn s \<noteq> None"
    and "take_batch L st s name = (st1, s1, Some (cnt, out))"
  shows "r = Some True \<and> st' = st1 \<and> u_body s' = out \<and> u_jobs s' = u_jobs s1"
  using assms take_batch_sub [OF assms(4)]
  by (auto simp: offer_jobs_def Let_def hear_transport split: prod.splits dest!: send_started)

definition plain_pusher :: pusher where
  "plain_pusher =
     \<lparr>p_xfer = open_transport, p_subs = [], p_names = [''a''], p_work = True, p_inflight = 0,
      p_default_batch = 65536, p_next_id = 1, p_sent = [], p_closed = []\<rparr>"


definition sent_psub :: psub where
  "sent_psub = a_psub\<lparr>u_subject := ''a'', u_first := 1, u_last := 2, u_failures := 3\<rparr>"


theorem headers_complete_witness:
  "u_hdrs (fst (snd (send_batch engine1 sent_psub 2))) = header_lines sent_psub 2"
proof -
  obtain p' s' ok where run: "send_batch engine1 sent_psub 2 = (p', s', ok)" by (rule prod_cases3)
  have "bjm_subject_valid (u_subject sent_psub)" "bjm_consumer_valid (u_consumer sent_psub)"
      "ps_group (u_cfg sent_psub) = [] \<or> bjm_group_valid (ps_group (u_cfg sent_psub))"
      "bjm_token_valid (ps_token (u_cfg sent_psub))" by code_simp+
  with headers_complete [OF this _ run] run show ?thesis by simp
qed

text \<open>A worker that reports one of the two jobs it was handed.\<close>

definition worker_psub :: psub where
  "worker_psub =
     psub_zero\<lparr>u_consumer := ''w'', u_cfg := push_sub_zero\<lparr>ps_group := ''g''\<rparr>, u_subject := ''a'',
       u_jobs := [1, 2], u_done_list := Some [2]\<rparr>"

theorem worker_finishes_only_reported_witness:
  "\<exists>q q'. group_rec ref_lib queue_run2 ''a'' ''g'' = Some q \<and>
     group_rec ref_lib (fst (finish_jobs ref_lib queue_run2 worker_psub True 200 None 100)) ''a'' ''g'' = Some q' \<and>
     l_index ` set (q_fl q) - {2} \<subseteq> l_index ` set (q_fl q')"
proof -
  obtain st' s' again where run: "finish_jobs ref_lib queue_run2 worker_psub True 200 None 100 = (st', s', again)"
    by (rule prod_cases3)
  obtain q where q: "group_rec ref_lib queue_run2 ''a'' ''g'' = Some q"
    and ok: "queue_inv q" "qrec_wf q" "q_max_backoff_ms q \<noteq> 0"
      "unat (now_ms queue_run2) + unat (q_max_backoff_ms q) \<le> 2 ^ 53"
  proof -
    have rec: "group_rec ref_lib queue_run2 ''a'' ''g'' =
        Some \<lparr>q_next = 3, q_lease_ms = 30, q_max_attempts = 1, q_backoff_ms = 1000, q_max_backoff_ms = 300000,
          q_fl = [\<lparr>l_index = 1, l_expires = 130, l_attempts = 1\<rparr>, \<lparr>l_index = 2, l_expires = 130, l_attempts = 1\<rparr>],
          q_dead_total = 0, q_dead = []\<rparr>" (is "_ = Some ?q") by code_simp
    have now: "now_ms queue_run2 = 100" by code_simp
    show thesis
      by (rule that [OF rec])
        (simp_all add: now queue_inv_def qrec_wf_def lease_exact_def exact_int_def BJM_INFLIGHT_MAX_def BJM_DEAD_MAX_def)
  qed
  have s: "u_subject worker_psub = ''a''" "ps_group (u_cfg worker_psub) = ''g''" "u_done_list worker_psub = Some [2]"
    by code_simp+
  from worker_finishes_only_reported [OF ref_lib_laws q [folded s(1,2)] ok run] run show ?thesis
    by (auto simp: s q)
qed

end
