(* ===== verification/Requests.thy ===== *)
theory Requests
  imports Pusher
begin

text \<open>
  What every handler of \<open>src/src/server.c\<close> starts from: the request and the response of the seam,
  the query-string reader for transports without one, the checks that answer a request themselves,
  and the routing table. The envelope check is the one of \<open>src/src/bjtext.c\<close>.

  A response is what the handler tells the transport: the status, the headers in order, the body.
\<close>

section \<open>The seam\<close>

text \<open>
  What \<open>query_get\<close> answers: 1 and the value, 0, or a negative number. \<open>Unfit\<close> carries what a buffer
  of zeros holds afterwards, read as a string.
\<close>

datatype query_answer = Found string | Missing | Unfit string

record sukkal_req =
  rq_method :: string
  rq_path :: string
  rq_body :: bytes
  rq_content_type :: "string option"
  rq_query :: "string \<Rightarrow> nat \<Rightarrow> query_answer"

record sukkal_res =
  rs_status :: int
  rs_headers :: "(string \<times> string) list"
  rs_body :: bytes

definition SUKKAL_DEFAULT_BATCH :: u64 where "SUKKAL_DEFAULT_BATCH = 65536"
definition SUKKAL_MAX_BODY_BYTES :: u64 where "SUKKAL_MAX_BODY_BYTES = 4 * 1024 * 1024"

section \<open>The query string\<close>

definition unhex :: "char \<Rightarrow> int" where
  "unhex c =
     (if CHR ''0'' \<le> c \<and> c \<le> CHR ''9'' then of_char c - 48
      else if CHR ''a'' \<le> c \<and> c \<le> CHR ''f'' then of_char c - 97 + 10
      else if CHR ''A'' \<le> c \<and> c \<le> CHR ''F'' then of_char c - 65 + 10
      else - 1)"

fun url_decode :: "string \<Rightarrow> string" where
  "url_decode [] = []"
| "url_decode (c # v) =
     (if c = CHR ''+'' then CHR '' '' # url_decode v
      else if c = CHR ''%'' then
        (case v of
           a # b # r \<Rightarrow>
             if unhex a \<ge> 0 \<and> unhex b \<ge> 0 then char_of (unhex a * 16 + unhex b) # url_decode r
             else c # url_decode v
         | _ \<Rightarrow> c # url_decode v)
      else c # url_decode v)"

text \<open>The raw value of the first \<open>key=value\<close> with this key.\<close>

function query_seek :: "string \<Rightarrow> string \<Rightarrow> string option" where
  "query_seek key p =
     (if p = [] then None
      else
        let seg = takeWhile (\<lambda>c. c \<noteq> CHR ''&'') p;
            more = dropWhile (\<lambda>c. c \<noteq> CHR ''&'') p;
            name = takeWhile (\<lambda>c. c \<noteq> CHR ''='') seg
        in if name \<noteq> seg \<and> name = key then Some (drop (length name + 1) seg)
           else if more = [] then None
           else query_seek key (tl more))"
  by pat_completeness auto
termination
proof (relation "measure (\<lambda>(key, p). length p)", goal_cases)
  case (2 key p seg more name)
  have "length more \<le> length p" unfolding 2(3) by (rule length_dropWhile_le)
  with 2(1) have "length (tl more) < length p" by (cases p) auto
  then show ?case by simp
qed simp

declare query_seek.simps [simp del]

definition sukkal_query_from_string :: "string option \<Rightarrow> string \<Rightarrow> nat \<Rightarrow> query_answer" where
  "sukkal_query_from_string q key buf_len =
     (case q of
        None \<Rightarrow> Missing
      | Some p \<Rightarrow>
          (case query_seek key p of
             None \<Rightarrow> Missing
           | Some v \<Rightarrow>
               let d = url_decode v in
               if length d < buf_len then Found (c_str d) else Unfit (c_str (take (buf_len - 1) d))))"

section \<open>Answers\<close>

text \<open>An error text, with the newline it ends in.\<close>

definition text_line :: "string \<Rightarrow> bytes" where
  "text_line s = map of_char (s @ [CHR 0x0A])"

definition res_bj :: "(string \<times> string) list \<Rightarrow> int \<Rightarrow> bytes \<Rightarrow> sukkal_res" where
  "res_bj hdrs code out =
     \<lparr>rs_status = code, rs_headers = hdrs @ [(''Content-Type'', SUKKAL_MEDIA_TYPE)], rs_body = out\<rparr>"

definition res_err :: "int \<Rightarrow> string \<Rightarrow> sukkal_res" where
  "res_err code msg =
     \<lparr>rs_status = code, rs_headers = [(''Content-Type'', ''text/plain; charset=utf-8'')],
      rs_body = text_line msg\<rparr>"

fun status_for :: "bj_err \<Rightarrow> int" where
  "status_for BJ_ERR_RANGE = 416"
| "status_for BJ_ERR_STATE = 404"
| "status_for BJ_ERR_OOM = 503"
| "status_for _ = 500"

text \<open>The object a handler composes, or the 500 of an encoder that failed.\<close>

definition reply :: "('t, 'l) lib \<Rightarrow> ev list \<Rightarrow> sukkal_res" where
  "reply L evs =
     (case snd (bj_build L evs) of None \<Rightarrow> res_err 500 ''encode failed'' | Some out \<Rightarrow> res_bj [] 200 out)"

section \<open>Checked parts of a request\<close>

definition subject_of :: "sukkal_req \<Rightarrow> string \<Rightarrow> sukkal_res + string" where
  "subject_of req prefix =
     (let subject = drop (length prefix) (rq_path req) in
      if bjm_subject_valid subject then Inr subject
      else Inl (res_err 400
        ''invalid subject: expected 1-128 chars of [A-Za-z0-9_.-], no leading/trailing dot''))"

definition pattern_of :: "sukkal_req \<Rightarrow> string \<Rightarrow> sukkal_res + string" where
  "pattern_of req prefix =
     (let p = drop (length prefix) (rq_path req) in
      if (if bjm_pattern_is p then bjm_pattern_valid p else bjm_subject_valid p) then Inr p
      else Inl (res_err 400
        (''invalid subject or pattern: '.'-separated tokens of [A-Za-z0-9_-], '*' for one '' @
         ''token, '>' for the rest (last only)'')))"

text \<open>What \<open>strtoull\<close> leaves unread, or \<open>None\<close> when it read no number.\<close>

definition strtoull_end :: "string \<Rightarrow> string option" where
  "strtoull_end s =
     (let r = dropWhile is_space s;
          r = (if take 1 r = ''-'' \<or> take 1 r = ''+'' then drop 1 r else r)
      in if takeWhile is_digit r = [] then None else Some (dropWhile is_digit r))"

definition query_u64 :: "sukkal_req \<Rightarrow> string \<Rightarrow> u64 \<Rightarrow> u64" where
  "query_u64 req key dflt =
     (case rq_query req key 32 of
        Found buf \<Rightarrow> if strtoull_end buf = Some [] then strtoull buf else dflt
      | _ \<Rightarrow> dflt)"

definition query_consumer :: "sukkal_req \<Rightarrow> sukkal_res + string option" where
  "query_consumer req =
     (case rq_query req ''consumer'' (BJM_CONSUMER_MAX + 1) of
        Missing \<Rightarrow> Inr None
      | Found c \<Rightarrow>
          if bjm_consumer_valid c then Inr (Some c)
          else Inl (res_err 400
            ''invalid consumer: expected 1-128 chars of [A-Za-z0-9_.-], no leading/trailing dot'')
      | Unfit _ \<Rightarrow> Inl (res_err 400
            ''invalid consumer: expected 1-128 chars of [A-Za-z0-9_.-], no leading/trailing dot''))"

definition query_group :: "sukkal_req \<Rightarrow> sukkal_res + string option" where
  "query_group req =
     (case rq_query req ''group'' (BJM_GROUP_MAX + 1) of
        Missing \<Rightarrow> Inr None
      | Found g \<Rightarrow>
          if bjm_group_valid g then Inr (Some g)
          else Inl (res_err 400
            ''invalid group: expected 1-128 chars of [A-Za-z0-9_.-], no leading/trailing dot'')
      | Unfit _ \<Rightarrow> Inl (res_err 400
            ''invalid group: expected 1-128 chars of [A-Za-z0-9_.-], no leading/trailing dot''))"

definition queue_target :: "sukkal_req \<Rightarrow> string \<Rightarrow> sukkal_res + string \<times> string" where
  "queue_target req prefix =
     (case subject_of req prefix of
        Inl r \<Rightarrow> Inl r
      | Inr subject \<Rightarrow>
          (case query_group req of
             Inl r \<Rightarrow> Inl r
           | Inr None \<Rightarrow> Inl (res_err 400 ''?group=<name> is required'')
           | Inr (Some g) \<Rightarrow> Inr (subject, g)))"

section \<open>The shape of an envelope\<close>

text \<open>The visitor's state: how many values it has seen, and how far the shape matches.\<close>

fun shape_step :: "ev \<Rightarrow> nat \<times> nat \<Rightarrow> nat \<times> nat" where
  "shape_step (EArr n) (seen, ok) = (seen + 1, if seen = 0 \<and> n = 2 then 1 else ok)"
| "shape_step (EObj n) (seen, ok) = (seen + 1, if seen = 1 \<and> ok \<noteq> 0 then 2 else ok)"
| "shape_step (EKey k) x = x"
| "shape_step EArrEnd x = x"
| "shape_step EObjEnd x = x"
| "shape_step _ (seen, ok) = (seen + 1, if seen < 2 then 0 else ok)"

definition bjm_envelope_shape_ok :: "('t, 'l) lib \<Rightarrow> bytes \<Rightarrow> bool" where
  "bjm_envelope_shape_ok L data =
     (case bj_decode L data of Inl _ \<Rightarrow> False | Inr evs \<Rightarrow> snd (fold shape_step evs (0, 0)) = 2)"

section \<open>Routing\<close>

datatype route =
    h_publish_route | h_push_put_route | h_push_delete_route | h_push_list_route | h_subscribe_route
  | h_ack_route | h_trim_route | h_take_route | h_done_route | h_fail_route | h_dead_route
  | h_requeue_route | h_queues_route | h_queue_config_route | h_queue_delete_route
  | h_consumers_route | h_unsubscribe_route | h_info_route | h_policy_get_route | h_policy_put_route
  | h_policy_delete_route | h_policies_route | h_subjects_route | h_health_route

definition ROUTES :: "(string \<times> string \<times> route) list" where
  "ROUTES =
     [(''POST'', ''/pub/*'', h_publish_route), (''PUT'', ''/push/*'', h_push_put_route),
      (''DELETE'', ''/push'', h_push_delete_route), (''GET'', ''/push'', h_push_list_route),
      (''GET'', ''/sub/*'', h_subscribe_route), (''POST'', ''/ack/*'', h_ack_route),
      (''POST'', ''/trim/*'', h_trim_route), (''POST'', ''/take/*'', h_take_route),
      (''POST'', ''/done/*'', h_done_route), (''POST'', ''/fail/*'', h_fail_route),
      (''GET'', ''/dead/*'', h_dead_route), (''POST'', ''/requeue/*'', h_requeue_route),
      (''GET'', ''/queue/*'', h_queues_route), (''PUT'', ''/queue/*'', h_queue_config_route),
      (''DELETE'', ''/queue/*'', h_queue_delete_route), (''GET'', ''/consumers/*'', h_consumers_route),
      (''DELETE'', ''/consumers/*'', h_unsubscribe_route), (''GET'', ''/info/*'', h_info_route),
      (''GET'', ''/policy/*'', h_policy_get_route), (''PUT'', ''/policy/*'', h_policy_put_route),
      (''DELETE'', ''/policy/*'', h_policy_delete_route), (''GET'', ''/policies'', h_policies_route),
      (''GET'', ''/subjects'', h_subjects_route), (''GET'', ''/health'', h_health_route)]"

definition path_matches :: "string \<Rightarrow> string \<Rightarrow> bool" where
  "path_matches pat path =
     (let n = length pat in
      if pat ! (n - 1) = CHR ''*'' then take (n - 1) path = take (n - 1) pat else path = pat)"

text \<open>The handler, and whether some route has this path.\<close>

fun route_scan :: "(string \<times> string \<times> route) list \<Rightarrow> string \<Rightarrow> string \<Rightarrow> bool \<Rightarrow> route option \<times> bool" where
  "route_scan [] verb path matched = (None, matched)"
| "route_scan ((m, pat, h) # rs) verb path matched =
     (if \<not> path_matches pat path then route_scan rs verb path matched
      else if verb = m then (Some h, True)
      else route_scan rs verb path True)"

definition route_lookup :: "string \<Rightarrow> string \<Rightarrow> route option \<times> bool" where
  "route_lookup verb path = route_scan ROUTES verb path False"

definition sukkal_route :: "string \<Rightarrow> string \<Rightarrow> route option" where
  "sukkal_route verb path = fst (route_lookup verb path)"

end
