(* ===== verification/Dedup.thy ===== *)
theory Dedup
  imports Reference_Library
begin

text \<open>
  Producer idempotency (\<open>bjm_dedup_*\<close>, \<open>src/src/store.c\<close>): two generations of an index
  from \<open>subject/id\<close> to the message's index. Writes go to the current generation, lookups read
  both, and the older one is cleared when the window has passed.
\<close>

section \<open>The two generations\<close>

definition BJM_DEDUP_WINDOW_DEFAULT_MS :: u64 where "BJM_DEDUP_WINDOW_DEFAULT_MS = 120000"

definition dd_slot :: "('t, 'l) store \<Rightarrow> nat \<Rightarrow> 't slot" where
  "dd_slot st g = (if g = 0 then fst (st_dd st) else snd (st_dd st))"

definition dd_put :: "('t, 'l) store \<Rightarrow> nat \<Rightarrow> 't slot \<Rightarrow> ('t, 'l) store" where
  "dd_put st g sl = st\<lparr>st_dd := (if g = 0 then (sl, snd (st_dd st)) else (fst (st_dd st), sl))\<rparr>"

definition dd_handle :: "('t, 'l) store \<Rightarrow> nat \<Rightarrow> 't res" where
  "dd_handle st g = (case dd_slot st g of Opened t \<Rightarrow> Inr t | Closed _ \<Rightarrow> Inl BJ_ERR_STATE)"

definition bjm_dedup_set_window :: "('t, 'l) store \<Rightarrow> u64 \<Rightarrow> ('t, 'l) store" where
  "bjm_dedup_set_window st ms = st\<lparr>st_dd_window_ms := ms\<rparr>"

definition bjm_dedup_window :: "('t, 'l) store \<Rightarrow> u64" where
  "bjm_dedup_window st = (if st_dd_window_ms st \<noteq> 0 then st_dd_window_ms st else BJM_DEDUP_WINDOW_DEFAULT_MS)"

definition dd_state_key :: string where
  "dd_state_key = ''d/state''"

text \<open>Saving is best effort: no code is reported.\<close>

definition dd_state_save :: "('t, 'l) lib \<Rightarrow> ('t, 'l) store \<Rightarrow> ('t, 'l) store" where
  "dd_state_save L st =
     (case policy_open L st of
        (st, Inl _) \<Rightarrow> st
      | (st, Inr t) \<Rightarrow>
          (case bpt_put L t dd_state_key
                  (dd_encode \<lparr>ds_gen = word_of_nat (st_dd_gen st), ds_rotated_ms = st_dd_rotated_ms st\<rparr>) of
             (t, Inl _) \<Rightarrow> st\<lparr>st_policy := Opened t\<rparr>
           | (t, Inr _) \<Rightarrow> st\<lparr>st_policy := Opened (fst (bpt_sync L t))\<rparr>))"

text \<open>Recover which generation was current.\<close>

definition dd_recover :: "('t, 'l) lib \<Rightarrow> ('t, 'l) store \<Rightarrow> ('t, 'l) store" where
  "dd_recover L st =
     (case policy_open L st of
        (st, Inl _) \<Rightarrow> st
      | (st, Inr t) \<Rightarrow>
          (case bpt_search L t dd_state_key of
             Inl _ \<Rightarrow> st
           | Inr None \<Rightarrow> st
           | Inr (Some val) \<Rightarrow>
               (case (case bj_decode L val of Inl e \<Rightarrow> Inl e | Inr evs \<Rightarrow> dd_decode evs) of
                  Inl _ \<Rightarrow> st
                | Inr d \<Rightarrow> st\<lparr>st_dd_gen := (if ds_gen d \<noteq> 0 then 1 else 0),
                              st_dd_rotated_ms := ds_rotated_ms d\<rparr>)))"

definition dd_open_at :: "('t, 'l) lib \<Rightarrow> ('t, 'l) store \<Rightarrow> nat \<Rightarrow> ('t, 'l) store \<times> unit res" where
  "dd_open_at L st g =
     (case slot_open L (dd_slot st g) of
        (sl, Inl e) \<Rightarrow> (dd_put st g sl, Inl e)
      | (sl, Inr _) \<Rightarrow> (dd_put st g sl, Inr ()))"

definition dedup_open :: "('t, 'l) lib \<Rightarrow> ('t, 'l) store \<Rightarrow> ('t, 'l) store \<times> unit res" where
  "dedup_open L st =
     (if st_dd_open st then (st, Inr ())
      else
        (case dd_open_at L st 0 of
           (st, Inl e) \<Rightarrow> (st, Inl e)
         | (st, Inr _) \<Rightarrow>
             (case dd_open_at L st 1 of
                (st, Inl e) \<Rightarrow> (st, Inl e)
              | (st, Inr _) \<Rightarrow>
                  let st = dd_recover L st in
                  if st_dd_rotated_ms st = 0
                  then (dd_state_save L (st\<lparr>st_dd_rotated_ms := now_ms st, st_dd_open := True\<rparr>), Inr ())
                  else (st\<lparr>st_dd_open := True\<rparr>, Inr ()))))"

section \<open>Rotation\<close>

definition dd_reset :: "('t, 'l) lib \<Rightarrow> ('t, 'l) store \<Rightarrow> nat \<Rightarrow> ('t, 'l) store \<times> unit res" where
  "dd_reset L st g =
     (case dd_handle st g of
        Inl e \<Rightarrow> (st, Inl e)
      | Inr t \<Rightarrow> (case bpt_reset L t of (t, r) \<Rightarrow> (dd_put st g (Opened t), r)))"

definition dedup_rotate :: "('t, 'l) lib \<Rightarrow> ('t, 'l) store \<Rightarrow> ('t, 'l) store" where
  "dedup_rotate L st =
     (let now = now_ms st;
          window = bjm_dedup_window st;
          elapsed = now - st_dd_rotated_ms st
      in if elapsed < window then st
         else if elapsed \<ge> 2 * window then
           (case dd_reset L st 0 of
              (st, Inl _) \<Rightarrow> st
            | (st, Inr _) \<Rightarrow>
                (case dd_reset L st 1 of
                   (st, Inl _) \<Rightarrow> st
                 | (st, Inr _) \<Rightarrow> dd_state_save L (st\<lparr>st_dd_gen := 0, st_dd_rotated_ms := now\<rparr>)))
         else
           let old = 1 - st_dd_gen st in
           (case dd_reset L st old of
              (st, Inl _) \<Rightarrow> st
            | (st, Inr _) \<Rightarrow> dd_state_save L (st\<lparr>st_dd_gen := old, st_dd_rotated_ms := now\<rparr>)))"

section \<open>Looking up and recording\<close>

definition bjm_dedup_lookup ::
    "('t, 'l) lib \<Rightarrow> ('t, 'l) store \<Rightarrow> string \<Rightarrow> string \<Rightarrow> ('t, 'l) store \<times> u64 option res" where
  "bjm_dedup_lookup L st subject id' =
     (case dedup_open L st of
        (st, Inl e) \<Rightarrow> (st, Inl e)
      | (st, Inr _) \<Rightarrow>
          let st = dedup_rotate L st in
          (case dedup_key subject id' of
             Inl e \<Rightarrow> (st, Inl e)
           | Inr key \<Rightarrow>
               let cur = st_dd_gen st in
               (case dd_handle st cur of
                  Inl e \<Rightarrow> (st, Inl e)
                | Inr t \<Rightarrow>
                    (case bpt_search L t key of
                       Inl e \<Rightarrow> (st, Inl e)
                     | Inr (Some val) \<Rightarrow>
                         (case decode_index L val of Inl e \<Rightarrow> (st, Inl e) | Inr index \<Rightarrow> (st, Inr (Some index)))
                     | Inr None \<Rightarrow>
                         (case dd_handle st (1 - cur) of
                            Inl e \<Rightarrow> (st, Inl e)
                          | Inr t' \<Rightarrow>
                              (case bpt_search L t' key of
                                 Inl e \<Rightarrow> (st, Inl e)
                               | Inr None \<Rightarrow> (st, Inr None)
                               | Inr (Some val) \<Rightarrow>
                                   (case decode_index L val of
                                      Inl e \<Rightarrow> (st, Inl e)
                                    | Inr index \<Rightarrow>
                                        (case bpt_put L t key (encode_index index) of
                                           (t, _) \<Rightarrow> (dd_put st cur (Opened t), Inr (Some index)))))))))) "

definition bjm_dedup_record ::
    "('t, 'l) lib \<Rightarrow> ('t, 'l) store \<Rightarrow> string \<Rightarrow> string \<Rightarrow> u64 \<Rightarrow> ('t, 'l) store \<times> unit res" where
  "bjm_dedup_record L st subject id' index =
     (case dedup_open L st of
        (st, Inl e) \<Rightarrow> (st, Inl e)
      | (st, Inr _) \<Rightarrow>
          (case dedup_key subject id' of
             Inl e \<Rightarrow> (st, Inl e)
           | Inr key \<Rightarrow>
               (case dd_handle st (st_dd_gen st) of
                  Inl e \<Rightarrow> (st, Inl e)
                | Inr t \<Rightarrow>
                    (case bpt_put L t key (encode_index index) of
                       (t, r) \<Rightarrow> (dd_put st (st_dd_gen st) (Opened t), r)))))"

section \<open>What the two generations hold\<close>

definition gen_view :: "('t, 'l) lib \<Rightarrow> ('t, 'l) store \<Rightarrow> nat \<Rightarrow> (string \<rightharpoonup> bytes)" where
  "gen_view L st g = slot_view L (dd_slot st g)"

text \<open>Opened, with one of the two generations current.\<close>

definition dd_ready :: "('t, 'l) store \<Rightarrow> bool" where
  "dd_ready st \<longleftrightarrow> st_dd_open st \<and> st_dd_gen st \<le> 1 \<and> (\<exists>a b. st_dd st = (Opened a, Opened b))"

text \<open>Everything the dedup index is made of.\<close>

definition dd_same :: "('t, 'l) store \<Rightarrow> ('t, 'l) store \<Rightarrow> bool" where
  "dd_same st st' \<longleftrightarrow>
     st_dd st' = st_dd st \<and> st_dd_gen st' = st_dd_gen st \<and> st_dd_open st' = st_dd_open st \<and>
     st_dd_rotated_ms st' = st_dd_rotated_ms st \<and> st_dd_window_ms st' = st_dd_window_ms st"

lemma dd_same_trans: "dd_same a b \<Longrightarrow> dd_same b c \<Longrightarrow> dd_same a c"
  by (simp add: dd_same_def)

lemma state_save_frame:
  assumes "bpt_laws L"
  shows "dd_state_save L st = st\<lparr>st_policy := st_policy (dd_state_save L st)\<rparr>"
proof -
  obtain st1 r where op: "policy_open L st = (st1, r)" by (cases "policy_open L st")
  then obtain x where "st1 = st\<lparr>st_policy := x\<rparr>" using tree_openD(3) [OF assms op] by blast
  with op show ?thesis by (auto simp: dd_state_save_def split: sum.split prod.split)
qed

lemma state_save_same:
  assumes "bpt_laws L"
  shows "dd_same (dd_state_save L st) st" and "dd_same st (dd_state_save L st)"
    and "st_clock (dd_state_save L st) = st_clock st"
  by (subst state_save_frame [OF assms]; simp add: dd_same_def)+

lemma dd_slot_cases:
  "dd_ready st \<Longrightarrow> g \<le> 1 \<Longrightarrow> \<exists>t. dd_slot st g = Opened t \<and> dd_handle st g = Inr t \<and> gen_view L st g = view_tree L t"
  by (auto simp: dd_ready_def dd_slot_def dd_handle_def gen_view_def)

lemma dd_put_simps [simp]:
  "st_dd_open (dd_put st g sl) = st_dd_open st" "st_dd_gen (dd_put st g sl) = st_dd_gen st"
  "st_dd_rotated_ms (dd_put st g sl) = st_dd_rotated_ms st"
  "st_dd_window_ms (dd_put st g sl) = st_dd_window_ms st" "st_clock (dd_put st g sl) = st_clock st"
  "bjm_dedup_window (dd_put st g sl) = bjm_dedup_window st" "now_ms (dd_put st g sl) = now_ms st"
  by (simp_all add: dd_put_def bjm_dedup_window_def now_ms_def)

lemma gen_view_put:
  "g \<le> 1 \<Longrightarrow> h \<le> 1 \<Longrightarrow> gen_view L (dd_put st g sl) h = (if h = g then slot_view L sl else gen_view L st h)"
  by (auto simp: gen_view_def dd_put_def dd_slot_def)

lemma dd_ready_put: "dd_ready st \<Longrightarrow> dd_ready (dd_put st g (Opened t))"
  by (auto simp: dd_ready_def dd_put_def)

lemma dd_resetD:
  assumes laws: "bpt_laws L" and ready: "dd_ready st" and g: "g \<le> 1" and reset: "dd_reset L st g = (st', r)"
  shows "dd_ready st'" and "st' = dd_put st g (dd_slot st' g)"
    and "h \<le> 1 \<Longrightarrow> gen_view L st' h = (if h = g \<and> is_ok r then Map.empty else gen_view L st h)"
proof -
  obtain t where t: "dd_handle st g = Inr t" "gen_view L st g = view_tree L t"
    using dd_slot_cases [OF ready g] by blast
  obtain t1 r1 where res: "bpt_reset L t = (t1, r1)" by (cases "bpt_reset L t")
  then have st': "st' = dd_put st g (Opened t1)" "r = r1"
    using reset t by (auto simp: dd_reset_def)
  from st' show "dd_ready st'" using dd_ready_put [OF ready] by simp
  from st' g show "st' = dd_put st g (dd_slot st' g)" by (simp add: dd_put_def dd_slot_def)
  from st' g show "h \<le> 1 \<Longrightarrow> gen_view L st' h = (if h = g \<and> is_ok r then Map.empty else gen_view L st h)"
    using bpt_resetD [OF laws res] t(2) by (auto simp: gen_view_put)
qed

text \<open>
  The three outcomes of a rotation over the two generations: nothing moves, the current generation
  becomes the old one, or both are dropped. A reset that fails leaves a generation as it is and
  the rotation for the next call.
\<close>

lemma dedup_rotateD:
  assumes laws: "bpt_laws L" and ready: "dd_ready st" and rot: "st' = dedup_rotate L st"
  defines "elapsed \<equiv> now_ms st - st_dd_rotated_ms st"
    and "kept \<equiv> st_dd_gen st' = st_dd_gen st \<and> st_dd_rotated_ms st' = st_dd_rotated_ms st"
    and "w \<equiv> bjm_dedup_window st"
  shows "dd_ready st'" and "bjm_dedup_window st' = w" and "st_clock st' = st_clock st"
    and "elapsed < w \<Longrightarrow> st' = st"
    and "w \<le> elapsed \<Longrightarrow> elapsed < 2 * w \<Longrightarrow>
           kept \<and> (\<forall>h \<le> 1. gen_view L st' h = gen_view L st h) \<or>
           st_dd_rotated_ms st' = now_ms st \<and> st_dd_gen st' = 1 - st_dd_gen st \<and>
           gen_view L st' (st_dd_gen st') = Map.empty \<and>
           gen_view L st' (1 - st_dd_gen st') = gen_view L st (st_dd_gen st)"
    and "w \<le> elapsed \<Longrightarrow> 2 * w \<le> elapsed \<Longrightarrow>
           kept \<or> st_dd_rotated_ms st' = now_ms st \<and> st_dd_gen st' = 0 \<and>
           (\<forall>h \<le> 1. gen_view L st' h = Map.empty)"
    and "\<forall>t. is_ok (snd (bpt_reset L t)) \<Longrightarrow> w \<le> elapsed \<Longrightarrow> st_dd_rotated_ms st' = now_ms st"
proof -
  have gen: "st_dd_gen st \<le> 1" using ready by (simp add: dd_ready_def)
  note save = state_save_same [OF laws]
  have view_save: "gen_view L (dd_state_save L x) h = gen_view L x h" for x h
    using save(2) [of x] by (simp add: gen_view_def dd_same_def dd_slot_def)
  have ready_save: "dd_ready (dd_state_save L x) = dd_ready x" for x
    using save(2) [of x] by (simp add: dd_ready_def dd_same_def)
  have fields: "st_dd_gen (dd_state_save L x) = st_dd_gen x" "st_dd_rotated_ms (dd_state_save L x) = st_dd_rotated_ms x"
      "bjm_dedup_window (dd_state_save L x) = bjm_dedup_window x" "st_clock (dd_state_save L x) = st_clock x" for x
    using save [of x] by (simp_all add: dd_same_def bjm_dedup_window_def)
  have upd: "dd_ready (x\<lparr>st_dd_gen := g, st_dd_rotated_ms := n\<rparr>) \<longleftrightarrow>
        (st_dd_open x \<and> g \<le> 1 \<and> (\<exists>a b. st_dd x = (Opened a, Opened b)))"
      "gen_view L (x\<lparr>st_dd_gen := g, st_dd_rotated_ms := n\<rparr>) h = gen_view L x h" for x g n h
    by (simp_all add: dd_ready_def gen_view_def dd_slot_def)
  have win: "bjm_dedup_window (x\<lparr>st_dd_gen := g, st_dd_rotated_ms := n\<rparr>) = bjm_dedup_window x" for x g n
    by (simp add: bjm_dedup_window_def)
  obtain s0 r0 where r0: "dd_reset L st 0 = (s0, r0)" by (cases "dd_reset L st 0")
  obtain s1 r1 where r1: "dd_reset L s0 1 = (s1, r1)" by (cases "dd_reset L s0 1")
  obtain s2 r2 where r2: "dd_reset L st (1 - st_dd_gen st) = (s2, r2)"
    by (cases "dd_reset L st (1 - st_dd_gen st)")
  note d0 = dd_resetD [OF laws ready _ r0] and d2 = dd_resetD [OF laws ready _ r2]
  note d1 = dd_resetD [OF laws d0(1) _ r1]
  have e0: "st_dd_gen s0 = st_dd_gen st" "st_dd_rotated_ms s0 = st_dd_rotated_ms st"
      "st_clock s0 = st_clock st" "bjm_dedup_window s0 = w"
    using d0(2) by (metis dd_put_simps zero_le w_def)+
  have e1: "st_dd_gen s1 = st_dd_gen st" "st_dd_rotated_ms s1 = st_dd_rotated_ms st"
      "st_clock s1 = st_clock st" "bjm_dedup_window s1 = w"
    using d1(2) e0 by (metis dd_put_simps order_refl zero_le)+
  have e2: "st_dd_gen s2 = st_dd_gen st" "st_dd_rotated_ms s2 = st_dd_rotated_ms st"
      "st_clock s2 = st_clock st" "bjm_dedup_window s2 = w"
    using d2(2) gen by (metis dd_put_simps diff_le_self w_def)+
  have opened: "dd_ready x \<Longrightarrow> st_dd_open x \<and> (\<exists>a b. st_dd x = (Opened a, Opened b))" for x :: "('a, 'b) store"
    by (simp add: dd_ready_def)
  have ready01: "dd_ready s0" "dd_ready s1" "dd_ready s2" using d0(1) d1(1) d2(1) by simp_all
  note rdefs = rot dedup_rotate_def Let_def elapsed_def [symmetric] w_def [symmetric] r0 r1 r2
    r1 [unfolded One_nat_def] r2 [unfolded One_nat_def]
  show "dd_ready st'"
    using ready ready01 opened [OF ready01(2)] opened [OF ready01(3)]
    by (auto simp: rdefs ready_save upd split: sum.split)
  show "bjm_dedup_window st' = w" "st_clock st' = st_clock st"
    using e0 e1 e2 by (auto simp: rdefs fields win split: sum.split)
  show "elapsed < w \<Longrightarrow> st' = st" by (simp add: rdefs)
  have flip: "1 - (1 - st_dd_gen st) = st_dd_gen st" "1 - st_dd_gen st \<noteq> st_dd_gen st" using gen by arith+
  show "w \<le> elapsed \<Longrightarrow> elapsed < 2 * w \<Longrightarrow>
           kept \<and> (\<forall>h \<le> 1. gen_view L st' h = gen_view L st h) \<or>
           st_dd_rotated_ms st' = now_ms st \<and> st_dd_gen st' = 1 - st_dd_gen st \<and>
           gen_view L st' (st_dd_gen st') = Map.empty \<and>
           gen_view L st' (1 - st_dd_gen st') = gen_view L st (st_dd_gen st)"
    unfolding kept_def using d2(3) e2 flip gen
    by (cases r2) (simp_all add: rdefs fields view_save upd not_le [symmetric])
  show "w \<le> elapsed \<Longrightarrow> 2 * w \<le> elapsed \<Longrightarrow>
           kept \<or> st_dd_rotated_ms st' = now_ms st \<and> st_dd_gen st' = 0 \<and>
           (\<forall>h \<le> 1. gen_view L st' h = Map.empty)"
    unfolding kept_def using d0(3) d1(3) e0 e1
    by (cases r0; cases r1) (simp_all add: rdefs fields view_save upd not_le [symmetric])
  have ok: "\<forall>t. is_ok (snd (bpt_reset L t)) \<Longrightarrow> dd_ready x \<Longrightarrow> g \<le> 1 \<Longrightarrow> dd_reset L x g = (y, r) \<Longrightarrow> is_ok r"
    for x y g r
    by (drule (1) dd_slot_cases) (auto simp: dd_reset_def split: prod.splits, metis snd_conv)
  show "\<forall>t. is_ok (snd (bpt_reset L t)) \<Longrightarrow> w \<le> elapsed \<Longrightarrow> st_dd_rotated_ms st' = now_ms st"
    using ok [OF _ ready _ r0] ok [OF _ ready01(1) _ r1] ok [OF _ ready _ r2] gen
    by (cases r0; cases r1; cases r2) (auto simp: rdefs fields)
qed

section \<open>Opening keeps the index well formed\<close>

definition dd_inv :: "('t, 'l) store \<Rightarrow> bool" where
  "dd_inv st \<longleftrightarrow> st_dd_gen st \<le> 1 \<and> (st_dd_open st \<longrightarrow> dd_ready st)"

lemma dd_inv_start: "dd_inv (bjm_store_open_ns logs trees)"
  by (simp add: dd_inv_def bjm_store_open_ns_def)

lemma dd_open_atD:
  assumes "dd_open_at L st g = (st', r)"
  shows "\<exists>sl. st' = dd_put st g sl \<and> (is_ok r \<longrightarrow> (\<exists>t. sl = Opened t))"
proof -
  obtain sl q where op: "slot_open L (dd_slot st g) = (sl, q)" by (cases "slot_open L (dd_slot st g)")
  moreover have "slot_open L s0 = (sl, q) \<Longrightarrow> is_ok q \<Longrightarrow> \<exists>t. sl = Opened t" for s0
    by (cases s0) (auto simp: slot_open_def split: prod.splits sum.splits)
  ultimately show ?thesis using assms by (cases q) (auto simp: dd_open_at_def)
qed

lemma recover_frame:
  assumes "bpt_laws L"
  shows "dd_recover L st = st\<lparr>st_policy := st_policy (dd_recover L st), st_dd_gen := st_dd_gen (dd_recover L st),
           st_dd_rotated_ms := st_dd_rotated_ms (dd_recover L st)\<rparr>"
    and "st_dd_gen st \<le> 1 \<Longrightarrow> st_dd_gen (dd_recover L st) \<le> 1"
proof -
  obtain st1 r where op: "policy_open L st = (st1, r)" by (cases "policy_open L st")
  then obtain x where "st1 = st\<lparr>st_policy := x\<rparr>" using tree_openD(3) [OF assms op] by blast
  with op show "dd_recover L st = st\<lparr>st_policy := st_policy (dd_recover L st),
      st_dd_gen := st_dd_gen (dd_recover L st), st_dd_rotated_ms := st_dd_rotated_ms (dd_recover L st)\<rparr>"
    and "st_dd_gen st \<le> 1 \<Longrightarrow> st_dd_gen (dd_recover L st) \<le> 1"
    by (auto simp: dd_recover_def split: sum.split prod.split option.split)
qed

lemma dedup_openD:
  assumes laws: "bpt_laws L" and inv: "dd_inv st" and op: "dedup_open L st = (st', r)"
  shows "dd_inv st'" and "is_ok r \<Longrightarrow> dd_ready st'" and "st_clock st' = st_clock st"
    and "dd_ready st \<Longrightarrow> st' = st \<and> r = Inr ()"
proof -
  show "dd_ready st \<Longrightarrow> st' = st \<and> r = Inr ()"
    using op by (auto simp: dd_ready_def dedup_open_def)
  have "dd_inv st' \<and> (is_ok r \<longrightarrow> dd_ready st') \<and> st_clock st' = st_clock st"
  proof (cases "st_dd_open st")
    case True
    with inv op show ?thesis by (auto simp: dd_inv_def dedup_open_def)
  next
    case False
    obtain a ra where a: "dd_open_at L st 0 = (a, ra)" by (cases "dd_open_at L st 0")
    obtain b rb where b: "dd_open_at L a 1 = (b, rb)" by (cases "dd_open_at L a 1")
    obtain x where x: "a = dd_put st 0 x" "is_ok ra \<Longrightarrow> \<exists>t. x = Opened t"
      using dd_open_atD [OF a] by blast
    obtain y where y: "b = dd_put a 1 y" "is_ok rb \<Longrightarrow> \<exists>t. y = Opened t"
      using dd_open_atD [OF b] by blast
    have bst: "b = st\<lparr>st_dd := (x, y)\<rparr>" by (simp add: x(1) y(1) dd_put_def)
    have invs: "dd_inv a" "dd_inv b"
      using inv False by (simp_all add: dd_inv_def x(1) y(1))
    have clocks: "st_clock a = st_clock st" "st_clock b = st_clock st" by (simp_all add: x(1) y(1))
    note rec = recover_frame [OF laws, of b] and save = state_save_same [OF laws]
    have rec_b: "st_dd (dd_recover L b) = (x, y)" "st_clock (dd_recover L b) = st_clock st"
      "st_dd_gen (dd_recover L b) \<le> 1"
      using rec(2) inv by (subst rec(1), simp add: bst)+ (simp add: bst dd_inv_def)
    have saved: "dd_ready (dd_state_save L z) = dd_ready z" for z
      using save(2) [of z] by (simp add: dd_ready_def dd_same_def)
    have ready_inv: "dd_ready z \<Longrightarrow> dd_inv z" for z :: "('a, 'b) store"
      by (simp add: dd_inv_def dd_ready_def)
    have opened: "dd_ready ((dd_recover L b)\<lparr>st_dd_open := True\<rparr>)"
      "dd_ready ((dd_recover L b)\<lparr>st_dd_rotated_ms := n, st_dd_open := True\<rparr>)"
      if "ra = Inr u" "rb = Inr v" for n u v
      using x(2) y(2) that rec_b by (auto simp: dd_ready_def)
    show ?thesis
    proof (cases "is_ok ra \<and> is_ok rb")
      case True
      then obtain u v where "ra = Inr u" "rb = Inr v" by (auto simp: is_ok_iff)
      note rs = this opened [OF this]
      have "st' = (dd_recover L b)\<lparr>st_dd_open := True\<rparr> \<or>
          st' = dd_state_save L ((dd_recover L b)\<lparr>st_dd_rotated_ms := now_ms (dd_recover L b), st_dd_open := True\<rparr>)"
        using op False a b rs(1,2) by (auto simp: dedup_open_def Let_def split: if_splits)
      then show ?thesis using rs saved rec_b save(3) by (auto intro!: ready_inv)
    next
      case no: False
      then show ?thesis using op False a b invs clocks
        by (cases ra; cases rb) (auto simp: dedup_open_def)
    qed
  qed
  then show "dd_inv st'" "is_ok r \<Longrightarrow> dd_ready st'" "st_clock st' = st_clock st" by auto
qed

section \<open>What a lookup answers\<close>

text \<open>An entry of a generation, decoded.\<close>

definition dd_entry :: "('t, 'l) lib \<Rightarrow> ('t, 'l) store \<Rightarrow> nat \<Rightarrow> string \<Rightarrow> u64 res option" where
  "dd_entry L st g key = map_option (decode_index L) (gen_view L st g key)"

definition answer_of :: "u64 res option \<Rightarrow> u64 res option \<Rightarrow> u64 option res" where
  "answer_of cur old =
     (case cur of Some (Inr i) \<Rightarrow> Inr (Some i) | Some (Inl e) \<Rightarrow> Inl e
      | None \<Rightarrow> (case old of Some (Inr i) \<Rightarrow> Inr (Some i) | Some (Inl e) \<Rightarrow> Inl e | None \<Rightarrow> Inr None))"

lemma decode_index_put:
  assumes "bj_laws L" "bpt_laws L" and "bpt_put L t k (encode_index i) = (t', r)" and "exact_int i"
  shows "map_option (decode_index L) (view_tree L t' k) =
           (if is_ok r then Some (Inr i) else map_option (decode_index L) (view_tree L t k))"
  using bpt_putD [OF assms(1,2) index_codec.enc_exact [OF assms(4)] assms(3)] index_codec.dec_enc [OF assms(4)]
  by (cases r) (auto simp: decode_index_def)

lemma dedup_lookupD:
  assumes laws: "bj_laws L" "bpt_laws L" and ready: "dd_ready st"
    and look: "bjm_dedup_lookup L st s i = (st', r)"
  defines "st1 \<equiv> dedup_rotate L st"
  shows "dd_ready st'" and "st_dd_gen st' = st_dd_gen st1" and "st_dd_rotated_ms st' = st_dd_rotated_ms st1"
    and "bjm_dedup_window st' = bjm_dedup_window st1" and "st_clock st' = st_clock st1"
    and "dd_entry L st' (1 - st_dd_gen st') key = dd_entry L st1 (1 - st_dd_gen st1) key"
    and "key \<noteq> s @ ''/'' @ i \<Longrightarrow> dd_entry L st' (st_dd_gen st') key = dd_entry L st1 (st_dd_gen st1) key"
    and "\<exists>e. r = Inl e \<or> r = answer_of (dd_entry L st1 (st_dd_gen st1) (s @ ''/'' @ i))
                                     (dd_entry L st1 (1 - st_dd_gen st1) (s @ ''/'' @ i))"
    and "dd_entry L st' (st_dd_gen st') key = dd_entry L st1 (st_dd_gen st1) key \<or>
         dd_entry L st1 (st_dd_gen st1) key = None \<and>
         (\<exists>j. dd_entry L st1 (1 - st_dd_gen st1) key = Some (Inr j) \<and>
              (exact_int j \<longrightarrow> dd_entry L st' (st_dd_gen st') key = Some (Inr j)))"
proof -
  let ?g = "st_dd_gen st1" and ?k = "s @ ''/'' @ i"
  have ready1: "dd_ready st1" unfolding st1_def by (rule dedup_rotateD(1) [OF laws(2) ready refl])
  then have g: "?g \<le> 1" "1 - ?g \<le> 1" "1 - ?g \<noteq> ?g" unfolding dd_ready_def by arith+
  obtain c where c: "dd_handle st1 ?g = Inr c" "gen_view L st1 ?g = view_tree L c"
    using dd_slot_cases [OF ready1 g(1)] by blast
  obtain o' where o: "dd_handle st1 (1 - ?g) = Inr o'" "gen_view L st1 (1 - ?g) = view_tree L o'"
    using dd_slot_cases [OF ready1 g(2)] by blast
  have op: "dedup_open L st = (st, Inr ())" using ready by (simp add: dd_ready_def dedup_open_def)
  note look' = look [unfolded bjm_dedup_lookup_def op Let_def, simplified, folded st1_def]
  note searches = bpt_searchD [OF laws(2)]
  have shape: "st' = st1 \<and> (\<exists>e. r = Inl e \<or> r = answer_of (dd_entry L st1 ?g ?k) (dd_entry L st1 (1 - ?g) ?k)) \<or>
      (\<exists>j t x. dd_entry L st1 ?g ?k = None \<and> dd_entry L st1 (1 - ?g) ?k = Some (Inr j) \<and>
        r = Inr (Some j) \<and> bpt_put L c ?k (encode_index j) = (t, x) \<and> st' = dd_put st1 ?g (Opened t))"
  proof (cases "dedup_key s i")
    case (Inl e)
    with look' show ?thesis by auto
  next
    case (Inr k)
    then have k: "k = ?k" by (rule dedup_keyD)
    note look1 = look' [unfolded Inr, simplified, unfolded c(1), simplified]
    show ?thesis
    proof (cases "bpt_search L c k")
      case (Inl e)
      with look1 show ?thesis by auto
    next
      case cur: (Inr found)
      then have view: "view_tree L c ?k = found" using searches k by blast
      show ?thesis
      proof (cases found)
        case (Some val)
        with look1 cur view c(2) show ?thesis
          by (cases "decode_index L val") (auto simp: dd_entry_def answer_of_def)
      next
        case None
        note look2 = look1 [unfolded cur None, simplified, unfolded o(1) [unfolded One_nat_def], simplified]
        show ?thesis
        proof (cases "bpt_search L o' k")
          case (Inl e)
          with look2 show ?thesis by auto
        next
          case old: (Inr found')
          then have view': "view_tree L o' ?k = found'" using searches k by blast
          show ?thesis
            using look2 old view view' None c(2) o(2) k
            by (cases found'; cases "decode_index L (the found')")
              (auto simp: dd_entry_def answer_of_def split: prod.splits)
        qed
      qed
    qed
  qed
  then have two: "st' = st1 \<or> (\<exists>j t x. dd_entry L st1 ?g ?k = None \<and>
        dd_entry L st1 (1 - ?g) ?k = Some (Inr j) \<and>
        bpt_put L c ?k (encode_index j) = (t, x) \<and> st' = dd_put st1 ?g (Opened t))" by blast
  have put_other: "gen_view L (dd_put st1 ?g sl) (1 - ?g) = gen_view L st1 (1 - ?g)"
    and put_same: "gen_view L (dd_put st1 ?g sl) ?g = slot_view L sl" for sl
    using gen_view_put g by metis+
  show fields: "st_dd_gen st' = ?g" "st_dd_rotated_ms st' = st_dd_rotated_ms st1"
    "bjm_dedup_window st' = bjm_dedup_window st1" "st_clock st' = st_clock st1"
    using two by auto
  show "dd_ready st'" using two ready1 dd_ready_put by auto
  show "dd_entry L st' (1 - st_dd_gen st') key = dd_entry L st1 (1 - ?g) key"
    using two fields(1) put_other by (auto simp: dd_entry_def)
  show other: "key \<noteq> ?k \<Longrightarrow> dd_entry L st' (st_dd_gen st') key = dd_entry L st1 ?g key"
    using two fields(1) c(2) put_same bpt_put_frame [OF laws(2)]
    by (auto simp: dd_entry_def)
  show "\<exists>e. r = Inl e \<or> r = answer_of (dd_entry L st1 ?g ?k) (dd_entry L st1 (1 - ?g) ?k)"
    using shape by (auto simp: answer_of_def)
  show "dd_entry L st' (st_dd_gen st') key = dd_entry L st1 ?g key \<or>
         dd_entry L st1 ?g key = None \<and>
         (\<exists>j. dd_entry L st1 (1 - ?g) key = Some (Inr j) \<and>
              (exact_int j \<longrightarrow> dd_entry L st' (st_dd_gen st') key = Some (Inr j)))"
  proof (cases "key = ?k")
    case False
    then show ?thesis using other by blast
  next
    case True
    from two show ?thesis
    proof (elim disjE exE conjE)
      assume "st' = st1"
      then show ?thesis by simp
    next
      fix j t x
      assume cur: "dd_entry L st1 ?g ?k = None" and old: "dd_entry L st1 (1 - ?g) ?k = Some (Inr j)"
        and put: "bpt_put L c ?k (encode_index j) = (t, x)" and st': "st' = dd_put st1 ?g (Opened t)"
      have "dd_entry L st' (st_dd_gen st') ?k = map_option (decode_index L) (view_tree L t ?k)"
        using st' put_same by (simp add: dd_entry_def)
      then show ?thesis
        using decode_index_put [OF laws put] cur old True c(2)
        by (cases "exact_int j"; cases "is_ok x") (auto simp: dd_entry_def)
    qed
  qed
qed

section \<open>How long an id is remembered\<close>

text \<open>
  \<open>fresh\<close> says why an id recorded at \<open>t0\<close> is still found: it sits in the current
  generation, which opened less than a window before \<open>t0\<close>, or in the old one, which was retired
  after \<open>t0\<close>.
\<close>

definition fresh :: "('t, 'l) lib \<Rightarrow> ('t, 'l) store \<Rightarrow> string \<Rightarrow> u64 \<Rightarrow> u64 \<Rightarrow> bool" where
  "fresh L st key i t0 \<longleftrightarrow>
     dd_ready st \<and>
     (dd_entry L st (st_dd_gen st) key = Some (Inr i) \<and>
        unat t0 < unat (st_dd_rotated_ms st) + unat (bjm_dedup_window st) \<or>
      dd_entry L st (st_dd_gen st) key = None \<and>
        dd_entry L st (1 - st_dd_gen st) key = Some (Inr i) \<and> t0 < st_dd_rotated_ms st)"

lemma elapsed_le: "unat (a :: u64) \<le> unat b \<Longrightarrow> unat (b - a) = unat b - unat a"
  by (rule unat_sub_u64) (simp add: word_le_nat_alt)

lemma double_u64: "unat (w :: u64) < 2 ^ 63 \<Longrightarrow> unat (2 * w) = 2 * unat w"
  by (simp add: unat_word_ariths)

lemma fresh_rotate:
  assumes laws: "bpt_laws L" and fr: "fresh L st key i t0"
    and T: "st_dd_rotated_ms st \<le> now_ms st" "unat (now_ms st) \<le> unat t0 + unat (bjm_dedup_window st)"
    and W: "unat (bjm_dedup_window st) < 2 ^ 63"
  shows "fresh L (dedup_rotate L st) key i t0" and "st_dd_rotated_ms (dedup_rotate L st) \<le> now_ms st"
proof -
  have ready: "dd_ready st" using fr by (simp add: fresh_def)
  then have g: "st_dd_gen st \<le> 1" by (simp add: dd_ready_def)
  note rot = dedup_rotateD [OF laws ready refl]
  let ?st' = "dedup_rotate L st" and ?w = "bjm_dedup_window st"
  have el: "unat (now_ms st - st_dd_rotated_ms st) = unat (now_ms st) - unat (st_dd_rotated_ms st)"
    using T(1) by (intro elapsed_le) (simp add: word_le_nat_alt)
  note nat = word_le_nat_alt word_less_nat_alt el double_u64 [OF W]
  show "fresh L ?st' key i t0" "st_dd_rotated_ms ?st' \<le> now_ms st"
  proof -
    consider "now_ms st - st_dd_rotated_ms st < ?w"
      | "?w \<le> now_ms st - st_dd_rotated_ms st" "now_ms st - st_dd_rotated_ms st < 2 * ?w"
      | "?w \<le> now_ms st - st_dd_rotated_ms st" "2 * ?w \<le> now_ms st - st_dd_rotated_ms st"
      using not_le by blast
    then have "fresh L ?st' key i t0 \<and> st_dd_rotated_ms ?st' \<le> now_ms st"
    proof cases
      case 1
      then show ?thesis using rot(4) fr T(1) by simp
    next
      case 2
      then have late: "t0 < now_ms st" and young: "dd_entry L st (st_dd_gen st) key = Some (Inr i)"
        using fr T unfolding fresh_def nat by linarith+
      from rot(5) [OF 2] show ?thesis
      proof (elim disjE conjE)
        assume "st_dd_gen ?st' = st_dd_gen st" "st_dd_rotated_ms ?st' = st_dd_rotated_ms st"
          "\<forall>h \<le> 1. gen_view L ?st' h = gen_view L st h"
        then show ?thesis using fr rot(1,2) T(1) g by (simp add: fresh_def dd_entry_def)
      next
        assume "st_dd_rotated_ms ?st' = now_ms st" "gen_view L ?st' (st_dd_gen ?st') = Map.empty"
          "gen_view L ?st' (1 - st_dd_gen ?st') = gen_view L st (st_dd_gen st)"
        then show ?thesis using rot(1) late young by (simp add: fresh_def dd_entry_def)
      qed
    next
      case 3
      then have False using fr T unfolding fresh_def nat by linarith
      then show ?thesis ..
    qed
    then show "fresh L ?st' key i t0" "st_dd_rotated_ms ?st' \<le> now_ms st" by blast+
  qed
qed

lemma fresh_lookup:
  assumes laws: "bj_laws L" "bpt_laws L" and fr: "fresh L st key i t0" and ex: "exact_int i"
    and T: "st_dd_rotated_ms st \<le> now_ms st" "unat (now_ms st) \<le> unat t0 + unat (bjm_dedup_window st)"
    and W: "unat (bjm_dedup_window st) < 2 ^ 63"
    and look: "bjm_dedup_lookup L st s d = (st', r)"
  shows "fresh L st' key i t0" and "st_dd_rotated_ms st' \<le> now_ms st"
    and "bjm_dedup_window st' = bjm_dedup_window st"
    and "key = s @ ''/'' @ d \<Longrightarrow> r = Inr (Some i) \<or> (\<exists>e. r = Inl e)"
proof -
  have ready: "dd_ready st" using fr by (simp add: fresh_def)
  note rot = fresh_rotate [OF laws(2) fr T W] and l = dedup_lookupD [OF laws ready look]
  show "st_dd_rotated_ms st' \<le> now_ms st" using rot(2) l(3) by simp
  show "bjm_dedup_window st' = bjm_dedup_window st"
    using l(4) dedup_rotateD(2) [OF laws(2) ready refl] by simp
  show "fresh L st' key i t0"
    using rot(1) l(1-4) l(6,9) [of key] ex
      word_less_nat_alt [of t0 "st_dd_rotated_ms st'"]
    unfolding fresh_def by auto
  show "key = s @ ''/'' @ d \<Longrightarrow> r = Inr (Some i) \<or> (\<exists>e. r = Inl e)"
    using rot(1) l(8) by (auto simp: fresh_def answer_of_def)
qed

lemma fresh_record:
  assumes laws: "bj_laws L" "bpt_laws L" and ready: "dd_ready st" and ex: "exact_int i"
    and recent: "unat t0 < unat (st_dd_rotated_ms st) + unat (bjm_dedup_window st)"
    and rec: "bjm_dedup_record L st s d i = (st', Inr ())"
  shows "fresh L st' (s @ ''/'' @ d) i t0"
    and "st_dd_rotated_ms st' = st_dd_rotated_ms st" and "bjm_dedup_window st' = bjm_dedup_window st"
    and "st_clock st' = st_clock st"
proof -
  have g: "st_dd_gen st \<le> 1" using ready by (simp add: dd_ready_def)
  have op: "dedup_open L st = (st, Inr ())" using ready by (simp add: dd_ready_def dedup_open_def)
  obtain c where c: "dd_handle st (st_dd_gen st) = Inr c" "gen_view L st (st_dd_gen st) = view_tree L c"
    using dd_slot_cases [OF ready g] by blast
  obtain t where put: "bpt_put L c (s @ ''/'' @ d) (encode_index i) = (t, Inr ())"
      and st': "st' = dd_put st (st_dd_gen st) (Opened t)"
    using rec op c(1)
    by (auto simp: bjm_dedup_record_def dest!: dedup_keyD split: sum.splits prod.splits)
  from st' show "st_dd_rotated_ms st' = st_dd_rotated_ms st" "bjm_dedup_window st' = bjm_dedup_window st"
    "st_clock st' = st_clock st" by simp_all
  have "dd_entry L st' (st_dd_gen st') (s @ ''/'' @ d) = Some (Inr i)"
    using decode_index_put [OF laws put ex] st' g by (simp add: dd_entry_def gen_view_put)
  then show "fresh L st' (s @ ''/'' @ d) i t0"
    using recent st' dd_ready_put [OF ready] by (simp add: fresh_def)
qed

text \<open>Lookups at given times.\<close>

fun dedup_calls :: "('t, 'l) lib \<Rightarrow> ('t, 'l) store \<Rightarrow> (u64 \<times> string \<times> string) list \<Rightarrow> ('t, 'l) store" where
  "dedup_calls L st [] = st"
| "dedup_calls L st ((T, s, d) # cs) =
     dedup_calls L (fst (bjm_dedup_lookup L (st\<lparr>st_clock := Some T\<rparr>) s d)) cs"

lemma fresh_clock [simp]:
  "fresh L (st\<lparr>st_clock := x\<rparr>) k i t0 = fresh L st k i t0"
  "bjm_dedup_window (st\<lparr>st_clock := x\<rparr>) = bjm_dedup_window st"
  by (simp_all add: fresh_def dd_ready_def dd_entry_def gen_view_def dd_slot_def bjm_dedup_window_def)

lemma fresh_calls:
  assumes laws: "bj_laws L" "bpt_laws L" and ex: "exact_int i"
    and "fresh L st key i t0" and "st_dd_rotated_ms st \<le> T0" and "sorted (T0 # map fst cs @ [T])"
    and "unat T \<le> unat t0 + unat (bjm_dedup_window st)" and "unat (bjm_dedup_window st) < 2 ^ 63"
  shows "fresh L (dedup_calls L st cs) key i t0 \<and> st_dd_rotated_ms (dedup_calls L st cs) \<le> T \<and>
         bjm_dedup_window (dedup_calls L st cs) = bjm_dedup_window st"
  using assms(4-8)
proof (induction cs arbitrary: st T0)
  case Nil
  then show ?case by auto
next
  case (Cons c cs)
  obtain T1 s d where c: "c = (T1, s, d)" by (cases c)
  obtain st' r where look: "bjm_dedup_lookup L (st\<lparr>st_clock := Some T1\<rparr>) s d = (st', r)"
    by (cases "bjm_dedup_lookup L (st\<lparr>st_clock := Some T1\<rparr>) s d")
  have T1: "T0 \<le> T1" "T1 \<le> T" "sorted (T1 # map fst cs @ [T])" using Cons.prems(3) c by auto
  then have time: "st_dd_rotated_ms st \<le> T1" "unat T1 \<le> unat t0 + unat (bjm_dedup_window st)"
    using Cons.prems(2,4) order_trans by (blast, simp add: word_le_nat_alt)
  have "fresh L st' key i t0" "st_dd_rotated_ms st' \<le> T1" "bjm_dedup_window st' = bjm_dedup_window st"
    using fresh_lookup [OF laws _ ex _ _ _ look] Cons.prems(1,5) time by (simp_all add: now_ms_def)
  then show ?case using Cons.IH [of st' T1] T1(3) Cons.prems(4,5) c look by simp
qed

text \<open>
  \<open>aged\<close> bounds how long the id can stay: a generation that still holds it opened no later
  than \<open>t0\<close>, or was retired less than two windows after.
\<close>

definition aged :: "('t, 'l) lib \<Rightarrow> ('t, 'l) store \<Rightarrow> string \<Rightarrow> u64 \<Rightarrow> bool" where
  "aged L st key t0 \<longleftrightarrow>
     dd_ready st \<and>
     (dd_entry L st (st_dd_gen st) key \<noteq> None \<longrightarrow> st_dd_rotated_ms st \<le> t0) \<and>
     (dd_entry L st (1 - st_dd_gen st) key \<noteq> None \<longrightarrow>
        unat (st_dd_rotated_ms st) < unat t0 + 2 * unat (bjm_dedup_window st))"

lemma window_pos: "bjm_dedup_window st \<noteq> 0"
  by (simp add: bjm_dedup_window_def BJM_DEDUP_WINDOW_DEFAULT_MS_def)

lemma aged_rotate:
  assumes laws: "bpt_laws L" and resets: "\<forall>t. is_ok (snd (bpt_reset L t))" and ag: "aged L st key t0"
    and T: "st_dd_rotated_ms st \<le> now_ms st" and W: "unat (bjm_dedup_window st) < 2 ^ 63"
  shows "aged L (dedup_rotate L st) key t0" and "st_dd_rotated_ms (dedup_rotate L st) \<le> now_ms st"
    and "unat t0 + 3 * unat (bjm_dedup_window st) \<le> unat (now_ms st) \<Longrightarrow>
           dd_entry L (dedup_rotate L st) (st_dd_gen (dedup_rotate L st)) key = None \<and>
           dd_entry L (dedup_rotate L st) (1 - st_dd_gen (dedup_rotate L st)) key = None"
proof -
  have ready: "dd_ready st" using ag by (simp add: aged_def)
  note rot = dedup_rotateD [OF laws ready refl]
  let ?st' = "dedup_rotate L st" and ?w = "bjm_dedup_window st"
  have el: "unat (now_ms st - st_dd_rotated_ms st) = unat (now_ms st) - unat (st_dd_rotated_ms st)"
    using T by (intro elapsed_le) (simp add: word_le_nat_alt)
  have pos: "0 < unat ?w" using window_pos [of st] by (simp add: unat_gt_0)
  note nat = word_le_nat_alt word_less_nat_alt el double_u64 [OF W]
  consider "now_ms st - st_dd_rotated_ms st < ?w"
    | "?w \<le> now_ms st - st_dd_rotated_ms st" "now_ms st - st_dd_rotated_ms st < 2 * ?w"
    | "?w \<le> now_ms st - st_dd_rotated_ms st" "2 * ?w \<le> now_ms st - st_dd_rotated_ms st"
    using not_le by blast
  then have "(aged L ?st' key t0 \<and> st_dd_rotated_ms ?st' \<le> now_ms st) \<and>
      (unat t0 + 3 * unat ?w \<le> unat (now_ms st) \<longrightarrow>
         dd_entry L ?st' (st_dd_gen ?st') key = None \<and> dd_entry L ?st' (1 - st_dd_gen ?st') key = None)"
  proof cases
    case 1
    have "unat (now_ms st) < unat (st_dd_rotated_ms st) + unat ?w"
      using 1 T unfolding nat by linarith
    then have "dd_entry L st (st_dd_gen st) key = None \<and> dd_entry L st (1 - st_dd_gen st) key = None"
      if "unat t0 + 3 * unat ?w \<le> unat (now_ms st)"
      using ag that unfolding aged_def nat by force
    with rot(4) [OF 1] ag T show ?thesis by simp
  next
    case 2
    have "st_dd_rotated_ms ?st' = now_ms st" by (rule rot(7) [OF resets 2(1)])
    moreover have "st_dd_rotated_ms st \<noteq> now_ms st" using 2(1) pos unfolding nat by auto
    ultimately have r: "st_dd_rotated_ms ?st' = now_ms st" "gen_view L ?st' (st_dd_gen ?st') = Map.empty"
      "gen_view L ?st' (1 - st_dd_gen ?st') = gen_view L st (st_dd_gen st)"
      using rot(5) [OF 2] by auto
    have young: "dd_entry L ?st' (1 - st_dd_gen ?st') key \<noteq> None \<Longrightarrow>
        unat (now_ms st) < unat t0 + 2 * unat ?w"
      using ag 2(2) T r(3) unfolding aged_def dd_entry_def nat by force
    then have "unat t0 + 3 * unat ?w \<le> unat (now_ms st) \<Longrightarrow>
        dd_entry L ?st' (1 - st_dd_gen ?st') key = None" by linarith
    moreover have "dd_entry L ?st' (st_dd_gen ?st') key = None" using r(2) by (simp add: dd_entry_def)
    ultimately show ?thesis using r(1) rot(1,2) young by (auto simp: aged_def)
  next
    case 3
    have "st_dd_rotated_ms ?st' = now_ms st" by (rule rot(7) [OF resets 3(1)])
    moreover have "st_dd_rotated_ms st \<noteq> now_ms st" using 3(1) pos unfolding nat by auto
    ultimately have "st_dd_rotated_ms ?st' = now_ms st" "\<forall>h \<le> 1. gen_view L ?st' h = Map.empty"
      "st_dd_gen ?st' = 0"
      using rot(6) [OF 3] by auto
    with rot(1) show ?thesis by (simp add: aged_def dd_entry_def)
  qed
  then show "aged L ?st' key t0" "st_dd_rotated_ms ?st' \<le> now_ms st"
    "unat t0 + 3 * unat ?w \<le> unat (now_ms st) \<Longrightarrow>
       dd_entry L ?st' (st_dd_gen ?st') key = None \<and> dd_entry L ?st' (1 - st_dd_gen ?st') key = None"
    by blast+
qed

lemma aged_clock [simp]: "aged L (st\<lparr>st_clock := x\<rparr>) k t0 = aged L st k t0"
  by (simp add: aged_def dd_ready_def dd_entry_def gen_view_def dd_slot_def bjm_dedup_window_def)

lemma aged_calls:
  assumes laws: "bj_laws L" "bpt_laws L" and resets: "\<forall>t. is_ok (snd (bpt_reset L t))"
    and "aged L st key t0" and "st_dd_rotated_ms st \<le> T0" and "sorted (T0 # map fst cs @ [T])"
    and "unat (bjm_dedup_window st) < 2 ^ 63" and "\<forall>c \<in> set cs. key \<noteq> fst (snd c) @ ''/'' @ snd (snd c)"
  shows "aged L (dedup_calls L st cs) key t0 \<and> st_dd_rotated_ms (dedup_calls L st cs) \<le> T \<and>
         bjm_dedup_window (dedup_calls L st cs) = bjm_dedup_window st"
  using assms(4-8)
proof (induction cs arbitrary: st T0)
  case Nil
  then show ?case by auto
next
  case (Cons c cs)
  obtain T1 s d where c: "c = (T1, s, d)" by (cases c)
  let ?st = "st\<lparr>st_clock := Some T1\<rparr>"
  obtain st' r where look: "bjm_dedup_lookup L ?st s d = (st', r)"
    by (cases "bjm_dedup_lookup L ?st s d")
  have T1: "T0 \<le> T1" "T1 \<le> T" "sorted (T1 # map fst cs @ [T])" using Cons.prems(3) c by auto
  have ready: "dd_ready ?st" using Cons.prems(1) by (simp add: aged_def dd_ready_def)
  have rot: "aged L (dedup_rotate L ?st) key t0" "st_dd_rotated_ms (dedup_rotate L ?st) \<le> T1"
    using aged_rotate [OF laws(2) resets, of ?st key t0] Cons.prems(1,2,4) T1(1)
    by (auto simp: now_ms_def)
  note l = dedup_lookupD [OF laws ready look]
  have other: "key \<noteq> s @ ''/'' @ d" using Cons.prems(5) c by simp
  have "aged L st' key t0"
    using rot(1) l(1-4) l(6) [of key] l(7) [OF other] by (simp add: aged_def)
  moreover have "st_dd_rotated_ms st' \<le> T1" using rot(2) l(3) by simp
  moreover have "bjm_dedup_window st' = bjm_dedup_window st"
    using l(4) dedup_rotateD(2) [OF laws(2) ready refl] by simp
  ultimately show ?case using Cons.IH [of st' T1] T1(3) Cons.prems(4,5) c look by simp
qed

section \<open>Properties\<close>

lemma lookup_ready:
  assumes laws: "bj_laws L" "bpt_laws L" and inv: "dd_inv st"
    and look: "bjm_dedup_lookup L st s d = (st', Inr x)"
  shows "dd_ready st'"
proof -
  obtain st1 r1 where op: "dedup_open L st = (st1, r1)" by (cases "dedup_open L st")
  with look obtain u where r1: "r1 = Inr u" by (cases r1) (auto simp: bjm_dedup_lookup_def)
  have ready: "dd_ready st1" using dedup_openD(2) [OF laws(2) inv op] r1 by simp
  then have "dedup_open L st1 = (st1, Inr ())" by (simp add: dd_ready_def dedup_open_def)
  then have "bjm_dedup_lookup L st1 s d = (st', Inr x)"
    using look op r1 by (simp add: bjm_dedup_lookup_def)
  from dedup_lookupD(1) [OF laws ready this] show ?thesis .
qed

text \<open>A store with a window of ten milliseconds, first asked at time 5.\<close>

definition dd_run0 :: "(rtree, rlog) store" where
  "dd_run0 = bjm_dedup_set_window (ref_store 5) 10"

definition dd_run1 :: "(rtree, rlog) store" where
  "dd_run1 = fst (bjm_dedup_lookup ref_lib (dd_run0\<lparr>st_clock := Some 5\<rparr>) ''a'' ''x'')"

definition dd_run2 :: "(rtree, rlog) store" where
  "dd_run2 = fst (bjm_dedup_record ref_lib dd_run1 ''a'' ''x'' 7)"

lemma dd_run_facts:
  "dd_inv dd_run0" "dd_ready dd_run1"
  "bjm_dedup_lookup ref_lib (dd_run0\<lparr>st_clock := Some 5\<rparr>) ''a'' ''x'' = (dd_run1, Inr None)"
  "bjm_dedup_record ref_lib dd_run1 ''a'' ''x'' 7 = (dd_run2, Inr ())"
  "bjm_dedup_window dd_run1 = 10" "st_dd_rotated_ms dd_run1 = 5"
  "dd_entry ref_lib dd_run1 (1 - st_dd_gen dd_run1) (''a'' @ ''/'' @ ''x'') = None"
proof -
  show "dd_inv dd_run0" by (simp add: dd_inv_def dd_run0_def ref_store_def bjm_store_open_ns_def bjm_dedup_set_window_def)
  have "snd (bjm_dedup_lookup ref_lib (dd_run0\<lparr>st_clock := Some 5\<rparr>) ''a'' ''x'') = Inr None" by code_simp
  then show look: "bjm_dedup_lookup ref_lib (dd_run0\<lparr>st_clock := Some 5\<rparr>) ''a'' ''x'' = (dd_run1, Inr None)"
    by (simp add: dd_run1_def prod_eq_iff)
  have "snd (bjm_dedup_record ref_lib dd_run1 ''a'' ''x'' 7) = Inr ()" by code_simp
  then show "bjm_dedup_record ref_lib dd_run1 ''a'' ''x'' 7 = (dd_run2, Inr ())"
    by (simp add: dd_run2_def prod_eq_iff)
  show "dd_ready dd_run1"
    using lookup_ready [OF lib_lawsD(1,2) [OF ref_lib_laws] _ look] \<open>dd_inv dd_run0\<close>
    by (simp add: dd_inv_def dd_ready_def)
qed (code_simp)+



text \<open>
  Nothing is remembered for more than three windows: an id recorded at \<open>t0\<close> that no lookup
  asks for in between is unknown from \<open>t0\<close> plus three windows on, so the index cannot grow
  without bound.
\<close>

theorem dedup_forgets:
  assumes "lib_laws L" and "\<forall>t. is_ok (snd (bpt_reset L t))"
    and "unat (bjm_dedup_window st1) < 2 ^ 63" and "dd_ready st1"
    and "st_dd_rotated_ms st1 \<le> t0" and "dd_entry L st1 (1 - st_dd_gen st1) (s @ ''/'' @ d) = None"
    and "bjm_dedup_record L st1 s d i = (st2, Inr ())" and "exact_int i"
    and "sorted (t0 # map fst cs @ [T])" and "\<forall>c \<in> set cs. s @ ''/'' @ d \<noteq> fst (snd c) @ ''/'' @ snd (snd c)"
    and "unat t0 + 3 * unat (bjm_dedup_window st1) \<le> unat T"
    and "bjm_dedup_lookup L ((dedup_calls L st2 cs)\<lparr>st_clock := Some T\<rparr>) s d = (st3, r)"
  shows "r = Inr None \<or> (\<exists>e. r = Inl e)"
proof -
  note laws = lib_lawsD(1,2) [OF assms(1)]
  let ?k = "s @ ''/'' @ d" and ?st = "(dedup_calls L st2 cs)\<lparr>st_clock := Some T\<rparr>"
  have "st_dd_gen st1 \<le> 1" using assms(4) by (simp add: dd_ready_def)
  then have g: "st_dd_gen st1 \<le> 1" "1 - st_dd_gen st1 \<le> 1" "1 - st_dd_gen st1 \<noteq> st_dd_gen st1" by arith+
  have "dedup_open L st1 = (st1, Inr ())" using assms(4) by (simp add: dd_ready_def dedup_open_def)
  then obtain t where st2: "st2 = dd_put st1 (st_dd_gen st1) (Opened t)"
    using assms(7) by (auto simp: bjm_dedup_record_def split: sum.splits prod.splits)
  have "dd_entry L st2 (1 - st_dd_gen st2) ?k = None"
    using assms(6) st2 g(3) gen_view_put [OF g(1,2), of L st1 "Opened t"]
    by (simp add: dd_entry_def)
  then have "aged L st2 ?k t0"
    using st2 dd_ready_put [OF assms(4)] assms(5) by (simp add: aged_def)
  then have "aged L (dedup_calls L st2 cs) ?k t0 \<and> st_dd_rotated_ms (dedup_calls L st2 cs) \<le> T \<and>
         bjm_dedup_window (dedup_calls L st2 cs) = bjm_dedup_window st2"
    using aged_calls [OF laws assms(2) _ _ assms(9) _ assms(10)] st2 assms(3,5) by simp
  then have a: "aged L ?st ?k t0" "st_dd_rotated_ms ?st \<le> now_ms ?st" "bjm_dedup_window ?st = bjm_dedup_window st1"
    using st2 by (simp_all add: now_ms_def)
  then have "dd_ready ?st" by (simp add: aged_def)
  from dedup_lookupD(8) [OF laws this assms(12)] aged_rotate(3) [OF laws(2) assms(2) a(1,2)] a(3) assms(3,11)
  show ?thesis by (auto simp: answer_of_def now_ms_def)
qed

theorem dedup_forgets_witness:
  "snd (bjm_dedup_lookup ref_lib ((dedup_calls ref_lib dd_run2 [(14, ''b'', ''y'')])
      \<lparr>st_clock := Some 35\<rparr>) ''a'' ''x'') = Inr None \<or>
   (\<exists>e. snd (bjm_dedup_lookup ref_lib ((dedup_calls ref_lib dd_run2 [(14, ''b'', ''y'')])
      \<lparr>st_clock := Some 35\<rparr>) ''a'' ''x'') = Inl e)"
  by (rule dedup_forgets [OF ref_lib_laws _ _ dd_run_facts(2) _ _ dd_run_facts(4) _ _ _ _ surjective_pairing,
        where ?t0.0 = 5])
    (simp_all add: dd_run_facts [simplified] exact_int_def ref_resets)

text \<open>
  The promise of \<open>sukkal.h\<close> that an id is remembered for at most twice the window does not
  hold: rotation is lazy, so an id recorded at time 5 with a window of ten is retired by a request
  at 24 and still answered at 33.
\<close>

theorem dedup_outlives_two_windows:
  "snd (bjm_dedup_lookup ref_lib ((dedup_calls ref_lib dd_run2 [(24, ''b'', ''y'')])\<lparr>st_clock := Some 33\<rparr>)
     ''a'' ''x'') = Inr (Some 7)"
  by code_simp

text \<open>
  A clock that steps back by one millisecond forgets every id at once: the elapsed time wraps
  to almost \<open>2 ^ 64\<close>, both generations are dropped, and a retry inside the window is published
  again.
\<close>

theorem dedup_clock_step_back:
  "snd (bjm_dedup_lookup ref_lib (dd_run2\<lparr>st_clock := Some 4\<rparr>) ''a'' ''x'') = Inr None"
  by code_simp

end
