(* ===== verification/Handlers.thy ===== *)
theory Handlers
  imports Requests Settling Dedup
begin

text \<open>
  The request handlers of \<open>src/src/server.c\<close>. A handler takes the broker (\<open>sukkal_app\<close>) and a
  request to the broker afterwards and its one response. The publishes the store made reach the
  delivery engine through the hook \<open>on_publish\<close> of \<open>src/src/server_posix.c\<close>, at once.
\<close>

section \<open>The broker\<close>

record ('t, 'l) sukkal_app =
  a_store :: "('t, 'l) store"
  a_push :: pusher
  a_started_s :: u64
  a_backend :: "string option"
  a_conns :: "int option"

text \<open>The outcome of a store operation, with the publishes it announced.\<close>

definition on_store :: "('t, 'l) sukkal_app \<Rightarrow> ('t, 'l) store \<times> 'r \<Rightarrow> ('t, 'l) sukkal_app \<times> 'r" where
  "on_store a x =
     (case x of (st, r) \<Rightarrow>
        (a\<lparr>a_store := st, a_push := hear (a_push a) (drop (length (st_pubs (a_store a))) (st_pubs st))\<rparr>, r))"

definition refuse :: "bj_err \<Rightarrow> string \<Rightarrow> sukkal_res" where
  "refuse e msg = res_err (status_for e) msg"

text \<open>A store operation whose error is the answer.\<close>

definition attempt ::
    "('t, 'l) sukkal_app \<Rightarrow> ('t, 'l) store \<times> 'b res \<Rightarrow> string
      \<Rightarrow> (('t, 'l) sukkal_app \<Rightarrow> 'b \<Rightarrow> ('t, 'l) sukkal_app \<times> sukkal_res) \<Rightarrow> ('t, 'l) sukkal_app \<times> sukkal_res"
  where
  "attempt a x msg k = (case on_store a x of (a, Inl e) \<Rightarrow> (a, refuse e msg) | (a, Inr v) \<Rightarrow> k a v)"

definition listing_reply ::
    "('t, 'l) sukkal_app \<Rightarrow> ('t, 'l) store \<times> bytes res \<Rightarrow> ('t, 'l) sukkal_app \<times> sukkal_res" where
  "listing_reply a x = attempt a x ''listing failed'' (\<lambda>a out. (a, res_bj [] 200 out))"

section \<open>Publishing\<close>

text \<open>What is refused before anything happens; else the entry type and the idempotency key.\<close>

definition publish_checks ::
    "('t, 'l) lib \<Rightarrow> sukkal_req \<Rightarrow> sukkal_res + int \<times> string option" where
  "publish_checks L req =
     (if rq_content_type req \<noteq> Some SUKKAL_MEDIA_TYPE
      then Inl (res_err 415 (''expected Content-Type: '' @ SUKKAL_MEDIA_TYPE))
      else if rq_body req = [] then Inl (res_err 400 ''empty body'')
      else if bj_value_size L (rq_body req) \<noteq> Inr (length (rq_body req))
      then Inl (res_err 400 ''body is not exactly one binjson value'')
      else if query_u64 req ''headers'' 0 \<noteq> 0 \<and> \<not> bjm_envelope_shape_ok L (rq_body req)
      then Inl (res_err 400 ''with ?headers=1 the body must be a 2-element array: [ headers-object, message ]'')
      else
        let ty = (if query_u64 req ''headers'' 0 \<noteq> 0 then BJM_ENTRY_ENVELOPE else BJM_ENTRY_PLAIN) in
        (case rq_query req ''id'' (BJM_DEDUP_ID_MAX + 1) of
           Found i \<Rightarrow>
             if bjm_dedup_id_valid i then Inr (ty, Some i)
             else Inl (res_err 400 (''invalid id: 1-128 printable bytes, no '/'' @ [CHR 0x27]))
         | _ \<Rightarrow> Inr (ty, None)))"

text \<open>Append unless the id is already known: the index, and whether it was.\<close>

definition append_once ::
    "('t, 'l) lib \<Rightarrow> ('t, 'l) sukkal_app \<Rightarrow> string \<Rightarrow> int \<Rightarrow> bytes \<Rightarrow> string option
      \<Rightarrow> ('t, 'l) sukkal_app \<times> (sukkal_res + u64 \<times> bool)" where
  "append_once L a subject ty body id' =
     (case (case id' of None \<Rightarrow> (a, Inr None)
            | Some i \<Rightarrow> on_store a (bjm_dedup_lookup L (a_store a) subject i)) of
        (a, Inl e) \<Rightarrow> (a, Inl (refuse e ''dedup lookup failed''))
      | (a, Inr (Some index)) \<Rightarrow> (a, Inr (index, True))
      | (a, Inr None) \<Rightarrow>
          (case on_store a (bjm_publish L (a_store a) subject ty body) of
             (a, Inl e) \<Rightarrow> (a, Inl (refuse e ''publish failed''))
           | (a, Inr index) \<Rightarrow>
               (case id' of None \<Rightarrow> a
                | Some i \<Rightarrow> fst (on_store a (bjm_dedup_record L (a_store a) subject i index)),
                Inr (index, False))))"

text \<open>Advance the receipt on the input subject after the output has landed.\<close>

definition ack_input ::
    "('t, 'l) lib \<Rightarrow> ('t, 'l) sukkal_app \<Rightarrow> sukkal_req \<Rightarrow> ('t, 'l) sukkal_app \<times> (sukkal_res + u64 option)" where
  "ack_input L a req =
     (let ack_index = query_u64 req ''ack_index'' 0 in
      if ack_index > 0 then
        (case (rq_query req ''ack_subject'' (BJM_SUBJECT_MAX + 1),
               rq_query req ''ack_consumer'' (BJM_CONSUMER_MAX + 1)) of
           (Found s, Found c) \<Rightarrow>
             if \<not> bjm_subject_valid s \<or> \<not> bjm_consumer_valid c
             then (a, Inl (res_err 400 ''invalid ack_subject or ack_consumer''))
             else
               (case on_store a (bjm_cursor_set L (a_store a) s c ack_index) of
                  (a, Inl e) \<Rightarrow> (a, Inl (refuse e ''ack failed''))
                | (a, Inr _) \<Rightarrow>
                    (fst (on_store a (bjm_cursor_sync L (a_store a))), Inr (Some ack_index)))
         | _ \<Rightarrow> (a, Inr None))
      else (a, Inr None))"

definition h_publish ::
    "('t, 'l) lib \<Rightarrow> ('t, 'l) sukkal_app \<Rightarrow> sukkal_req \<Rightarrow> ('t, 'l) sukkal_app \<times> sukkal_res" where
  "h_publish L a req =
     (case subject_of req ''/pub/'' of
        Inl r \<Rightarrow> (a, r)
      | Inr subject \<Rightarrow>
          (case publish_checks L req of
             Inl r \<Rightarrow> (a, r)
           | Inr (ty, id') \<Rightarrow>
               (case append_once L a subject ty (rq_body req) id' of
                  (a, Inl r) \<Rightarrow> (a, r)
                | (a, Inr (index, duplicate)) \<Rightarrow>
                    (case ack_input L a req of
                       (a, Inl r) \<Rightarrow> (a, r)
                     | (a, Inr acked) \<Rightarrow>
                         (a, reply L (bj_object
                               ([(''subject'', [EStr subject]), (''index'', [EInt index])] @
                                (case acked of None \<Rightarrow> [] | Some i \<Rightarrow> [(''acked'', [EInt i])]) @
                                (if id' \<noteq> None then [(''duplicate'', [EBool duplicate])] else []))))))))"

section \<open>Reading\<close>

definition batch_max :: "sukkal_req \<Rightarrow> u64" where
  "batch_max req =
     (let m = query_u64 req ''max'' SUKKAL_DEFAULT_BATCH in
      if m = 0 \<or> m > SUKKAL_MAX_BODY_BYTES then SUKKAL_DEFAULT_BATCH else m)"

text \<open>The consumer's receipt, after the acknowledgement that came with the request.\<close>

definition consumer_place ::
    "('t, 'l) lib \<Rightarrow> ('t, 'l) sukkal_app \<Rightarrow> sukkal_req \<Rightarrow> string \<Rightarrow> string
      \<Rightarrow> ('t, 'l) sukkal_app \<times> (sukkal_res + u64)" where
  "consumer_place L a req subject c =
     (let ack = query_u64 req ''ack'' 0 in
      (case (if ack \<noteq> 0 then on_store a (bjm_cursor_set L (a_store a) subject c ack) else (a, Inr ())) of
         (a, Inl e) \<Rightarrow> (a, Inl (refuse e ''ack failed''))
       | (a, Inr _) \<Rightarrow>
           (case on_store a (bjm_cursor_get L (a_store a) subject c) of
              (a, Inl e) \<Rightarrow> (a, Inl (refuse e ''cursor lookup failed''))
            | (a, Inr (Some acked)) \<Rightarrow> (a, Inr acked)
            | (a, Inr None) \<Rightarrow>
                (case (if rq_query req ''start'' 8 = Found ''last''
                       then on_store a (bjm_last_index L (a_store a) subject) else (a, 0)) of
                   (a, acked) \<Rightarrow>
                     (case on_store a (bjm_cursor_set L (a_store a) subject c acked) of
                        (a, Inl e) \<Rightarrow> (a, Inl (refuse e ''cursor create failed''))
                      | (a, Inr _) \<Rightarrow> (a, Inr acked))))))"

definition read_reply :: "u64 \<Rightarrow> u64 option \<Rightarrow> nat \<times> bytes \<times> u64 \<Rightarrow> sukkal_res" where
  "read_reply skipped acked got =
     (case got of (cnt, out, last_ix) \<Rightarrow>
        res_bj ([(''X-Sukkal-Count'', dec (int cnt)), (''X-Sukkal-Last-Index'', dec_u64 last_ix)] @
                (if skipped \<noteq> 0 then [(''X-Sukkal-Skipped'', dec_u64 skipped)] else []) @
                (case acked of None \<Rightarrow> [] | Some i \<Rightarrow> [(''X-Sukkal-Acked'', dec_u64 i)]))
          200 out)"

text \<open>
  The batch from a receipt, or from a plain cursor, which is moved up to the oldest message there is.
\<close>

definition read_from ::
    "('t, 'l) lib \<Rightarrow> ('t, 'l) sukkal_app \<Rightarrow> sukkal_req \<Rightarrow> string \<Rightarrow> u64 \<Rightarrow> u64 option
      \<Rightarrow> ('t, 'l) sukkal_app \<times> sukkal_res" where
  "read_from L a req subject base acked =
     (let from = query_u64 req ''from'' 0;
          from = (case acked of None \<Rightarrow> if from = 0 then 1 else from | Some i \<Rightarrow> i + 1);
          skip = (acked = None \<and> from \<le> base);
          skipped = (if skip then base + 1 - from else 0);
          from = (if skip then base + 1 else from)
      in (case on_store a (bjm_read L (a_store a) subject from (batch_max req)) of
            (a, Inl e) \<Rightarrow>
              (a, if e = BJ_ERR_RANGE
                  then res_err 416 (''those messages have been trimmed. Move on with POST '' @
                    ''/ack/<subject>?consumer=&index= (sukkal seek), or start over by '' @
                    ''deleting the subscription'')
                  else refuse e ''no such subject'')
          | (a, Inr got) \<Rightarrow> (a, read_reply skipped acked got)))"

definition h_subscribe ::
    "('t, 'l) lib \<Rightarrow> ('t, 'l) sukkal_app \<Rightarrow> sukkal_req \<Rightarrow> ('t, 'l) sukkal_app \<times> sukkal_res" where
  "h_subscribe L a req =
     (case subject_of req ''/sub/'' of
        Inl r \<Rightarrow> (a, r)
      | Inr subject \<Rightarrow>
          (case on_store a (bjm_subject_info L (a_store a) subject) of
             (a, Inl _) \<Rightarrow> (a, res_err 404 ''no such subject'')
           | (a, Inr (base, _, _)) \<Rightarrow>
               (case query_consumer req of
                  Inl r \<Rightarrow> (a, r)
                | Inr None \<Rightarrow> read_from L a req subject base None
                | Inr (Some c) \<Rightarrow>
                    (case consumer_place L a req subject c of
                       (a, Inl r) \<Rightarrow> (a, r)
                     | (a, Inr acked) \<Rightarrow> read_from L a req subject base (Some acked)))))"

section \<open>Acknowledging\<close>

definition h_ack ::
    "('t, 'l) lib \<Rightarrow> ('t, 'l) sukkal_app \<Rightarrow> sukkal_req \<Rightarrow> ('t, 'l) sukkal_app \<times> sukkal_res" where
  "h_ack L a req =
     (case subject_of req ''/ack/'' of
        Inl r \<Rightarrow> (a, r)
      | Inr subject \<Rightarrow>
          (case query_consumer req of
             Inl r \<Rightarrow> (a, r)
           | Inr None \<Rightarrow> (a, res_err 400 ''?consumer=<name> is required'')
           | Inr (Some c) \<Rightarrow>
               let index = query_u64 req ''index'' 0 in
               if index = 0 then (a, res_err 400 ''?index=<n> is required and must be >= 1'')
               else
                 attempt a (bjm_cursor_set L (a_store a) subject c index) ''ack failed''
                   (\<lambda>a _. let a = fst (on_store a (bjm_cursor_sync L (a_store a))) in
                     (case on_store a (bjm_cursor_get L (a_store a) subject c) of
                        (a, found) \<Rightarrow>
                          (a, reply L (bj_object
                                [(''subject'', [EStr subject]), (''consumer'', [EStr c]),
                                 (''acked'', [EInt (case found of Inr (Some i) \<Rightarrow> i | _ \<Rightarrow> 0)])]))))))"

section \<open>Push subscriptions\<close>

definition h_push_list ::
    "('t, 'l) lib \<Rightarrow> ('t, 'l) sukkal_app \<Rightarrow> sukkal_req \<Rightarrow> ('t, 'l) sukkal_app \<times> sukkal_res" where
  "h_push_list L a req =
     (case bjm_pusher_list L (a_push a) of
        Inl e \<Rightarrow> (a, refuse e ''listing failed'') | Inr out \<Rightarrow> (a, res_bj [] 200 out))"

definition callback_of :: "sukkal_req \<Rightarrow> sukkal_res + string" where
  "callback_of req =
     (let bad = Inl (res_err 400 (''?callback=<url> is required: an http:// or https:// URL this broker '' @
                                  ''can reach, which is where messages are POSTed''))
      in (case rq_query req ''callback'' (BJM_CALLBACK_MAX + 1) of
            Found cb \<Rightarrow> if bjm_callback_valid cb then Inr cb else bad
          | _ \<Rightarrow> bad))"

text \<open>A token that does not fit its buffer is kept as far as it was read, unchecked.\<close>

definition token_of :: "sukkal_req \<Rightarrow> sukkal_res + string" where
  "token_of req =
     (case rq_query req ''token'' (BJM_TOKEN_MAX + 1) of
        Found t \<Rightarrow>
          if bjm_token_valid t then Inr t
          else Inl (res_err 400 ''invalid token: up to 128 printable, space-free bytes'')
      | Unfit t \<Rightarrow> Inr t
      | Missing \<Rightarrow> Inr [])"

definition push_config :: "sukkal_req \<Rightarrow> string \<Rightarrow> sukkal_res + bjm_push_sub" where
  "push_config req pattern =
     (case callback_of req of
        Inl r \<Rightarrow> Inl r
      | Inr cb \<Rightarrow>
          (case token_of req of
             Inl r \<Rightarrow> Inl r
           | Inr token \<Rightarrow>
               (case query_group req of
                  Inl r \<Rightarrow> Inl r
                | Inr grp \<Rightarrow>
                    let jobs = query_u64 req ''max'' 0 in
                    Inr \<lparr>ps_pattern = take BJM_SUBJECT_MAX pattern, ps_callback = cb, ps_token = token,
                         ps_batch_bytes = query_u64 req ''batch'' 0,
                         ps_group = (case grp of None \<Rightarrow> [] | Some g \<Rightarrow> g),
                         ps_max_jobs = (if jobs > of_nat BJM_PUSH_JOBS_MAX then of_nat BJM_PUSH_JOBS_MAX
                                        else jobs)\<rparr>)))"

definition seed_app ::
    "('t, 'l) lib \<Rightarrow> ('t, 'l) sukkal_app \<Rightarrow> string \<Rightarrow> string \<Rightarrow> bool \<Rightarrow> u64 \<Rightarrow> ('t, 'l) sukkal_app" where
  "seed_app L a consumer pattern at_end from =
     (case bjm_pusher_seed L (a_store a) (a_push a) consumer pattern at_end from of
        (st, p) \<Rightarrow> a\<lparr>a_store := st, a_push := p\<rparr>)"

definition h_push_put ::
    "('t, 'l) lib \<Rightarrow> ('t, 'l) sukkal_app \<Rightarrow> sukkal_req \<Rightarrow> ('t, 'l) sukkal_app \<times> sukkal_res" where
  "h_push_put L a req =
     (case pattern_of req ''/push/'' of
        Inl r \<Rightarrow> (a, r)
      | Inr pattern \<Rightarrow>
          (case query_consumer req of
             Inl r \<Rightarrow> (a, r)
           | Inr None \<Rightarrow>
               (a, res_err 400 (''?consumer=<name> is required: it is the subscription's identity and '' @
                                ''where its receipt is kept''))
           | Inr (Some c) \<Rightarrow>
               (case push_config req pattern of
                  Inl r \<Rightarrow> (a, r)
                | Inr cfg \<Rightarrow>
                    attempt a (bjm_push_get L (a_store a) c) ''lookup failed''
                      (\<lambda>a found.
                        let a = (if found = None \<and> ps_group cfg = [] then
                                   seed_app L a c (ps_pattern cfg) (rq_query req ''start'' 8 = Found ''last'')
                                     (query_u64 req ''from'' 0)
                                 else a)
                        in attempt a (bjm_push_set L (a_store a) c cfg) ''subscribe failed''
                             (\<lambda>a _. (a\<lparr>a_push := bjm_pusher_add (a_push a) c cfg\<rparr>,
                                reply L (bj_object
                                  [(''consumer'', [EStr c]), (''pattern'', [EStr (ps_pattern cfg)]),
                                   (''callback'', [EStr (ps_callback cfg)]), (''group'', [EStr (ps_group cfg)]),
                                   (''created'', [EBool (found = None)])])))))))"

text \<open>The receipts go too when the subscription is purged.\<close>

definition h_push_delete ::
    "('t, 'l) lib \<Rightarrow> ('t, 'l) sukkal_app \<Rightarrow> sukkal_req \<Rightarrow> ('t, 'l) sukkal_app \<times> sukkal_res" where
  "h_push_delete L a req =
     (case query_consumer req of
        Inl r \<Rightarrow> (a, r)
      | Inr None \<Rightarrow> (a, res_err 400 ''?consumer=<name> is required'')
      | Inr (Some c) \<Rightarrow>
          (case on_store a (bjm_push_delete L (a_store a) c) of
             (a, _, Inl e) \<Rightarrow> (a, refuse e ''delete failed'')
           | (a, deleted, Inr _) \<Rightarrow>
               let a = a\<lparr>a_push := bjm_pusher_remove (a_push a) c\<rparr> in
               attempt a
                 (if query_u64 req ''purge'' 0 \<noteq> 0 then bjm_cursor_delete_consumer L (a_store a) c
                  else (a_store a, Inr 0))
                 ''purge failed''
                 (\<lambda>a purged. (a, reply L (bj_object
                    [(''consumer'', [EStr c]), (''deleted'', [EBool deleted]),
                     (''purged'', [EInt (of_nat purged)])])))))"

section \<open>Consumers and subjects\<close>

definition h_consumers ::
    "('t, 'l) lib \<Rightarrow> ('t, 'l) sukkal_app \<Rightarrow> sukkal_req \<Rightarrow> ('t, 'l) sukkal_app \<times> sukkal_res" where
  "h_consumers L a req =
     (case subject_of req ''/consumers/'' of
        Inl r \<Rightarrow> (a, r)
      | Inr subject \<Rightarrow> listing_reply a (bjm_consumers L (a_store a) subject))"

definition h_unsubscribe ::
    "('t, 'l) lib \<Rightarrow> ('t, 'l) sukkal_app \<Rightarrow> sukkal_req \<Rightarrow> ('t, 'l) sukkal_app \<times> sukkal_res" where
  "h_unsubscribe L a req =
     (case subject_of req ''/consumers/'' of
        Inl r \<Rightarrow> (a, r)
      | Inr subject \<Rightarrow>
          (case query_consumer req of
             Inl r \<Rightarrow> (a, r)
           | Inr None \<Rightarrow> (a, res_err 400 ''?consumer=<name> is required'')
           | Inr (Some c) \<Rightarrow>
               attempt a (bjm_cursor_delete L (a_store a) subject c) ''delete failed''
                 (\<lambda>a deleted. (a, reply L (bj_object
                    [(''subject'', [EStr subject]), (''consumer'', [EStr c]), (''deleted'', [EBool deleted])])))))"

text \<open>What \<open>bjm_consumer_stats\<close> has counted when it returns, with or without an error.\<close>

definition consumer_count :: "('t, 'l) lib \<Rightarrow> ('t, 'l) store \<Rightarrow> string \<Rightarrow> ('t, 'l) store \<times> nat" where
  "consumer_count L st subject =
     (case cursors_open L st of
        (st, Inl e) \<Rightarrow> (st, 0)
      | (st, Inr t) \<Rightarrow>
          (case consumer_range subject of
             (lo, hi, _) \<Rightarrow>
               (st, case bpt_cursor L t (Some lo) (Some hi) of
                      None \<Rightarrow> 0
                    | Some (es, _) \<Rightarrow> fst (fold (stats_step L) es (0, UINT64_MAX)))))"

definition h_info ::
    "('t, 'l) lib \<Rightarrow> ('t, 'l) sukkal_app \<Rightarrow> sukkal_req \<Rightarrow> ('t, 'l) sukkal_app \<times> sukkal_res" where
  "h_info L a req =
     (case subject_of req ''/info/'' of
        Inl r \<Rightarrow> (a, r)
      | Inr subject \<Rightarrow>
          attempt a (bjm_subject_info L (a_store a) subject) ''no such subject''
            (\<lambda>a (base, last_ix, nbytes).
              (case on_store a (consumer_count L (a_store a) subject) of
                 (a, n) \<Rightarrow>
                   (a, reply L (bj_object
                      [(''subject'', [EStr subject]), (''base'', [EInt base]),
                       (''first'', [EInt (if last_ix > base then base + 1 else 0)]),
                       (''last'', [EInt last_ix]), (''messages'', [EInt (last_ix - base)]),
                       (''bytes'', [EInt nbytes]), (''consumers'', [EInt (of_nat n)])])))))"

text \<open>\<open>keep\<close> counts from the end of the log and wins over \<open>before\<close>.\<close>

definition trim_before :: "sukkal_req \<Rightarrow> u64 \<Rightarrow> u64" where
  "trim_before req last_ix =
     (let keep = query_u64 req ''keep'' 0 in
      if keep > 0 then (if last_ix > keep then last_ix - keep + 1 else 1)
      else query_u64 req ''before'' 0)"

definition h_trim ::
    "('t, 'l) lib \<Rightarrow> ('t, 'l) sukkal_app \<Rightarrow> sukkal_req \<Rightarrow> ('t, 'l) sukkal_app \<times> sukkal_res" where
  "h_trim L a req =
     (case subject_of req ''/trim/'' of
        Inl r \<Rightarrow> (a, r)
      | Inr subject \<Rightarrow>
          (case on_store a (bjm_last_index L (a_store a) subject) of
             (a, last_ix) \<Rightarrow>
               let before = trim_before req last_ix in
               if before = 0 then (a, res_err 400 ''?before=<n> or ?keep=<n> is required'')
               else
                 attempt a (bjm_trim L (a_store a) subject before (query_u64 req ''force'' 0 \<noteq> 0)) ''trim failed''
                   (\<lambda>a (new_base, removed).
                     (case on_store a (bjm_last_index L (a_store a) subject) of
                        (a, last_ix) \<Rightarrow>
                          (a, reply L (bj_object
                             [(''subject'', [EStr subject]), (''removed'', [EInt removed]),
                              (''base'', [EInt new_base]), (''last'', [EInt last_ix])]))))))"

section \<open>Queue groups\<close>

definition h_take ::
    "('t, 'l) lib \<Rightarrow> ('t, 'l) sukkal_app \<Rightarrow> sukkal_req \<Rightarrow> ('t, 'l) sukkal_app \<times> sukkal_res" where
  "h_take L a req =
     (case queue_target req ''/take/'' of
        Inl r \<Rightarrow> (a, r)
      | Inr (subject, g) \<Rightarrow>
          attempt a
            (bjm_take L (a_store a) subject g (sint (ucast (query_u64 req ''max'' 1) :: 32 word))
               (query_u64 req ''lease'' UINT64_MAX))
            ''no such subject''
            (\<lambda>a (cnt, out). (a, res_bj [(''X-Sukkal-Count'', dec (int cnt))] 200 out)))"

definition h_job_end ::
    "('t, 'l) lib \<Rightarrow> ('t, 'l) sukkal_app \<Rightarrow> sukkal_req \<Rightarrow> bool \<Rightarrow> ('t, 'l) sukkal_app \<times> sukkal_res" where
  "h_job_end L a req finished =
     (case queue_target req (if finished then ''/done/'' else ''/fail/'') of
        Inl r \<Rightarrow> (a, r)
      | Inr (subject, g) \<Rightarrow>
          let index = query_u64 req ''index'' 0; delay = query_u64 req ''delay'' UINT64_MAX;
              head = [(''subject'', [EStr subject]), (''group'', [EStr g]), (''index'', [EInt index])]
          in if index = 0 then (a, res_err 400 ''?index=<n> is required'')
             else if finished then
               attempt a (bjm_done L (a_store a) subject g index) ''queue update failed''
                 (\<lambda>a held. (a, reply L (bj_object (head @ [(''held'', [EBool held])]))))
             else
               attempt a (bjm_fail L (a_store a) subject g index delay) ''queue update failed''
                 (\<lambda>a found. (a, reply L (bj_object (head @
                    [(''held'', [EBool (found \<noteq> None)]),
                     (''retry_in_ms'', [EInt (case found of None \<Rightarrow> 0 | Some d \<Rightarrow> d)])])))))"

definition h_done ::
    "('t, 'l) lib \<Rightarrow> ('t, 'l) sukkal_app \<Rightarrow> sukkal_req \<Rightarrow> ('t, 'l) sukkal_app \<times> sukkal_res" where
  "h_done L a req = h_job_end L a req True"

definition h_fail ::
    "('t, 'l) lib \<Rightarrow> ('t, 'l) sukkal_app \<Rightarrow> sukkal_req \<Rightarrow> ('t, 'l) sukkal_app \<times> sukkal_res" where
  "h_fail L a req = h_job_end L a req False"

definition is_dead_channel :: "string \<Rightarrow> bool" where
  "is_dead_channel subject \<longleftrightarrow>
     length subject \<ge> length BJM_DEAD_SUFFIX \<and>
     drop (length subject - length BJM_DEAD_SUFFIX) subject = BJM_DEAD_SUFFIX"

definition h_dead ::
    "('t, 'l) lib \<Rightarrow> ('t, 'l) sukkal_app \<Rightarrow> sukkal_req \<Rightarrow> ('t, 'l) sukkal_app \<times> sukkal_res" where
  "h_dead L a req =
     (case subject_of req ''/dead/'' of
        Inl r \<Rightarrow> (a, r)
      | Inr subject \<Rightarrow>
          if is_dead_channel subject
          then (a, res_err 400 ''that is already a dead-letter channel; it does not have one of its own'')
          else
            let dead = subject @ BJM_DEAD_SUFFIX; from = query_u64 req ''from'' 1;
                from = (if from = 0 then 1 else from)
            in if length dead > BJM_SUBJECT_MAX
               then (a, res_err 400 ''subject name too long to have a dead-letter channel'')
               else
                 (case on_store a (bjm_read L (a_store a) dead from (batch_max req)) of
                    (a, Inl e) \<Rightarrow>
                      (a, if e = BJ_ERR_STATE then
                            (case snd (bj_build L (bj_array [])) of
                               None \<Rightarrow> res_err 500 ''encode failed''
                             | Some out \<Rightarrow> res_bj [(''X-Sukkal-Count'', ''0'')] 200 out)
                          else refuse e ''dead-letter read failed'')
                  | (a, Inr got) \<Rightarrow> (a, read_reply 0 None got)))"

definition h_requeue ::
    "('t, 'l) lib \<Rightarrow> ('t, 'l) sukkal_app \<Rightarrow> sukkal_req \<Rightarrow> ('t, 'l) sukkal_app \<times> sukkal_res" where
  "h_requeue L a req =
     (case subject_of req ''/requeue/'' of
        Inl r \<Rightarrow> (a, r)
      | Inr subject \<Rightarrow>
          let index = query_u64 req ''index'' 0 in
          if index = 0
          then (a, res_err 400 (''?index=<n> is required (the index in <subject>.dead, as shown by '' @
                                ''sukkal dead)''))
          else if is_dead_channel subject
          then (a, res_err 400 (''that is already a dead-letter channel; requeue names the original '' @
                                ''subject''))
          else
            (case on_store a (bjm_requeue L (a_store a) subject index) of
               (a, Inl e) \<Rightarrow>
                 (a, if e = BJ_ERR_VERIFY then res_err 422 ''that message is not a dead-letter envelope''
                     else if e = BJ_ERR_RANGE
                     then res_err 416 ''no such index in the dead-letter channel; sukkal dead lists them''
                     else refuse e ''requeue failed'')
             | (a, Inr at) \<Rightarrow>
                 (a, reply L (bj_object
                    [(''subject'', [EStr subject]), (''from_dead_index'', [EInt index]),
                     (''index'', [EInt at])]))))"

definition h_queues ::
    "('t, 'l) lib \<Rightarrow> ('t, 'l) sukkal_app \<Rightarrow> sukkal_req \<Rightarrow> ('t, 'l) sukkal_app \<times> sukkal_res" where
  "h_queues L a req =
     (case subject_of req ''/queue/'' of
        Inl r \<Rightarrow> (a, r)
      | Inr subject \<Rightarrow> listing_reply a (bjm_queues L (a_store a) subject))"

definition h_queue_config ::
    "('t, 'l) lib \<Rightarrow> ('t, 'l) sukkal_app \<Rightarrow> sukkal_req \<Rightarrow> ('t, 'l) sukkal_app \<times> sukkal_res" where
  "h_queue_config L a req =
     (case queue_target req ''/queue/'' of
        Inl r \<Rightarrow> (a, r)
      | Inr (subject, g) \<Rightarrow>
          attempt a
            (bjm_queue_config L (a_store a) subject g
               (query_u64 req ''lease_ms'' BJM_LEASE_DEFAULT_MS)
               (query_u64 req ''max_attempts'' BJM_MAX_ATTEMPTS_DEFAULT)
               (query_u64 req ''backoff_ms'' BJM_BACKOFF_DEFAULT_MS)
               (query_u64 req ''max_backoff_ms'' BJM_MAX_BACKOFF_DEFAULT_MS))
            ''queue config failed'' (\<lambda>a _. h_queues L a req))"

definition h_queue_delete ::
    "('t, 'l) lib \<Rightarrow> ('t, 'l) sukkal_app \<Rightarrow> sukkal_req \<Rightarrow> ('t, 'l) sukkal_app \<times> sukkal_res" where
  "h_queue_delete L a req =
     (case queue_target req ''/queue/'' of
        Inl r \<Rightarrow> (a, r)
      | Inr (subject, g) \<Rightarrow>
          (case on_store a (bjm_queue_delete L (a_store a) subject g) of
             (a, _, Inl e) \<Rightarrow> (a, refuse e ''queue delete failed'')
           | (a, deleted, Inr _) \<Rightarrow>
               (a, reply L (bj_object
                  [(''subject'', [EStr subject]), (''group'', [EStr g]), (''deleted'', [EBool deleted])]))))"

section \<open>Policies\<close>

definition h_policy_get ::
    "('t, 'l) lib \<Rightarrow> ('t, 'l) sukkal_app \<Rightarrow> sukkal_req \<Rightarrow> ('t, 'l) sukkal_app \<times> sukkal_res" where
  "h_policy_get L a req =
     (case subject_of req ''/policy/'' of
        Inl r \<Rightarrow> (a, r)
      | Inr subject \<Rightarrow>
          attempt a (bjm_policy_get L (a_store a) subject) ''policy lookup failed''
            (\<lambda>a found.
              let p = (case found of None \<Rightarrow> policy_zero | Some p \<Rightarrow> p) in
              (a, reply L (bj_object
                 [(''subject'', [EStr subject]), (''policy'', [EBool (found \<noteq> None)]),
                  (''max_age_s'', [EInt (p_max_age_s p)]), (''max_messages'', [EInt (p_max_messages p)]),
                  (''max_bytes'', [EInt (p_max_bytes p)]),
                  (''ignore_consumers'', [EBool (p_ignore_consumers p)])]))))"

definition policy_of_query :: "sukkal_req \<Rightarrow> bjm_policy" where
  "policy_of_query req =
     \<lparr>p_max_age_s = query_u64 req ''max_age_s'' 0, p_max_messages = query_u64 req ''max_messages'' 0,
      p_max_bytes = query_u64 req ''max_bytes'' 0,
      p_ignore_consumers = (query_u64 req ''ignore_consumers'' 0 \<noteq> 0)\<rparr>"

definition h_policy_put ::
    "('t, 'l) lib \<Rightarrow> ('t, 'l) sukkal_app \<Rightarrow> sukkal_req \<Rightarrow> ('t, 'l) sukkal_app \<times> sukkal_res" where
  "h_policy_put L a req =
     (case subject_of req ''/policy/'' of
        Inl r \<Rightarrow> (a, r)
      | Inr subject \<Rightarrow>
          let p = policy_of_query req in
          if p_max_age_s p = 0 \<and> p_max_messages p = 0 \<and> p_max_bytes p = 0
          then (a, res_err 400 ''a policy needs at least one of max_age_s, max_messages, max_bytes'')
          else attempt a (bjm_policy_set L (a_store a) subject p) ''policy write failed''
                 (\<lambda>a _. h_policy_get L a req))"

definition h_policy_delete ::
    "('t, 'l) lib \<Rightarrow> ('t, 'l) sukkal_app \<Rightarrow> sukkal_req \<Rightarrow> ('t, 'l) sukkal_app \<times> sukkal_res" where
  "h_policy_delete L a req =
     (case subject_of req ''/policy/'' of
        Inl r \<Rightarrow> (a, r)
      | Inr subject \<Rightarrow>
          attempt a (bjm_policy_clear L (a_store a) subject) ''policy delete failed''
            (\<lambda>a cleared. (a, reply L (bj_object
               [(''subject'', [EStr subject]), (''cleared'', [EBool cleared])]))))"

definition h_policies ::
    "('t, 'l) lib \<Rightarrow> ('t, 'l) sukkal_app \<Rightarrow> sukkal_req \<Rightarrow> ('t, 'l) sukkal_app \<times> sukkal_res" where
  "h_policies L a req = listing_reply a (bjm_policy_list L (a_store a))"

section \<open>Discovery and health\<close>

text \<open>A pattern that does not fit its buffer is no pattern at all.\<close>

definition h_subjects ::
    "('t, 'l) lib \<Rightarrow> ('t, 'l) sukkal_app \<Rightarrow> sukkal_req \<Rightarrow> ('t, 'l) sukkal_app \<times> sukkal_res" where
  "h_subjects L a req =
     (let pattern = (case rq_query req ''pattern'' (BJM_SUBJECT_MAX + 1) of Found p \<Rightarrow> Some p | _ \<Rightarrow> None) in
      if (case pattern of None \<Rightarrow> False | Some p \<Rightarrow> \<not> bjm_pattern_valid p)
      then (a, res_err 400 (''invalid pattern: '.'-separated tokens, '*' for one token, '>' for the rest '' @
                            ''(last only)''))
      else
        (case bjm_store_listing (a_store a) of
           Inl _ \<Rightarrow> (a, res_err 500 ''listing failed'')
         | Inr names \<Rightarrow>
             (case bjm_subjects L names pattern of
                Inl e \<Rightarrow> (a, refuse e ''listing failed'') | Inr out \<Rightarrow> (a, res_bj [] 200 out))))"

definition h_health ::
    "('t, 'l) lib \<Rightarrow> ('t, 'l) sukkal_app \<Rightarrow> sukkal_req \<Rightarrow> ('t, 'l) sukkal_app \<times> sukkal_res" where
  "h_health L a req =
     (a, reply L (bj_object
        [(''ok'', [EBool True]),
         (''backend'', [EStr (case a_backend a of None \<Rightarrow> ''none'' | Some b \<Rightarrow> b)]),
         (''subjects'', [EInt (case bjm_store_listing (a_store a) of
                                 Inl _ \<Rightarrow> 0 | Inr names \<Rightarrow> of_nat (bjm_subject_count names))]),
         (''connections'', [EInt (case a_conns a of None \<Rightarrow> 0 | Some n \<Rightarrow> word_of_int n)]),
         (''uptime_s'', [EInt (bjm_store_now_ms (a_store a) div 1000 - a_started_s a)]),
         (''dedup_window_ms'', [EInt (bjm_dedup_window (a_store a))])]))"

section \<open>Dispatch\<close>

definition h_not_found :: sukkal_res where
  "h_not_found =
     \<lparr>rs_status = 404, rs_headers = [(''Content-Type'', ''text/plain; charset=utf-8'')],
      rs_body = concat (map text_line
        [''no such route. available:'',
         ''  POST   /pub/<subject>[?id=][&headers=1][&ack_subject=&ack_consumer=&ack_index=]'',
         ''  PUT    /push/<subject|pattern>?consumer=&callback='' @
           ''[&group=&max=&token=&batch=&start=last|&from=]'',
         ''  DELETE /push?consumer='', ''  GET    /push'', ''  GET    /sub/<subject>?from=|consumer='',
         ''  POST   /ack/<subject>?consumer=&index='', ''  POST   /trim/<subject>?before=|keep=[&force=1]'',
         ''  POST   /take/<subject>?group=&max=&lease='', ''  POST   /done/<subject>?group=&index='',
         ''  POST   /fail/<subject>?group=&index=[&delay=]'', ''  GET    /dead/<subject>[?from=&max=]'',
         ''  POST   /requeue/<subject>?index=   (from <subject>.dead)'', ''  GET    /queue/<subject>'',
         ''  PUT    /queue/<subject>?group=&lease_ms=&max_attempts=&backoff_ms='',
         ''  DELETE /queue/<subject>?group='', ''  GET    /consumers/<subject>'',
         ''  DELETE /consumers/<subject>?consumer='', ''  GET    /info/<subject>'',
         ''  GET    /subjects[?pattern=]'', ''  GET    /health''])\<rparr>"

fun run_route ::
    "('t, 'l) lib \<Rightarrow> route \<Rightarrow> ('t, 'l) sukkal_app \<Rightarrow> sukkal_req \<Rightarrow> ('t, 'l) sukkal_app \<times> sukkal_res" where
  "run_route L h_publish_route = h_publish L"
| "run_route L h_push_put_route = h_push_put L"
| "run_route L h_push_delete_route = h_push_delete L"
| "run_route L h_push_list_route = h_push_list L"
| "run_route L h_subscribe_route = h_subscribe L"
| "run_route L h_ack_route = h_ack L"
| "run_route L h_trim_route = h_trim L"
| "run_route L h_take_route = h_take L"
| "run_route L h_done_route = h_done L"
| "run_route L h_fail_route = h_fail L"
| "run_route L h_dead_route = h_dead L"
| "run_route L h_requeue_route = h_requeue L"
| "run_route L h_queues_route = h_queues L"
| "run_route L h_queue_config_route = h_queue_config L"
| "run_route L h_queue_delete_route = h_queue_delete L"
| "run_route L h_consumers_route = h_consumers L"
| "run_route L h_unsubscribe_route = h_unsubscribe L"
| "run_route L h_info_route = h_info L"
| "run_route L h_policy_get_route = h_policy_get L"
| "run_route L h_policy_put_route = h_policy_put L"
| "run_route L h_policy_delete_route = h_policy_delete L"
| "run_route L h_policies_route = h_policies L"
| "run_route L h_subjects_route = h_subjects L"
| "run_route L h_health_route = h_health L"

definition sukkal_dispatch ::
    "('t, 'l) lib \<Rightarrow> ('t, 'l) sukkal_app \<Rightarrow> sukkal_req \<Rightarrow> ('t, 'l) sukkal_app \<times> sukkal_res" where
  "sukkal_dispatch L a req =
     (case route_lookup (rq_method req) (rq_path req) of
        (Some h, _) \<Rightarrow> run_route L h a req
      | (None, True) \<Rightarrow> (a, res_err 405 ''405 Method Not Allowed'')
      | (None, False) \<Rightarrow> (a, h_not_found))"

end
