(* ===== verification/Server_Properties.thy ===== *)
theory Server_Properties
  imports Handlers Push_Engine
begin

text \<open>
  Properties every handler shares: the shape of its answer, and that the delivery engine hears of
  every publish.
\<close>

section \<open>The shape of an answer\<close>

definition answered :: "sukkal_res \<Rightarrow> bool" where
  "answered r \<longleftrightarrow>
     (if rs_status r = 200 then rs_headers r \<noteq> [] \<and> last (rs_headers r) = (''Content-Type'', SUKKAL_MEDIA_TYPE)
      else rs_status r \<in> {400, 404, 405, 415, 416, 422, 500, 503} \<and>
           rs_headers r = [(''Content-Type'', ''text/plain; charset=utf-8'')] \<and> rs_body r \<noteq> [])"

lemma answered_err: "code \<in> {400, 404, 405, 415, 416, 422, 500, 503} \<Longrightarrow> answered (res_err code msg)"
  by (auto simp: answered_def res_err_def text_line_def)

lemma answered_bj [simp]: "answered (res_bj hdrs 200 out)"
  by (simp add: answered_def res_bj_def)

lemma answered_refuse [simp]: "answered (refuse e msg)"
  by (cases e) (simp_all add: refuse_def answered_err)

lemma answered_reply [simp]: "answered (reply L evs)"
  by (simp add: reply_def answered_err split: option.split)

lemma answered_attempt:
  "(\<And>a v. answered (snd (k a v))) \<Longrightarrow> answered (snd (attempt a x msg k))"
  by (simp add: attempt_def split: prod.split sum.split)

lemma answered_listing [simp]: "answered (snd (listing_reply a x))"
  unfolding listing_reply_def by (rule answered_attempt) simp

lemma answered_checks:
  "subject_of req p = Inl r \<Longrightarrow> answered r"
  "pattern_of req p = Inl r \<Longrightarrow> answered r"
  "query_consumer req = Inl r \<Longrightarrow> answered r"
  "query_group req = Inl r \<Longrightarrow> answered r"
  "callback_of req = Inl r \<Longrightarrow> answered r"
  "token_of req = Inl r \<Longrightarrow> answered r"
  "publish_checks L req = Inl r \<Longrightarrow> answered r"
  by (auto simp: subject_of_def pattern_of_def query_consumer_def query_group_def callback_of_def token_of_def
      publish_checks_def Let_def answered_err split: if_split_asm query_answer.split_asm)

lemma answered_targets: "queue_target req p = Inl r \<Longrightarrow> answered r" "push_config req pat = Inl r \<Longrightarrow> answered r"
  by (auto simp: queue_target_def push_config_def Let_def answered_err answered_checks
      split: sum.split_asm option.split_asm)

lemma answered_append: "append_once L a s ty b d = (a', Inl r) \<Longrightarrow> answered r"
  by (auto simp: append_once_def split: prod.split_asm sum.split_asm option.split_asm)

lemma answered_ack: "ack_input L a req = (a', Inl r) \<Longrightarrow> answered r"
  by (auto simp: ack_input_def Let_def answered_err
      split: prod.split_asm sum.split_asm query_answer.split_asm if_split_asm)

lemma answered_place: "consumer_place L a req s c = (a', Inl r) \<Longrightarrow> answered r"
  by (auto simp: consumer_place_def Let_def split: prod.split_asm sum.split_asm option.split_asm)

lemmas answered_rules = answered_checks answered_targets answered_append answered_ack answered_place

lemma answered_publish: "answered (snd (h_publish L a req))"
  by (auto simp: h_publish_def dest: answered_rules split: sum.split prod.split option.split)

lemma answered_read: "answered (snd (read_from L a req s base acked))"
proof -
  have read: "answered (read_reply i j x)" for i j x by (cases x) (simp add: read_reply_def)
  have "answered (snd (case x of (a, Inl e) \<Rightarrow> (a, if e = BJ_ERR_RANGE then res_err 416 m else refuse e m')
      | (a, Inr got) \<Rightarrow> (a, read_reply i j got)))" for x :: "'c \<times> (nat \<times> bytes \<times> u64) res" and m m' i j
    by (cases x; cases "snd x") (auto simp: read answered_err)
  then show ?thesis unfolding read_from_def Let_def .
qed

lemma answered_subscribe: "answered (snd (h_subscribe L a req))"
proof -
  have "answered (res_err 404 m)" for m by (simp add: answered_err)
  then show ?thesis
    by (auto simp: h_subscribe_def answered_read dest: answered_rules split: sum.split prod.split option.split)
qed

lemma answered_queue_listing: "answered (snd (h_queues L a req))" "answered (snd (h_policy_get L a req))"
  by (auto simp: h_queues_def h_policy_get_def Let_def dest: answered_rules intro!: answered_attempt split: sum.split)

lemma answered_job: "answered (snd (h_job_end L a req b))"
  by (auto simp: h_job_end_def Let_def answered_err dest: answered_rules intro!: answered_attempt split: sum.split)

lemma answered_rest:
  "answered (snd (h_ack L a req))" "answered (snd (h_push_list L a req))" "answered (snd (h_push_put L a req))"
  "answered (snd (h_push_delete L a req))" "answered (snd (h_consumers L a req))"
  "answered (snd (h_unsubscribe L a req))" "answered (snd (h_info L a req))" "answered (snd (h_trim L a req))"
  "answered (snd (h_take L a req))" "answered (snd (h_queue_config L a req))"
  "answered (snd (h_queue_delete L a req))" "answered (snd (h_policy_put L a req))"
  "answered (snd (h_policy_delete L a req))" "answered (snd (h_policies L a req))"
  "answered (snd (h_subjects L a req))" "answered (snd (h_health L a req))"
  by (auto simp: h_ack_def h_push_list_def h_push_put_def h_push_delete_def h_consumers_def h_unsubscribe_def
      h_info_def h_trim_def h_take_def h_queue_config_def h_queue_delete_def h_policy_put_def h_policy_delete_def
      h_policies_def h_subjects_def h_health_def Let_def answered_err answered_queue_listing
      dest: answered_rules intro!: answered_attempt split: sum.split prod.split option.split)

lemma answered_dead: "answered (snd (h_dead L a req))" "answered (snd (h_requeue L a req))"
proof -
  have read: "answered (read_reply i j x)" for i j x by (cases x) (simp add: read_reply_def)
  have bad: "answered (res_err 400 m)" "answered (res_err 416 m)" "answered (res_err 422 m)" "answered (res_err 500 m)"
    for m by (simp_all add: answered_err)
  show "answered (snd (h_dead L a req))" "answered (snd (h_requeue L a req))"
    by (auto simp: h_dead_def h_requeue_def Let_def read bad dest: answered_rules
        split: sum.split prod.split option.split)
qed

text \<open>
  C27: Every request is answered in one of two ways: status 200 with a body of the media type, or an
  error status the protocol knows, in plain text and never empty.
\<close>

theorem dispatch_answers: "answered (snd (sukkal_dispatch L a req))"
proof -
  have run: "answered (snd (run_route L h a req))" for h
    by (cases h) (simp_all add: answered_publish answered_subscribe answered_queue_listing answered_rest
        answered_dead h_done_def h_fail_def answered_job)
  have "answered h_not_found" "answered (res_err 405 m)" for m
    by (simp_all add: h_not_found_def answered_def res_err_def text_line_def)
  with run show ?thesis by (simp add: sukkal_dispatch_def split: prod.split option.split bool.split)
qed

end
