(* ===== verification/Server_Engine.thy ===== *)
theory Server_Engine
  imports Server_Properties
begin

text \<open>
  No publish is missed by the delivery engine: whatever a request makes the store publish, directly,
  by requeueing or by burying a job, the engine has the subject in its list and is told to work.
\<close>

section \<open>What operations announce\<close>

definition grows :: "('t, 'l) store \<Rightarrow> ('t, 'l) store \<Rightarrow> bool" where
  "grows st st' \<longleftrightarrow> (\<exists>ps. st_pubs st' = st_pubs st @ ps)"

lemma growsI: "st_pubs st' = st_pubs st \<Longrightarrow> grows st st'"
  by (simp add: grows_def)

lemma subject_get_pubs: "subject_get L st n c = (st', r) \<Longrightarrow> st_pubs st' = st_pubs st"
  by (rule pubs_kept(1))

lemma reads_pubs:
  "bjm_read L st n f m = (st', r1) \<Longrightarrow> st_pubs st' = st_pubs st"
  "bjm_last_index L st n = (st', r2) \<Longrightarrow> st_pubs st' = st_pubs st"
  "bjm_subject_info L st n = (st', r3) \<Longrightarrow> st_pubs st' = st_pubs st"
  by (auto simp: bjm_read_def bjm_last_index_def bjm_subject_info_def Let_def dest: subject_get_pubs
      split: prod.splits sum.splits)

lemma opens_pubs:
  "cursors_open L st = (st', r1) \<Longrightarrow> st_pubs st' = st_pubs st"
  "push_open L st = (st', r2) \<Longrightarrow> st_pubs st' = st_pubs st"
  "policy_open L st = (st', r3) \<Longrightarrow> st_pubs st' = st_pubs st"
  by (auto simp: cursors_open_def push_open_def policy_open_def split: prod.splits)

lemma cursor_pubs:
  "bjm_cursor_get L st s c = (st', r1) \<Longrightarrow> st_pubs st' = st_pubs st"
  "bjm_cursor_set L st s c i = (st', r2) \<Longrightarrow> st_pubs st' = st_pubs st"
  "bjm_cursor_sync L st = (st', r3) \<Longrightarrow> st_pubs st' = st_pubs st"
  "bjm_cursor_delete L st s c = (st', r4) \<Longrightarrow> st_pubs st' = st_pubs st"
  "bjm_cursor_delete_consumer L st c = (st', r5) \<Longrightarrow> st_pubs st' = st_pubs st"
  "bjm_consumers L st s = (st', r6) \<Longrightarrow> st_pubs st' = st_pubs st"
  "consumer_count L st s = (st', r7) \<Longrightarrow> st_pubs st' = st_pubs st"
proof -
  show get: "bjm_cursor_get L st s c = (st', r1) \<Longrightarrow> st_pubs st' = st_pubs st" for st st' r1
    by (auto simp: bjm_cursor_get_def dest: opens_pubs split: prod.splits sum.splits option.splits)
  show "bjm_cursor_set L st s c i = (st', r2) \<Longrightarrow> st_pubs st' = st_pubs st"
    by (auto simp: bjm_cursor_set_def dest: get split: prod.splits sum.splits if_splits)
  show "bjm_cursor_sync L st = (st', r3) \<Longrightarrow> st_pubs st' = st_pubs st"
    by (auto simp: bjm_cursor_sync_def split: slot.splits prod.splits)
  show "bjm_cursor_delete L st s c = (st', r4) \<Longrightarrow> st_pubs st' = st_pubs st"
    by (auto simp: bjm_cursor_delete_def dest: opens_pubs split: prod.splits sum.splits option.splits)
  show "bjm_cursor_delete_consumer L st c = (st', r5) \<Longrightarrow> st_pubs st' = st_pubs st"
    by (auto simp: bjm_cursor_delete_consumer_def dest: opens_pubs split: prod.splits sum.splits option.splits if_splits)
  show "bjm_consumers L st s = (st', r6) \<Longrightarrow> st_pubs st' = st_pubs st"
    by (auto simp: bjm_consumers_def dest!: opens_pubs reads_pubs split: prod.splits sum.splits option.splits)
  show "consumer_count L st s = (st', r7) \<Longrightarrow> st_pubs st' = st_pubs st"
    by (auto simp: consumer_count_def dest: opens_pubs split: prod.splits sum.splits)
qed

lemma push_pubs:
  "bjm_push_get L st c = (st', r1) \<Longrightarrow> st_pubs st' = st_pubs st"
  "bjm_push_set L st c cfg = (st', r2) \<Longrightarrow> st_pubs st' = st_pubs st"
  "bjm_push_delete L st c = (st', r3) \<Longrightarrow> st_pubs st' = st_pubs st"
  by (auto simp: bjm_push_get_def bjm_push_set_def bjm_push_delete_def dest: opens_pubs
      split: prod.splits sum.splits option.splits)

lemma policy_pubs:
  "bjm_policy_get L st s = (st', r1) \<Longrightarrow> st_pubs st' = st_pubs st"
  "bjm_policy_set L st s pol = (st', r2) \<Longrightarrow> st_pubs st' = st_pubs st"
  "bjm_policy_clear L st s = (st', r3) \<Longrightarrow> st_pubs st' = st_pubs st"
  "bjm_policy_list L st = (st', r4) \<Longrightarrow> st_pubs st' = st_pubs st"
  by (auto simp: bjm_policy_get_def bjm_policy_set_def bjm_policy_clear_def bjm_policy_list_def policy_uncache_def
      upd_sub_def Let_def dest!: opens_pubs split: prod.splits sum.splits option.splits if_splits)

lemma queue_pubs:
  "queue_release L st s g i dr d = (st', r1) \<Longrightarrow> st_pubs st' = st_pubs st"
  "bjm_done L st s g i = (st', r2) \<Longrightarrow> st_pubs st' = st_pubs st"
  "bjm_fail L st s g i d = (st', r3) \<Longrightarrow> st_pubs st' = st_pubs st"
  "bjm_queue_config L st s g l m b x = (st', r4) \<Longrightarrow> st_pubs st' = st_pubs st"
  "bjm_queue_delete L st s g = (st', r5) \<Longrightarrow> st_pubs st' = st_pubs st"
  "bjm_queues L st s = (st', r6) \<Longrightarrow> st_pubs st' = st_pubs st"
proof -
  show rel: "queue_release L st s g i dr d = (st', r1) \<Longrightarrow> st_pubs st' = st_pubs st" for st st' dr d r1
    by (auto simp: queue_release_def dest!: pubs_kept split: prod.splits sum.splits option.splits if_splits)
  show "bjm_done L st s g i = (st', r2) \<Longrightarrow> st_pubs st' = st_pubs st"
    "bjm_fail L st s g i d = (st', r3) \<Longrightarrow> st_pubs st' = st_pubs st"
    by (auto simp: bjm_done_def bjm_fail_def dest: rel split: prod.splits sum.splits)
  show "bjm_queue_config L st s g l m b x = (st', r4) \<Longrightarrow> st_pubs st' = st_pubs st"
    by (auto simp: bjm_queue_config_def dest!: pubs_kept split: prod.splits sum.splits)
  show "bjm_queue_delete L st s g = (st', r5) \<Longrightarrow> st_pubs st' = st_pubs st"
    by (auto simp: bjm_queue_delete_def dest: pubs_kept split: prod.splits sum.splits option.splits)
  show "bjm_queues L st s = (st', r6) \<Longrightarrow> st_pubs st' = st_pubs st"
    by (auto simp: bjm_queues_def dest!: pubs_kept reads_pubs split: prod.splits sum.splits option.splits)
qed

lemma dedup_frame:
  "bjm_dedup_lookup L st s d = (st', r1) \<Longrightarrow>
     st_pubs st' = st_pubs st \<and> st_subs st' = st_subs st \<and> st_files st' = st_files st \<and> st_cursors st' = st_cursors st"
  "bjm_dedup_record L st s d i = (st', r2) \<Longrightarrow>
     st_pubs st' = st_pubs st \<and> st_subs st' = st_subs st \<and> st_files st' = st_files st \<and> st_cursors st' = st_cursors st"
proof -
  define same where "same x y \<longleftrightarrow> st_pubs y = st_pubs x \<and> st_subs y = st_subs x \<and> st_files y = st_files x \<and>
      st_cursors y = st_cursors x"
    for x y :: "('a, 'b) store"
  have put: "same x (dd_put st g sl) = same x st" for x st g sl
    by (simp add: dd_put_def same_def)
  have trans: "same x y \<Longrightarrow> same y z \<Longrightarrow> same x z" for x y z
    by (simp add: same_def)
  have op: "policy_open L st = (st', r) \<Longrightarrow> same st st'" for st st' r
    by (auto simp: policy_open_def same_def split: prod.splits)
  have save: "same x (dd_state_save L st) = same x st" for x st
    by (auto simp: dd_state_save_def same_def policy_open_def split: sum.split prod.split)
  have fields: "same x (st\<lparr>st_dd_gen := g\<rparr>) = same x st" "same x (st\<lparr>st_dd_rotated_ms := t\<rparr>) = same x st"
    "same x (st\<lparr>st_dd_open := b\<rparr>) = same x st" for x st g t b
    by (simp_all add: same_def)
  have refl: "same x x" for x by (simp add: same_def)
  have reset: "dd_reset L st g = (st', r) \<Longrightarrow> same st st'" for st st' g r
    by (auto simp: dd_reset_def put refl split: sum.splits prod.splits)
  have at: "dd_open_at L st g = (st', r) \<Longrightarrow> same st st'" for st st' g r
    by (auto simp: dd_open_at_def put refl split: sum.splits prod.splits)
  have recover: "same st (dd_recover L st)" for st
    by (auto simp: dd_recover_def Let_def fields refl dest: op split: sum.split option.split prod.split)
  have open': "dedup_open L st = (st', r) \<Longrightarrow> same st st'" for st st' r
    by (auto simp: dedup_open_def Let_def refl save fields dest!: at intro: trans [OF _ trans [OF _ recover]] trans
        split: if_splits sum.splits prod.splits)
  have rot: "same st (dedup_rotate L st)" for st
    by (auto simp: dedup_rotate_def Let_def save fields refl dest!: reset intro: trans split: if_split sum.split prod.split)
  have "bjm_dedup_lookup L st s d = (st', r1) \<Longrightarrow> same st st'"
    by (auto simp: bjm_dedup_lookup_def Let_def put dest!: open' intro: trans [OF _ rot]
        split: prod.splits sum.splits option.splits)
  moreover have "bjm_dedup_record L st s d i = (st', r2) \<Longrightarrow> same st st'"
    by (auto simp: bjm_dedup_record_def put dest!: open' split: prod.splits sum.splits option.splits)
  ultimately show "bjm_dedup_lookup L st s d = (st', r1) \<Longrightarrow>
      st_pubs st' = st_pubs st \<and> st_subs st' = st_subs st \<and> st_files st' = st_files st \<and> st_cursors st' = st_cursors st"
    "bjm_dedup_record L st s d i = (st', r2) \<Longrightarrow>
      st_pubs st' = st_pubs st \<and> st_subs st' = st_subs st \<and> st_files st' = st_files st \<and> st_cursors st' = st_cursors st"
    by (simp_all add: same_def)
qed

lemmas dedup_pubs = dedup_frame [THEN conjunct1]

lemma trim_pubs: "bjm_trim L st s i force = (st', r) \<Longrightarrow> st_pubs st' = st_pubs st"
proof -
  have sub: "st_pubs (upd_sub st n f) = st_pubs st" for st :: "('t, 'l) store" and n f
    by (simp add: upd_sub_def)
  have stats: "bjm_consumer_stats L st s = (st', r) \<Longrightarrow> st_pubs st' = st_pubs st" for st st' r
    by (auto simp: bjm_consumer_stats_def dest!: opens_pubs split: prod.splits sum.splits option.splits)
  have floor: "bjm_queue_floor L st s = (st', r) \<Longrightarrow> st_pubs st' = st_pubs st" for st st' r
    by (auto simp: bjm_queue_floor_def dest!: pubs_kept split: prod.splits sum.splits option.splits)
  have protect: "protect_bound L st s = (st', r) \<Longrightarrow> st_pubs st' = st_pubs st" for st st' r
    by (auto simp: protect_bound_def Let_def dest!: stats floor split: prod.splits sum.splits if_splits)
  have target: "trim_target L st s i l f = (st', r) \<Longrightarrow> st_pubs st' = st_pubs st" for st st' i l f r
    by (auto simp: trim_target_def Let_def dest!: protect split: prod.splits sum.splits if_splits)
  have reopen: "trim_reopen L st s = (st', r) \<Longrightarrow> st_pubs st' = st_pubs st" for st st' r
    by (auto simp: trim_reopen_def upd_sub_def split: prod.splits sum.splits option.splits)
  have prune: "st_pubs (marks_prune L st s i) = st_pubs st" for st i
    by (auto simp: marks_prune_def marks_store_def Let_def split: prod.split sum.split option.split slot.split)
  have swap: "trim_swap L st s a b c d = (st', r) \<Longrightarrow> st_pubs st' = st_pubs st" for st st' a b c d r
    by (auto simp: trim_swap_def sub prune Let_def dest!: reopen
        split: prod.splits sum.splits option.splits slot.splits if_splits)
  have adopt: "trim_adopt L st s a b c d = (st', r) \<Longrightarrow> st_pubs st' = st_pubs st" for st st' a b c d r
    by (auto simp: trim_adopt_def Let_def dest!: swap
        split: prod.splits sum.splits option.splits if_splits ns_file.splits)
  show "bjm_trim L st s i force = (st', r) \<Longrightarrow> st_pubs st' = st_pubs st"
    by (auto simp: bjm_trim_def Let_def dest!: target adopt subject_get_pubs
        split: prod.splits sum.splits option.splits if_splits)
qed

lemma publish_grows: "bjm_publish L st n ty b = (st', r) \<Longrightarrow> grows st st'"
  using publish_pubs [of L st n ty b st' r] by (auto simp: grows_def)

lemma requeue_grows: "bjm_requeue L st s i = (st', r) \<Longrightarrow> grows st st'"
proof -
  assume rq: "bjm_requeue L st s i = (st', r)"
  have step: "st_pubs st1 = st_pubs st \<Longrightarrow> grows st1 st2 \<Longrightarrow> grows st st2" for st1 st2
    by (simp add: grows_def)
  from rq show "grows st st'"
    by (auto simp: bjm_requeue_def Let_def dest!: subject_get_pubs publish_grows intro: growsI step
        split: prod.splits sum.splits option.splits if_splits)
qed

lemma take_grows: "bjm_take L st s g n ms = (st', r) \<Longrightarrow> grows st st'"
  using take_pubs [of L st s g n ms st' r] by (auto simp: grows_def)

section \<open>What the engine hears\<close>

text \<open>
  A request calls the engine's functions in some order. In one stretch of it publishes are only added,
  and each of them is in the engine's list afterwards and has set it to work.
\<close>

inductive engine_calls :: "pusher \<Rightarrow> pusher \<Rightarrow> bool" where
  none: "engine_calls p p"
| notified: "engine_calls p q \<Longrightarrow> engine_calls p (bjm_pusher_notify q n)"
| awake: "engine_calls p q \<Longrightarrow> engine_calls p (q\<lparr>p_work := True\<rparr>)"
| added: "engine_calls p q \<Longrightarrow> engine_calls p (bjm_pusher_add q c cfg)"
| removed: "engine_calls p q \<Longrightarrow> engine_calls p (bjm_pusher_remove q c)"

lemma engine_calls_trans: "engine_calls q r \<Longrightarrow> engine_calls p q \<Longrightarrow> engine_calls p r"
  by (induction rule: engine_calls.induct) (auto intro: engine_calls.intros)

lemma engine_calls_inv: "engine_calls p q \<Longrightarrow> engine_inv p \<Longrightarrow> engine_inv q"
  by (induction rule: engine_calls.induct)
    (auto simp: add_inv remove_inv bjm_pusher_notify_def names_add_inv)

definition heard_by :: "pusher \<Rightarrow> (string \<times> u64) list \<Rightarrow> pusher \<Rightarrow> bool" where
  "heard_by p ps p' \<longleftrightarrow>
     set (p_names p) \<subseteq> set (p_names p') \<and>
     list_all (\<lambda>(n, i). n \<in> set (p_names p') \<or> take BJM_SUBJECT_MAX n \<in> set (p_names p')) ps \<and>
     (p_work p \<or> ps \<noteq> [] \<longrightarrow> p_work p') \<and> engine_calls p p'"

definition stretch :: "('t, 'l) sukkal_app \<Rightarrow> ('t, 'l) sukkal_app \<Rightarrow> bool" where
  "stretch a a' \<longleftrightarrow>
     (\<exists>ps. st_pubs (a_store a') = st_pubs (a_store a) @ ps \<and> heard_by (a_push a) ps (a_push a'))"

lemma heard_refl [simp]: "heard_by p [] p"
  by (simp add: heard_by_def engine_calls.none)

lemma heard_trans: "heard_by p ps p' \<Longrightarrow> heard_by p' qs p'' \<Longrightarrow> heard_by p (ps @ qs) p''"
  by (auto simp: heard_by_def list_all_iff intro: engine_calls_trans)

lemma stretch_refl [simp]: "stretch a a"
  by (auto simp: stretch_def)

lemma stretch_trans: "stretch a b \<Longrightarrow> stretch b c \<Longrightarrow> stretch a c"
  unfolding stretch_def by (metis (no_types, lifting) append.assoc heard_trans)

lemma heard_notify: "heard_by p [(n, i)] (bjm_pusher_notify p n)"
  using engine_calls.notified [OF engine_calls.none, of p n]
  by (auto simp: heard_by_def bjm_pusher_notify_def names_add_def)

lemma heard_hear: "heard_by p ps (hear p ps)"
proof (induction ps arbitrary: p)
  case (Cons x ps)
  obtain n i where x: "x = (n, i)" by (cases x)
  have "hear p (x # ps) = hear (bjm_pusher_notify p n) ps" by (simp add: hear_def x)
  with heard_trans [OF heard_notify [of p n i] Cons.IH] show ?case by (simp add: x)
qed (simp add: hear_def)

lemma on_store_stretch: "grows (a_store a) st' \<Longrightarrow> stretch a (fst (on_store a (st', r)))"
  by (auto simp: stretch_def grows_def on_store_def heard_hear)

text \<open>A store operation that announces nothing, and one that may.\<close>

lemma quiet: "st_pubs (fst x) = st_pubs (a_store a) \<Longrightarrow> on_store a x = (a', v) \<Longrightarrow> stretch a a'"
  using on_store_stretch [of a "fst x" "snd x"] by (auto intro: growsI)

lemma loud: "grows (a_store a) (fst x) \<Longrightarrow> on_store a x = (a', v) \<Longrightarrow> stretch a a'"
  using on_store_stretch [of a "fst x" "snd x"] by auto

lemmas quiet_ops =
  cursor_pubs [OF surjective_pairing, THEN quiet] push_pubs [OF surjective_pairing, THEN quiet]
  policy_pubs [OF surjective_pairing, THEN quiet] queue_pubs [OF surjective_pairing, THEN quiet]
  reads_pubs [OF surjective_pairing, THEN quiet] dedup_pubs [OF surjective_pairing, THEN quiet]
  trim_pubs [OF surjective_pairing, THEN quiet]

lemmas loud_ops =
  publish_grows [OF surjective_pairing, THEN loud] requeue_grows [OF surjective_pairing, THEN loud]
  take_grows [OF surjective_pairing, THEN loud]

lemmas op_stretch = quiet_ops loud_ops

lemma stretch_attempt:
  assumes "\<And>a1 v. on_store a x = (a1, v) \<Longrightarrow> stretch a a1" and "\<And>a1 v. stretch a1 (fst (k a1 v))"
  shows "stretch a (fst (attempt a x msg k))"
proof -
  obtain a1 v where x: "on_store a x = (a1, v)" by (cases "on_store a x")
  show ?thesis
    using assms(1) [OF x] stretch_trans [OF assms(1) [OF x] assms(2)] x
    by (cases v) (simp_all add: attempt_def)
qed

text \<open>Two calls in a row.\<close>

lemma stretch_then:
  assumes "on_store a x = (a1, v)" and "stretch a a1" and "stretch a1 (fst (k (a1, v)))"
  shows "stretch a (fst (k (on_store a x)))"
  using assms stretch_trans by simp

lemma stretch_append: "append_once L a s ty b d = (a', r) \<Longrightarrow> stretch a a'"
proof -
  assume ap: "append_once L a s ty b d = (a', r)"
  let ?look = "case d of None \<Rightarrow> (a, Inr None) | Some i \<Rightarrow> on_store a (bjm_dedup_lookup L (a_store a) s i)"
  obtain a1 v where look: "?look = (a1, v)" by (cases ?look)
  have s1: "stretch a a1" using look by (auto split: option.split_asm dest: op_stretch)
  obtain a2 w where pub: "on_store a1 (bjm_publish L (a_store a1) s ty b) = (a2, w)"
    by (cases "on_store a1 (bjm_publish L (a_store a1) s ty b)")
  have s2: "stretch a a2" by (rule stretch_trans [OF s1 loud_ops(1) [OF pub]])
  have s3: "stretch a2 (case d of None \<Rightarrow> a2 | Some i \<Rightarrow> fst (on_store a2 (bjm_dedup_record L (a_store a2) s i j)))" for j
    by (cases d) (auto intro: op_stretch [OF surjective_pairing])
  from ap look pub show "stretch a a'"
    using s1 s2 stretch_trans [OF s2 s3]
    by (auto simp: append_once_def split: sum.split_asm option.split_asm)
qed

lemma stretch_ack: "ack_input L a req = (a', r) \<Longrightarrow> stretch a a'"
  by (auto simp: ack_input_def Let_def dest: op_stretch
      intro: stretch_trans [OF op_stretch(2) op_stretch(3) [OF surjective_pairing]]
      split: query_answer.split_asm if_split_asm prod.split_asm sum.split_asm)

lemma stretch_publish: "stretch a (fst (h_publish L a req))"
  by (auto simp: h_publish_def dest: stretch_append stretch_ack intro: stretch_trans
      split: sum.split prod.split)

lemma stretch_place: "consumer_place L a req s c = (a', r) \<Longrightarrow> stretch a a'"
proof -
  let ?ack = "query_u64 req ''ack'' 0"
  assume place: "consumer_place L a req s c = (a', r)"
  obtain a1 v1 where one: "(if ?ack \<noteq> 0 then on_store a (bjm_cursor_set L (a_store a) s c ?ack) else (a, Inr ())) = (a1, v1)"
    by (cases "if ?ack \<noteq> 0 then on_store a (bjm_cursor_set L (a_store a) s c ?ack) else (a, Inr ())")
  have s1: "stretch a a1" using one by (auto split: if_split_asm dest: op_stretch)
  obtain a2 v2 where two: "on_store a1 (bjm_cursor_get L (a_store a1) s c) = (a2, v2)"
    by (cases "on_store a1 (bjm_cursor_get L (a_store a1) s c)")
  have s2: "stretch a a2" by (rule stretch_trans [OF s1 op_stretch(1) [OF two]])
  let ?start = "rq_query req ''start'' 8 = Found ''last''"
  obtain a3 j where three: "(if ?start then on_store a2 (bjm_last_index L (a_store a2) s) else (a2, 0)) = (a3, j)"
    by (cases "if ?start then on_store a2 (bjm_last_index L (a_store a2) s) else (a2, 0)")
  have s3: "stretch a a3" using three s2 by (auto split: if_split_asm dest: op_stretch intro: stretch_trans)
  obtain a4 v4 where four: "on_store a3 (bjm_cursor_set L (a_store a3) s c j) = (a4, v4)"
    by (cases "on_store a3 (bjm_cursor_set L (a_store a3) s c j)")
  have s4: "stretch a a4" by (rule stretch_trans [OF s3 op_stretch(2) [OF four]])
  from place one two three four s1 s2 s4 show "stretch a a'"
    by (auto simp: consumer_place_def Let_def split: sum.split_asm option.split_asm)
qed

lemma stretch_read: "stretch a (fst (read_from L a req s base acked))"
proof -
  have "stretch a (fst (case x of (a', Inl e) \<Rightarrow> (a', f e) | (a', Inr got) \<Rightarrow> (a', g got)))"
    if "\<And>a' v. x = (a', v) \<Longrightarrow> stretch a a'" for x :: "('c, 'd) sukkal_app \<times> ('f + 'e)" and f g and a :: "('c, 'd) sukkal_app"
    using that by (cases x; cases "snd x") auto
  note step = this
  show ?thesis unfolding read_from_def Let_def by (rule step) (rule op_stretch)
qed

lemma stretch_subscribe: "stretch a (fst (h_subscribe L a req))"
  by (auto simp: h_subscribe_def dest: op_stretch stretch_place intro: stretch_trans [OF _ stretch_read] stretch_trans
      split: sum.split prod.split option.split)

lemma stretch_listing: "(\<And>a1 v. on_store a x = (a1, v) \<Longrightarrow> stretch a a1) \<Longrightarrow> stretch a (fst (listing_reply a x))"
  unfolding listing_reply_def by (rule stretch_attempt) simp_all

lemma stretch_listings:
  "stretch a (fst (h_consumers L a req))" "stretch a (fst (h_queues L a req))" "stretch a (fst (h_policies L a req))"
  by (auto simp: h_consumers_def h_queues_def h_policies_def dest: op_stretch intro!: stretch_listing split: sum.split)

lemma stretch_simple:
  "stretch a (fst (h_unsubscribe L a req))" "stretch a (fst (h_take L a req))" "stretch a (fst (h_job_end L a req b))"
  "stretch a (fst (h_policy_get L a req))" "stretch a (fst (h_policy_delete L a req))"
  "stretch a (fst (h_queue_delete L a req))" "stretch a (fst (h_dead L a req))" "stretch a (fst (h_requeue L a req))"
  by (auto simp: h_unsubscribe_def h_take_def h_job_end_def h_policy_get_def h_policy_delete_def h_queue_delete_def
      h_dead_def h_requeue_def Let_def dest: op_stretch intro!: stretch_attempt split: sum.split prod.split option.split)

lemma stretch_ack_request: "stretch a (fst (h_ack L a req))"
proof -
  have tail: "stretch a (fst (case on_store (fst (on_store a (bjm_cursor_sync L (a_store a)))) (f (fst (on_store a (bjm_cursor_sync L (a_store a))))) of
      (a, v) \<Rightarrow> (a, g v)))" if "\<And>a. st_pubs (fst (f a)) = st_pubs (a_store a)" for a :: "('a, 'b) sukkal_app" and f g
    using stretch_trans [OF op_stretch(3) [OF surjective_pairing] quiet [OF that surjective_pairing]]
    by (simp add: case_prod_beta)
  show ?thesis
    unfolding h_ack_def Let_def
    by (auto split: sum.split option.split intro!: stretch_attempt tail dest: op_stretch
        simp: cursor_pubs [OF surjective_pairing])
qed

lemma stretch_info: "stretch a (fst (h_info L a req))"
  unfolding h_info_def by (auto split: sum.split prod.split intro!: stretch_attempt dest: op_stretch)

lemma stretch_trim: "stretch a (fst (h_trim L a req))"
proof -
  have tail: "stretch a (fst (attempt a (bjm_trim L (a_store a) s i f) msg
      (\<lambda>a v. case v of (new_base, removed) \<Rightarrow> (case on_store a (bjm_last_index L (a_store a) s) of (a, j) \<Rightarrow> (a, g new_base removed j)))))"
    for a :: "('a, 'b) sukkal_app" and s i f msg g
    by (auto intro!: stretch_attempt dest: op_stretch split: prod.split)
  show ?thesis
    unfolding h_trim_def Let_def
    by (auto split: sum.split prod.split dest: op_stretch intro: stretch_trans [OF _ tail])
qed

lemma stretch_configs: "stretch a (fst (h_queue_config L a req))" "stretch a (fst (h_policy_put L a req))"
  unfolding h_queue_config_def h_policy_put_def Let_def
  by (auto split: sum.split prod.split intro!: stretch_attempt stretch_listings stretch_simple dest: op_stretch)

text \<open>Registering and removing: the engine changes by hand.\<close>

lemma seed_pubs: "st_pubs (fold (seed_one L c pat b i) ns st) = st_pubs st"
proof -
  have one: "st_pubs (seed_one L c pat b i n st) = st_pubs st" for st n
    by (auto simp: seed_one_def cursor_pubs(2) [OF surjective_pairing] dest!: cursor_pubs(1) reads_pubs
        split: if_splits prod.split sum.split option.split)
  show ?thesis by (induction ns arbitrary: st) (simp_all add: one)
qed

lemma stretch_seed: "stretch a (seed_app L a c pat b i)"
  unfolding stretch_def
  by (rule exI [of _ "[]"])
    (auto simp: seed_app_def bjm_pusher_seed_def Let_def heard_by_def seed_pubs cursor_pubs [OF surjective_pairing]
      split: prod.split intro: engine_calls.intros)

lemma stretch_add: "stretch a (a\<lparr>a_push := bjm_pusher_add (a_push a) c cfg\<rparr>)"
  using engine_calls.added [OF engine_calls.none, of "a_push a" c cfg]
  by (auto simp: stretch_def heard_by_def bjm_pusher_add_def load_one_def split: option.splits)

lemma stretch_remove: "stretch a (a\<lparr>a_push := bjm_pusher_remove (a_push a) c\<rparr>)"
  using engine_calls.removed [OF engine_calls.none, of "a_push a" c]
  by (auto simp: stretch_def heard_by_def bjm_pusher_remove_def psub_free_def Let_def split: option.splits)

lemma stretch_put:
  "stretch a (fst (attempt a (bjm_push_set L (a_store a) c cfg) m
     (\<lambda>a v. (a\<lparr>a_push := bjm_pusher_add (a_push a) c cfg\<rparr>, r))))"
  by (rule stretch_attempt) (auto intro: stretch_add dest: op_stretch)

lemma stretch_register:
  "stretch a (fst (let a = (if b then seed_app L a c pat e i else a) in
     attempt a (bjm_push_set L (a_store a) c cfg) m
       (\<lambda>a v. (a\<lparr>a_push := bjm_pusher_add (a_push a) c cfg\<rparr>, r))))"
  by (cases b) (simp_all add: Let_def stretch_put stretch_trans [OF stretch_seed stretch_put])

lemma stretch_push_put: "stretch a (fst (h_push_put L a req))"
  unfolding h_push_put_def
  by (simp split: sum.split option.split) (intro allI impI stretch_attempt stretch_register op_stretch; assumption)

lemma stretch_push_delete: "stretch a (fst (h_push_delete L a req))"
proof -
  have del: "stretch a (fst (attempt a (if b then bjm_cursor_delete_consumer L (a_store a) c else (a_store a, Inr 0)) m
      (\<lambda>a v. (a, g v))))" for a :: "('a, 'b) sukkal_app" and b c m g
    by (auto intro!: stretch_attempt dest: op_stretch simp: on_store_def hear_def)
  have "stretch a (fst (let a = a\<lparr>a_push := bjm_pusher_remove (a_push a) c\<rparr> in
      attempt a (if b then bjm_cursor_delete_consumer L (a_store a) c else (a_store a, Inr 0)) m
      (\<lambda>a v. (a, g v))))" for a :: "('a, 'b) sukkal_app" and b c m g
    unfolding Let_def by (rule stretch_trans [OF stretch_remove del])
  then show ?thesis
    unfolding h_push_delete_def
    by (auto split: sum.split option.split prod.split dest: op_stretch intro: stretch_trans simp del: Let_def)
qed

lemma dispatch_stretch: "sukkal_dispatch L a req = (a', r) \<Longrightarrow> stretch a a'"
proof -
  have "stretch a (fst (run_route L h a req))" for h
    by (cases h) (simp_all add: stretch_publish stretch_push_put stretch_push_delete stretch_subscribe
        stretch_ack_request stretch_trim stretch_simple h_done_def h_fail_def stretch_listings stretch_configs
        stretch_info h_push_list_def h_subjects_def h_health_def Let_def split: sum.split)
  then have "stretch a (fst (sukkal_dispatch L a req))"
    by (simp add: sukkal_dispatch_def split: prod.split option.split bool.split)
  then show "sukkal_dispatch L a req = (a', r) \<Longrightarrow> stretch a a'" by simp
qed

text \<open>
  C17: The delivery engine hears of everything a request publishes, directly, by requeueing or by
  burying a job: publishes are only ever added, each one's subject is in the engine's list when the
  request has been answered, the engine has been told to work, no subject is forgotten, and the
  engine stays consistent.
\<close>

theorem dispatch_wakes_engine:
  assumes "sukkal_dispatch L a req = (a', r)"
  shows "\<exists>ps. st_pubs (a_store a') = st_pubs (a_store a) @ ps \<and>
           set (p_names (a_push a)) \<subseteq> set (p_names (a_push a')) \<and>
           list_all (\<lambda>(n, i). n \<in> set (p_names (a_push a')) \<or>
                              take BJM_SUBJECT_MAX n \<in> set (p_names (a_push a'))) ps \<and>
           (p_work (a_push a) \<or> ps \<noteq> [] \<longrightarrow> p_work (a_push a')) \<and>
           (engine_inv (a_push a) \<longrightarrow> engine_inv (a_push a'))"
  using dispatch_stretch [OF assms] engine_calls_inv [of "a_push a" "a_push a'"]
  by (auto simp: stretch_def heard_by_def)

end
