(* ===== verification/Store_Properties.thy ===== *)
theory Store_Properties
  imports Retention Reference_Library
begin

text \<open>
  The properties of publishing, receipts and retention, each with a concrete run of the
  model that shows its hypotheses can hold.
\<close>

section \<open>Publishing\<close>

text \<open>
  C6: A publish that succeeds appends exactly its message at the end of its subject's log, answers
  the index it got there, leaves every other subject, the receipts and the queue groups alone, and
  tells the delivery engine once, with that index; one that fails tells it nothing.
\<close>

theorem publish_appends:
  assumes "lib_laws L" and "bjm_publish L st n ty p = (st', r)"
  shows "(\<forall>i. r = Inr i \<longrightarrow> msgs L st' n = msgs L st n @ [(ty, p)] \<and>
            unat i = base_of L st n + length (msgs L st n) + 1) \<and>
         (\<forall>m. base_of L st' m = base_of L st m \<and> (m \<noteq> n \<longrightarrow> msgs L st' m = msgs L st m)) \<and>
         receipt L st' = receipt L st \<and> group_rec L st' = group_rec L st \<and>
         st_pubs st' = st_pubs st @ (case r of Inr i \<Rightarrow> if st_on_pub st then [(n, i)] else [] | Inl _ \<Rightarrow> [])"
proof -
  note ll = lib_lawsD [OF assms(1)]
  have f: "st' = st\<lparr>st_subs := st_subs st', st_files := st_files st', st_policy := st_policy st',
                  st_pubs := st_pubs st'\<rparr>"
    and pubs: "st_pubs st' = st_pubs st @ (case r of Inr i \<Rightarrow> if st_on_pub st then [(n, i)] else [] | Inl _ \<Rightarrow> [])"
    using publish_frame [OF ll(2) assms(2)] by blast+
  have "st_cursors st' = st_cursors st" "st_queues st' = st_queues st" by (subst f, simp)+
  then have "receipt L st' = receipt L st" "group_rec L st' = group_rec L st"
    by (auto intro: receipt_cong group_rec_cong)
  with publish_logs [OF ll(3,2) assms(2)] pubs show ?thesis by blast
qed

definition pub_run :: "(rtree, rlog) store" where
  "pub_run = fst (bjm_publish ref_lib (fst (bjm_publish ref_lib (ref_store 100) ''a'' 1 [7])) ''a'' 1 [8])"

theorem publish_appends_witness:
  "msgs ref_lib (fst (bjm_publish ref_lib pub_run ''a'' 16 [9])) ''a'' = msgs ref_lib pub_run ''a'' @ [(16, [9])]"
proof -
  have "snd (bjm_publish ref_lib pub_run ''a'' 16 [9]) = Inr 3" by code_simp
  with publish_appends [OF ref_lib_laws, of pub_run "''a''" 16 "[9]"] show ?thesis
    by (metis prod.collapse)
qed

section \<open>Receipts\<close>

lemma run_acks_lib: "fst (fst (run_acks (receipts_ack s c) (L, st) js)) = L"
proof (induction js arbitrary: st)
  case (Cons j js)
  obtain st1 r where "bjm_cursor_set L st s c j = (st1, r)" by (cases "bjm_cursor_set L st s c j")
  then have "receipts_ack s c (L, st) j = ((L, st1), r)" by (simp add: receipts_ack_def)
  with Cons.IH [of st1] show ?case
    by (cases "run_acks (receipts_ack s c) (L, st1) js") auto
qed simp

text \<open>
  C14: However acknowledgements arrive, reordered or repeated, the receipt ends at the highest index
  acknowledged, and never moves back.
\<close>

theorem receipt_is_highest_ack:
  assumes "lib_laws L" and "\<forall>i \<in> set js. exact_int i" and "js \<noteq> []"
    and "run_acks (receipts_ack a c) (L, st) js = ((L', st'), True)"
  shows "receipt L' st' a c = Some (fold max js (case receipt L st a c of None \<Rightarrow> 0 | Some j \<Rightarrow> j))"
  using store_receipts.acks_max [of "(L, st)" js a c "(L', st')"] assms lib_lawsD [OF assms(1)]
  by (simp add: receipts_ok_def)

theorem receipt_is_highest_ack_witness:
  "receipt ref_lib (snd (fst (run_acks (receipts_ack ''a'' ''c'') (ref_lib, pub_run) [2, 7, 3]))) ''a'' ''c'' = Some 7"
proof -
  define run where "run = run_acks (receipts_ack ''a'' ''c'') (ref_lib, pub_run) [2, 7, 3]"
  have "snd run = True" unfolding run_def by code_simp
  moreover have "fst (fst run) = ref_lib" unfolding run_def by (rule run_acks_lib)
  ultimately have r: "run = ((ref_lib, snd (fst run)), True)" by (metis prod.collapse)
  have none: "receipt ref_lib pub_run ''a'' ''c'' = None" by code_simp
  have "receipt ref_lib (snd (fst run)) ''a'' ''c'' =
      Some (fold max [2, 7, 3] (case receipt ref_lib pub_run ''a'' ''c'' of None \<Rightarrow> 0 | Some j \<Rightarrow> j))"
    by (rule receipt_is_highest_ack [OF ref_lib_laws _ _ trans [OF run_def [symmetric] r]])
      (simp_all add: exact_int_def)
  then show ?thesis by (simp add: none run_def)
qed

text \<open>
  An acknowledgement changes no other receipt: not another consumer's on the subject, and not
  the consumer's on another subject.
\<close>

theorem receipt_frame:
  assumes "lib_laws L" and "exact_int i" and "bjm_cursor_set L st s c i = (st', r)"
    and "bjm_subject_valid s" and "bjm_subject_valid s'" and "(s', c') \<noteq> (s, c)"
  shows "receipt L st' s' c' = receipt L st s' c'"
  using cursor_set_other [OF lib_lawsD(1,2) [OF assms(1)] assms(2-6)] .

theorem receipt_frame_witness:
  "receipt ref_lib (fst (bjm_cursor_set ref_lib pub_run ''a'' ''c'' 2)) ''a'' ''d'' = receipt ref_lib pub_run ''a'' ''d''"
proof -
  have "bjm_subject_valid ''a''" by code_simp
  from receipt_frame [OF ref_lib_laws _ surjective_pairing this this] show ?thesis
    by (simp add: exact_int_def)
qed

text \<open>
  Any index is accepted: a receipt can be set beyond the end of the log, and the messages
  published up to it are then never owed to that consumer. Nothing in the store bounds it.
\<close>

theorem receipt_beyond_end:
  "receipt ref_lib (fst (bjm_cursor_set ref_lib pub_run ''a'' ''c'' 900)) ''a'' ''c'' = Some 900 \<and>
   snd (bjm_last_index ref_lib (fst (bjm_cursor_set ref_lib pub_run ''a'' ''c'' 900)) ''a'') = 2"
proof
  show "receipt ref_lib (fst (bjm_cursor_set ref_lib pub_run ''a'' ''c'' 900)) ''a'' ''c'' = Some 900"
    by code_simp
  show "snd (bjm_last_index ref_lib (fst (bjm_cursor_set ref_lib pub_run ''a'' ''c'' 900)) ''a'') = 2"
    by code_simp
qed

section \<open>Retention\<close>

text \<open>
  C5: A trim that is not forced never drops a message somebody is owed. It drops a prefix of the
  subject's log and keeps the rest as it is; nothing above the receipt of any subscription and
  nothing a queue group has leased or not reached yet is in the prefix; and it changes no other
  subject, no receipt and no group.
\<close>

theorem trim_keeps_owed:
  assumes "lib_laws L" and "bjm_trim L st s before False = (st', r)"
  shows "\<exists>k. base_of L st' s = base_of L st s + k \<and> msgs L st' s = drop k (msgs L st s) \<and>
           k \<le> length (msgs L st s) \<and> base_of L st s + k \<le> max (base_of L st s) (unat before - 1) \<and>
           (k > 0 \<longrightarrow> (\<forall>c a. receipt L st s c = Some a \<longrightarrow> base_of L st s + k \<le> unat a) \<and>
              (\<forall>g q. g \<noteq> [] \<longrightarrow> group_rec L st s g = Some q \<longrightarrow> base_of L st s + k \<le> unat (owed_floor q))) \<and>
           (\<forall>m. m \<noteq> s \<longrightarrow> base_of L st' m = base_of L st m \<and> msgs L st' m = msgs L st m) \<and>
           receipt L st' = receipt L st \<and> group_rec L st' = group_rec L st"
proof -
  obtain k where k: "trimmed_by L st s before False st' r k"
    using trimD [OF lib_lawsD(3,2) [OF assms(1)] assms(2)] .
  have "base_of L st s + k \<le> max (base_of L st s) (unat before - 1)"
    using k by (cases "k > 0") (simp_all add: trimmed_by_def)
  with k show ?thesis unfolding trimmed_by_def by (intro exI [of _ k]) simp
qed

definition trim_run :: "(rtree, rlog) store" where
  "trim_run = fst (bjm_cursor_set ref_lib pub_run ''a'' ''c'' 1)"

theorem trim_keeps_owed_witness:
  "base_of ref_lib (fst (bjm_trim ref_lib trim_run ''a'' 3 False)) ''a'' \<le> 1"
proof -
  have rec: "receipt ref_lib trim_run ''a'' ''c'' = Some 1" by code_simp
  have base: "base_of ref_lib trim_run ''a'' = 0" by code_simp
  define st' where "st' = fst (bjm_trim ref_lib trim_run ''a'' 3 False)"
  obtain k where k: "base_of ref_lib st' ''a'' = base_of ref_lib trim_run ''a'' + k"
      "k > 0 \<longrightarrow> (\<forall>c a. receipt ref_lib trim_run ''a'' c = Some a \<longrightarrow> base_of ref_lib trim_run ''a'' + k \<le> unat a)"
    using trim_keeps_owed [OF ref_lib_laws surjective_pairing [of "bjm_trim ref_lib trim_run ''a'' 3 False"],
        folded st'_def]
    by (elim exE conjE) (rule that, assumption, simp only: imp_conjR conj_imp_eq_imp_imp simp_thms)
  have "k \<le> 1"
  proof (cases "k = 0")
    case False
    with k(2) have "base_of ref_lib trim_run ''a'' + k \<le> unat (1 :: u64)" using rec by blast
    then have "k \<le> unat (1 :: u64)" by (simp only: base add_0)
    then show ?thesis by simp
  qed simp
  with k(1) base show ?thesis by (simp only: st'_def [symmetric])
qed

text \<open>
  A forced trim that succeeds drops exactly the messages below \<open>before\<close>, and answers the new
  base and how many there were.
\<close>

theorem trim_forced_exact:
  assumes "lib_laws L" and "bjm_trim L st s before True = (st', Inr (b, n))"
  shows "base_of L st' s = max (base_of L st s) (min (unat before - 1) (base_of L st s + length (msgs L st s))) \<and>
         msgs L st' s = drop (base_of L st' s - base_of L st s) (msgs L st s) \<and>
         unat b = base_of L st' s \<and> unat n = base_of L st' s - base_of L st s"
proof -
  obtain k where "trimmed_by L st s before True st' (Inr (b, n)) k"
    using trimD [OF lib_lawsD(3,2) [OF assms(1)] assms(2)] .
  then have k: "base_of L st' s = base_of L st s + k" "msgs L st' s = drop k (msgs L st s)" "unat n = k"
      "unat b = base_of L st s + k"
      "base_of L st s + k = max (base_of L st s) (min (unat before - 1) (base_of L st s + length (msgs L st s)))"
    unfolding trimmed_by_def by simp_all
  show ?thesis
    using k(2-4) by (simp only: k(1) k(5) [symmetric] diff_add_inverse simp_thms)
qed

theorem trim_forced_exact_witness:
  "msgs ref_lib (fst (bjm_trim ref_lib trim_run ''a'' 2 True)) ''a'' =
     drop (base_of ref_lib (fst (bjm_trim ref_lib trim_run ''a'' 2 True)) ''a'' - base_of ref_lib trim_run ''a'')
       (msgs ref_lib trim_run ''a'')"
proof -
  have "snd (bjm_trim ref_lib trim_run ''a'' 2 True) = Inr (1, 1)" by code_simp
  with trim_forced_exact [OF ref_lib_laws] show ?thesis by (metis prod.collapse)
qed

text \<open>
  C16: A retention pass over all policies, whatever fails on the way: every subject keeps its log
  but for a prefix; a subject without a policy keeps all of it; a subject whose policy does not
  ignore consumers loses nothing its subscriptions or groups are owed; receipts, groups and
  policies stay.
\<close>

theorem retention_keeps_owed:
  assumes "lib_laws L" and "bjm_retention_run L st now = (st', r)"
  shows "receipt L st' = receipt L st \<and> group_rec L st' = group_rec L st \<and> policy_of L st' = policy_of L st \<and>
         (\<forall>m. \<exists>k. k \<le> length (msgs L st m) \<and> base_of L st' m = base_of L st m + k \<and>
            msgs L st' m = drop k (msgs L st m) \<and>
            (k > 0 \<longrightarrow> (\<exists>p. policy_of L st m = Some p \<and>
                            (\<not> p_ignore_consumers p \<longrightarrow> owed_above L st m (base_of L st m + k)))))"
  using retention_kept [OF lib_lawsD(3,2) [OF assms(1)] assms(2)] unfolding kept_def .

theorem retention_keeps_owed_witness:
  "\<exists>k. msgs ref_lib (fst (bjm_retention_run ref_lib trim_run 1000)) ''a'' = drop k (msgs ref_lib trim_run ''a'')"
  using retention_keeps_owed [OF ref_lib_laws surjective_pairing [of "bjm_retention_run ref_lib trim_run 1000"]]
  by blast

end
