(* ===== verification/Request_Properties.thy ===== *)
theory Request_Properties
  imports Requests
begin

text \<open>
  Properties of the request seam: query strings parse back, envelopes are recognised by their shape,
  and the routing table does not depend on its order.
\<close>

section \<open>Query strings\<close>

text \<open>A query string the way a client writes one: percent-encoded values joined by ampersands.\<close>

definition hex_char :: "int \<Rightarrow> char" where
  "hex_char d = (if d < 10 then char_of (48 + d) else char_of (55 + d))"

definition unreserved :: "char \<Rightarrow> bool" where
  "unreserved c \<longleftrightarrow> token_char c \<or> c \<in> {CHR ''.'', CHR ''~''}"

definition percent :: "char \<Rightarrow> string" where
  "percent c =
     (if unreserved c then [c]
      else [CHR ''%'', hex_char (of_char c div 16), hex_char (of_char c mod 16)])"

definition url_encode :: "string \<Rightarrow> string" where
  "url_encode v = concat (map percent v)"

fun query_string :: "(string \<times> string) list \<Rightarrow> string" where
  "query_string [] = []"
| "query_string [(k, v)] = k @ CHR ''='' # url_encode v"
| "query_string ((k, v) # kvs) = k @ CHR ''='' # url_encode v @ CHR ''&'' # query_string kvs"

lemma unhex_hex: "0 \<le> d \<Longrightarrow> d < 16 \<Longrightarrow> unhex (hex_char d) = d"
proof -
  assume "0 \<le> d" "d < 16"
  then have "d \<in> {0,1,2,3,4,5,6,7,8,9,10,11,12,13,14,15}" by (simp only: insert_iff empty_iff) presburger
  then show ?thesis by (elim insertE emptyE; hypsubst; code_simp)
qed

lemma hex_char_plain: "0 \<le> d \<Longrightarrow> d < 16 \<Longrightarrow> hex_char d \<noteq> CHR ''&'' \<and> hex_char d \<noteq> CHR ''=''"
proof -
  assume "0 \<le> d" "d < 16"
  then have "d \<in> {0,1,2,3,4,5,6,7,8,9,10,11,12,13,14,15}" by (simp only: insert_iff empty_iff) presburger
  then show ?thesis by (elim insertE emptyE; hypsubst; code_simp)
qed

lemma unreserved_plain: "unreserved c \<Longrightarrow> c \<noteq> CHR ''%'' \<and> c \<noteq> CHR ''+'' \<and> c \<noteq> CHR ''&''"
  by (auto simp: unreserved_def token_char_def less_eq_char_def)

lemma nibbles: "0 \<le> (of_char c :: int) div 16 \<and> (of_char c :: int) div 16 < 16 \<and>
    0 \<le> (of_char c :: int) mod 16 \<and> (of_char c :: int) mod 16 < 16"
proof -
  have "(of_char c :: int) < 256" "0 \<le> (of_char c :: int)" by (cases c; simp add: of_char_def)+
  then show ?thesis by auto
qed

lemma decode_percent: "url_decode (percent c @ r) = c # url_decode r"
proof (cases "unreserved c")
  case True
  then show ?thesis using unreserved_plain [OF True] by (simp add: percent_def)
next
  case False
  have "(of_char c :: int) div 16 * 16 + of_char c mod 16 = of_char c" by presburger
  then show ?thesis using False nibbles [of c] by (simp add: percent_def unhex_hex)
qed

lemma decode_encode: "url_decode (url_encode v) = v"
  by (induction v) (simp_all add: url_encode_def decode_percent)

lemma encode_plain: "CHR ''&'' \<notin> set (url_encode v)"
proof -
  have "CHR ''&'' \<notin> set (percent c)" for c
    using unreserved_plain [of c] hex_char_plain nibbles [of c] by (auto simp: percent_def dest: sym)
  then show ?thesis by (auto simp: url_encode_def)
qed

definition plain_key :: "string \<Rightarrow> bool" where
  "plain_key k \<longleftrightarrow> CHR ''&'' \<notin> set k \<and> CHR ''='' \<notin> set k"

lemma seek_pair:
  assumes "plain_key k"
  shows "query_seek key (k @ CHR ''='' # url_encode v) = (if k = key then Some (url_encode v) else None)"
    and "query_seek key (k @ CHR ''='' # url_encode v @ CHR ''&'' # r) =
           (if k = key then Some (url_encode v) else query_seek key r)"
proof -
  let ?p = "k @ CHR ''='' # url_encode v"
  have name: "takeWhile (\<lambda>c. c \<noteq> CHR ''='') ?p = k" "?p \<noteq> k"
    using assms by (auto simp: plain_key_def takeWhile_tail)
  have "CHR ''&'' \<notin> set ?p" using assms encode_plain by (simp add: plain_key_def)
  then have seg: "takeWhile (\<lambda>c. c \<noteq> CHR ''&'') ?p = ?p" "dropWhile (\<lambda>c. c \<noteq> CHR ''&'') ?p = []"
    "takeWhile (\<lambda>c. c \<noteq> CHR ''&'') (?p @ CHR ''&'' # r) = ?p"
    "dropWhile (\<lambda>c. c \<noteq> CHR ''&'') (?p @ CHR ''&'' # r) = CHR ''&'' # r"
    by (rule sep_split)+
  show "query_seek key ?p = (if k = key then Some (url_encode v) else None)"
    by (subst query_seek.simps) (simp only: seg name Let_def, simp)
  have "query_seek key (?p @ CHR ''&'' # r) = (if k = key then Some (url_encode v) else query_seek key r)"
    by (subst query_seek.simps) (simp only: seg name Let_def, simp)
  then show "query_seek key (k @ CHR ''='' # url_encode v @ CHR ''&'' # r) =
      (if k = key then Some (url_encode v) else query_seek key r)" by simp
qed

lemma seek_query:
  "list_all plain_key (map fst kvs) \<Longrightarrow>
     query_seek key (query_string kvs) = map_option url_encode (map_of kvs key)"
  by (induction kvs rule: query_string.induct) (simp_all add: query_seek.simps [of _ "[]"] seek_pair)

text \<open>
  C29: Parameters survive the query string: whatever a client percent-encodes, the reader hands the
  handler back byte for byte, the first value when a key is repeated, and says so when the key is
  absent or the value does not fit the handler's buffer.
\<close>

theorem query_roundtrip:
  assumes "list_all plain_key (map fst kvs)" and "list_all (\<lambda>kv. CHR 0x00 \<notin> set (snd kv)) kvs"
  shows "sukkal_query_from_string (Some (query_string kvs)) key n =
           (case map_of kvs key of None \<Rightarrow> Missing
            | Some v \<Rightarrow> if length v < n then Found v else Unfit (take (n - 1) v))"
proof (cases "map_of kvs key")
  case None
  then show ?thesis by (simp add: sukkal_query_from_string_def seek_query [OF assms(1)])
next
  case (Some v)
  then have "CHR 0x00 \<notin> set v" using assms(2) map_of_SomeD [OF Some] by (auto simp: list_all_iff)
  moreover from this have "CHR 0x00 \<notin> set (take (n - 1) v)" using in_set_takeD by fast
  ultimately show ?thesis
    using Some by (simp add: sukkal_query_from_string_def seek_query [OF assms(1)] decode_encode c_str_id)
qed

theorem query_roundtrip_witness:
  "sukkal_query_from_string (Some (query_string [(''a'', ''1''), (''callback'', ''http://h/?x=1&y'')])) ''callback'' 513 =
     Found ''http://h/?x=1&y''"
proof -
  have "list_all plain_key (map fst [(''a'', ''1''), (''callback'', ''http://h/?x=1&y'')])"
      "list_all (\<lambda>kv. CHR 0x00 \<notin> set (snd kv)) [(''a'', ''1''), (''callback'', ''http://h/?x=1&y'')]"
    by code_simp+
  from query_roundtrip [OF this] show ?thesis by simp
qed

text \<open>A number a client prints is read back, up to the largest.\<close>

lemma query_number:
  assumes "rq_query req key 32 = Found (dec_u64 v)"
  shows "query_u64 req key d = v"
proof -
  have all: "list_all is_digit (dec_u64 v)" and ne: "dec_u64 v \<noteq> []"
    by (simp_all add: dec_u64_def dec_digits dec_nonempty)
  then obtain x xs where x: "dec_u64 v = x # xs" "is_digit x" by (cases "dec_u64 v") auto
  have "dropWhile is_space (dec_u64 v) = dec_u64 v" "take 1 (dec_u64 v) \<noteq> ''-''" "take 1 (dec_u64 v) \<noteq> ''+''"
    using x digit_not_sign [OF x(2)] by auto
  moreover have "takeWhile is_digit (dec_u64 v) = dec_u64 v" and "dropWhile is_digit (dec_u64 v) = []"
    using all by (simp_all add: takeWhile_eq_all_conv dropWhile_eq_Nil_conv list_all_iff)
  ultimately have "strtoull_end (dec_u64 v) = Some []"
    using ne x unfolding strtoull_end_def Let_def by simp
  moreover have "strtoull (dec_u64 v) = v" by (rule strtoull_dec(2) [of "CHR '' ''"]) code_simp
  ultimately show ?thesis using assms by (simp add: query_u64_def)
qed

section \<open>Envelopes\<close>

definition shape_visible :: "ev \<Rightarrow> bool" where
  "shape_visible e \<longleftrightarrow> (case e of EKey _ \<Rightarrow> False | EArrEnd \<Rightarrow> False | EObjEnd \<Rightarrow> False | _ \<Rightarrow> True)"

lemma shape_skips: "fold shape_step evs x = fold shape_step (filter shape_visible evs) x"
proof (induction evs arbitrary: x)
  case (Cons e evs)
  then show ?case by (cases e; cases x) (simp_all add: shape_visible_def)
qed simp

lemma shape_rest: "2 \<le> seen \<Longrightarrow> snd (fold shape_step evs (seen, ok)) = ok"
proof (induction evs arbitrary: seen)
  case (Cons e evs)
  then show ?case by (cases e) simp_all
qed simp

lemma shape_first: "shape_visible e \<Longrightarrow> shape_step e (0, 0) = (1, if e = EArr 2 then 1 else 0)"
  by (cases e) (simp_all add: shape_visible_def)

definition shape_second :: "ev \<Rightarrow> nat \<Rightarrow> nat" where
  "shape_second e k = (case e of EArr _ \<Rightarrow> k | EObj _ \<Rightarrow> if k \<noteq> 0 then 2 else k | _ \<Rightarrow> 0)"

lemma shape_next: "shape_visible e \<Longrightarrow> shape_step e (Suc 0, k) = (2, shape_second e k)"
  by (cases e) (simp_all add: shape_visible_def shape_second_def)

lemma shape_second_2: "k \<le> 1 \<Longrightarrow> shape_second e k = 2 \<longleftrightarrow> k = 1 \<and> (\<exists>n. e = EObj n)"
  by (cases e) (auto simp: shape_second_def)

text \<open>
  The envelope check accepts exactly the bodies that decode to an array of two elements whose
  first one is an object, whatever they hold.
\<close>

theorem envelope_shape_iff:
  "bjm_envelope_shape_ok L data \<longleftrightarrow>
     (\<exists>evs n r. bj_decode L data = Inr evs \<and> filter shape_visible evs = EArr 2 # EObj n # r)"
proof -
  have "snd (fold shape_step es (0, 0)) = 2 \<longleftrightarrow> (\<exists>n r. es = EArr 2 # EObj n # r)"
    if es: "\<forall>e \<in> set es. shape_visible e" for es
  proof (cases es)
    case (Cons e r)
    then have e: "shape_step e (0, 0) = (1, if e = EArr 2 then 1 else 0)" using es by (simp add: shape_first)
    show ?thesis
    proof (cases r)
      case Nil
      with \<open>es = e # r\<close> e show ?thesis by simp
    next
      case (Cons e' r')
      then have "shape_step e' (Suc 0, k) = (2, shape_second e' k)" for k
        using es \<open>es = e # r\<close> by (simp add: shape_next)
      with e have "snd (fold shape_step es (0, 0)) = shape_second e' (if e = EArr 2 then 1 else 0)"
        unfolding \<open>es = e # r\<close> Cons by (simp add: shape_rest)
      then show ?thesis unfolding \<open>es = e # r\<close> Cons by (simp add: shape_second_2)
    qed
  qed simp
  from this [of "filter shape_visible evs" for evs]
  have "snd (fold shape_step evs (0, 0)) = 2 \<longleftrightarrow> (\<exists>n r. filter shape_visible evs = EArr 2 # EObj n # r)" for evs
    unfolding shape_skips [of evs] by simp
  then show ?thesis by (auto simp: bjm_envelope_shape_ok_def split: sum.split)
qed

section \<open>Routing\<close>

lemma route_scan_known:
  "snd (route_scan rs m path b) \<longleftrightarrow> b \<or> (\<exists>(m', pat, h) \<in> set rs. path_matches pat path)"
  by (induction rs m path b rule: route_scan.induct) auto

lemma route_scan_some:
  "fst (route_scan rs m path b) = Some h \<Longrightarrow> \<exists>pat. (m, pat, h) \<in> set rs \<and> path_matches pat path"
  by (induction rs m path b rule: route_scan.induct) (auto split: if_split_asm)

lemma route_scan_none:
  "fst (route_scan rs m path b) = None \<Longrightarrow> (m, pat, h) \<in> set rs \<Longrightarrow> \<not> path_matches pat path"
  by (induction rs m path b rule: route_scan.induct) (auto split: if_split_asm)

text \<open>What two patterns have in common when some path matches both.\<close>

definition starred :: "string \<Rightarrow> bool" where
  "starred p \<longleftrightarrow> p ! (length p - 1) = CHR ''*''"

definition clash :: "string \<Rightarrow> string \<Rightarrow> bool" where
  "clash p q \<longleftrightarrow>
     (let n = length p - 1; m = length q - 1 in
      if starred p then (if starred q then take (min n m) p = take (min n m) q else take n q = take n p)
      else if starred q then take m p = take m q else p = q)"

lemma both_match: "path_matches p x \<Longrightarrow> path_matches q x \<Longrightarrow> clash p q"
proof -
  have cut: "take k y = take k z" if "take n y = take n z" "k \<le> n" for k n and y z :: string
    using arg_cong [OF that(1), of "take k"] that(2) by (simp add: min_absorb1)
  assume p: "path_matches p x" and q: "path_matches q x"
  show ?thesis
  proof (cases "starred p \<and> starred q")
    case True
    with p q have t: "take (length p - 1) x = take (length p - 1) p" "take (length q - 1) x = take (length q - 1) q"
      by (simp_all add: path_matches_def starred_def Let_def)
    with True show ?thesis
      using cut [OF t(1), of "min (length p - 1) (length q - 1)"] cut [OF t(2), of "min (length p - 1) (length q - 1)"]
      by (simp add: clash_def Let_def)
  next
    case False
    with p q show ?thesis by (auto simp: path_matches_def starred_def clash_def Let_def)
  qed
qed

lemma routes_apart:
  "list_all (\<lambda>(m, p, h). list_all (\<lambda>(m', q, h'). m = m' \<longrightarrow> clash p q \<longrightarrow> h = h') ROUTES) ROUTES"
  by code_simp

lemma routes_apartD:
  assumes "(m, p, h) \<in> set ROUTES" and "(m, q, h') \<in> set ROUTES" and "clash p q"
  shows "h = h'"
proof -
  have "list_all (\<lambda>(m', q, h'). m = m' \<longrightarrow> clash p q \<longrightarrow> h = h') ROUTES"
    using routes_apart [unfolded list_all_iff, THEN bspec, OF assms(1)] by (simp only: prod.case list_all_iff)
  from this [unfolded list_all_iff, rule_format, OF assms(2)] assms(3) show ?thesis by simp
qed

text \<open>
  C30: The routing table means the same in any order: a request reaches a handler exactly when the
  table has an entry with its method whose pattern matches its path, no two such entries name
  different handlers, and the path is known exactly when some entry matches it.
\<close>

theorem routing_is_a_relation:
  "(sukkal_route m path = Some h \<longleftrightarrow> (\<exists>p. (m, p, h) \<in> set ROUTES \<and> path_matches p path)) \<and>
   (snd (route_lookup m path) \<longleftrightarrow> (\<exists>m' p h'. (m', p, h') \<in> set ROUTES \<and> path_matches p path))"
proof (intro conjI iffI)
  assume "sukkal_route m path = Some h"
  then show "\<exists>p. (m, p, h) \<in> set ROUTES \<and> path_matches p path"
    unfolding sukkal_route_def route_lookup_def by (rule route_scan_some)
next
  assume "\<exists>p. (m, p, h) \<in> set ROUTES \<and> path_matches p path"
  then obtain p where p: "(m, p, h) \<in> set ROUTES" "path_matches p path" by blast
  have "sukkal_route m path \<noteq> None"
    using route_scan_none p unfolding sukkal_route_def route_lookup_def by blast
  then obtain h' where h': "sukkal_route m path = Some h'" by blast
  from route_scan_some [OF this [unfolded sukkal_route_def route_lookup_def]]
  obtain q where q: "(m, q, h') \<in> set ROUTES" "path_matches q path" by blast
  have "h' = h"
    by (rule routes_apartD [OF q(1) p(1) both_match [OF q(2) p(2)]])
  with h' show "sukkal_route m path = Some h" by simp
next
  show "snd (route_lookup m path) \<Longrightarrow> \<exists>m' p h'. (m', p, h') \<in> set ROUTES \<and> path_matches p path"
    unfolding route_lookup_def route_scan_known by fast
next
  show "\<exists>m' p h'. (m', p, h') \<in> set ROUTES \<and> path_matches p path \<Longrightarrow> snd (route_lookup m path)"
    unfolding route_lookup_def route_scan_known by fast
qed

end
