(* ===== verification/Server_Store.thy ===== *)
theory Server_Store
  imports Server_Engine Store_Properties Request_Properties
begin

text \<open>
  What requests do to the store: reading changes nothing, a repeated publish appends nothing, a
  consumer that fell behind is told, and a trim keeps what is owed.
\<close>

section \<open>Reading changes nothing\<close>

text \<open>Every log and every tree holds the same, and nothing was announced.\<close>

definition same_data :: "('t, 'l) lib \<Rightarrow> ('t, 'l) store \<Rightarrow> ('t, 'l) store \<Rightarrow> bool" where
  "same_data L st st' \<longleftrightarrow>
     (\<forall>n. base_of L st' n = base_of L st n \<and> msgs L st' n = msgs L st n) \<and>
     slot_view L (st_cursors st') = slot_view L (st_cursors st) \<and>
     slot_view L (st_queues st') = slot_view L (st_queues st) \<and>
     slot_view L (st_policy st') = slot_view L (st_policy st) \<and>
     slot_view L (st_push st') = slot_view L (st_push st) \<and>
     st_dd st' = st_dd st \<and> st_pubs st' = st_pubs st"

lemma same_refl [simp]: "same_data L st st"
  by (simp add: same_data_def)

lemma same_trans: "same_data L a b \<Longrightarrow> same_data L b c \<Longrightarrow> same_data L a c"
  by (simp add: same_data_def)

lemma same_opens:
  assumes "bpt_laws L"
  shows "cursors_open L st = (st', r1) \<Longrightarrow> same_data L st st'"
    and "policy_open L st = (st', r2) \<Longrightarrow> same_data L st st'"
    and "queues_open L st = (st', r3) \<Longrightarrow> same_data L st st'"
proof -
  show "cursors_open L st = (st', r1) \<Longrightarrow> same_data L st st'"
    using tree_openD(1) [OF assms, of st st' r1]
    by (cases st; cases st') (auto simp: same_data_def intro!: view_cong)
  show "policy_open L st = (st', r2) \<Longrightarrow> same_data L st st'"
    using tree_openD(3) [OF assms, of st st' r2]
    by (cases st; cases st') (auto simp: same_data_def intro!: view_cong)
  show "queues_open L st = (st', r3) \<Longrightarrow> same_data L st st'"
    using tree_openD(4) [OF assms, of st st' r3]
    by (cases st; cases st') (auto simp: same_data_def intro!: view_cong)
qed

lemma same_reads:
  assumes "elog_laws L"
  shows "bjm_read L st n f m = (st', r1) \<Longrightarrow> same_data L st st'"
    and "bjm_last_index L st n = (st', r2) \<Longrightarrow> same_data L st st'"
    and "bjm_subject_info L st n = (st', r3) \<Longrightarrow> same_data L st st'"
proof -
  show "bjm_read L st n f m = (st', r1) \<Longrightarrow> same_data L st st'"
    using read_frame(1) [of L st n f m st' r1] read_log(1) [OF assms, of st n f m st' r1]
    by (cases st; cases st') (auto simp: same_data_def)
  show "bjm_last_index L st n = (st', r2) \<Longrightarrow> same_data L st st'"
    using read_frame(2) [of L st n st' r2] read_log(2) [OF assms, of st n st' r2]
    by (cases st; cases st') (auto simp: same_data_def)
  show "bjm_subject_info L st n = (st', r3) \<Longrightarrow> same_data L st st'"
    using read_frame(3) [of L st n st' r3] read_log(3) [OF assms, of st n st' r3]
    by (cases st; cases st') (auto simp: same_data_def)
qed

lemma same_listings:
  assumes "bpt_laws L" and "elog_laws L"
  shows "bjm_consumers L st s = (st', r1) \<Longrightarrow> same_data L st st'"
    and "consumer_count L st s = (st', r2) \<Longrightarrow> same_data L st st'"
    and "bjm_queues L st s = (st', r3) \<Longrightarrow> same_data L st st'"
    and "bjm_policy_get L st s = (st', r4) \<Longrightarrow> same_data L st st'"
    and "bjm_policy_list L st = (st', r5) \<Longrightarrow> same_data L st st'"
  by (auto simp: bjm_consumers_def consumer_count_def bjm_queues_def bjm_policy_get_def bjm_policy_list_def
      dest!: same_opens [OF assms(1)] same_reads [OF assms(2)] intro: same_trans
      split: prod.splits sum.splits option.splits)

lemma same_on_store:
  "same_data L (a_store a) (fst x) \<Longrightarrow> on_store a x = (a', v) \<Longrightarrow>
     same_data L (a_store a) (a_store a') \<and> a_push a' = a_push a"
  by (cases x) (auto simp: on_store_def hear_def same_data_def)

definition undisturbed :: "('t, 'l) lib \<Rightarrow> ('t, 'l) sukkal_app \<Rightarrow> ('t, 'l) sukkal_app \<Rightarrow> bool" where
  "undisturbed L a a' \<longleftrightarrow> same_data L (a_store a) (a_store a') \<and> a_push a' = a_push a"

lemma undisturbed_refl [simp]: "undisturbed L a a"
  by (simp add: undisturbed_def)

lemma undisturbed_trans: "undisturbed L a b \<Longrightarrow> undisturbed L b c \<Longrightarrow> undisturbed L a c"
  by (auto simp: undisturbed_def intro: same_trans)

lemma undisturbed_ops:
  assumes "bpt_laws L" and "elog_laws L"
  shows "on_store a (bjm_read L (a_store a) n f m) = (a', v1) \<Longrightarrow> undisturbed L a a'"
    and "on_store a (bjm_subject_info L (a_store a) n) = (a', v3) \<Longrightarrow> undisturbed L a a'"
    and "on_store a (bjm_consumers L (a_store a) n) = (a', v4) \<Longrightarrow> undisturbed L a a'"
    and "on_store a (consumer_count L (a_store a) n) = (a', v5) \<Longrightarrow> undisturbed L a a'"
    and "on_store a (bjm_queues L (a_store a) n) = (a', v6) \<Longrightarrow> undisturbed L a a'"
    and "on_store a (bjm_policy_get L (a_store a) n) = (a', v7) \<Longrightarrow> undisturbed L a a'"
    and "on_store a (bjm_policy_list L (a_store a)) = (a', v8) \<Longrightarrow> undisturbed L a a'"
  unfolding undisturbed_def
  by (erule same_on_store [rotated], rule same_reads [OF assms(2) surjective_pairing] same_listings [OF assms surjective_pairing])+

lemma undisturbed_attempt:
  assumes "\<And>a1 v. on_store a x = (a1, v) \<Longrightarrow> undisturbed L a a1" and "\<And>a1 v. undisturbed L a1 (fst (k a1 v))"
  shows "undisturbed L a (fst (attempt a x msg k))"
proof -
  obtain a1 v where x: "on_store a x = (a1, v)" by (cases "on_store a x")
  show ?thesis
    using assms(1) [OF x] undisturbed_trans [OF assms(1) [OF x] assms(2)] x
    by (cases v) (simp_all add: attempt_def)
qed

lemma undisturbed_read: "bpt_laws L \<Longrightarrow> elog_laws L \<Longrightarrow> undisturbed L a (fst (read_from L a req s base acked))"
proof -
  have step: "undisturbed L a (fst (case x of (a', Inl e) \<Rightarrow> (a', f e) | (a', Inr got) \<Rightarrow> (a', g got)))"
    if "\<And>a' v. x = (a', v) \<Longrightarrow> undisturbed L a a'" for x :: "('c, 'd) sukkal_app \<times> ('f + 'e)" and f g a L
    using that by (cases x; cases "snd x") auto
  assume "bpt_laws L" "elog_laws L"
  then show ?thesis unfolding read_from_def Let_def by (intro step) (rule undisturbed_ops)
qed

lemma undisturbed_gets:
  assumes "bpt_laws L" and "elog_laws L"
  shows "undisturbed L a (fst (h_consumers L a req))" "undisturbed L a (fst (h_queues L a req))"
    and "undisturbed L a (fst (h_info L a req))" "undisturbed L a (fst (h_policy_get L a req))"
    and "undisturbed L a (fst (h_policies L a req))" "undisturbed L a (fst (h_dead L a req))"
    and "undisturbed L a (fst (h_push_list L a req))" "undisturbed L a (fst (h_subjects L a req))"
    and "undisturbed L a (fst (h_health L a req))"
  by (auto simp: h_consumers_def h_queues_def h_info_def h_policy_get_def h_policies_def h_dead_def h_push_list_def
      h_subjects_def h_health_def Let_def listing_reply_def dest: undisturbed_ops [OF assms] intro!: undisturbed_attempt
      split: sum.split prod.split option.split)

lemma undisturbed_browse:
  assumes "bpt_laws L" and "elog_laws L" and "query_consumer req = Inr None"
  shows "undisturbed L a (fst (h_subscribe L a req))"
  using undisturbed_read [OF assms(1,2)]
  by (auto simp: h_subscribe_def assms(3) dest: undisturbed_ops [OF assms(1,2)] intro: undisturbed_trans
      split: sum.split prod.split)

text \<open>
  C28: A GET changes nothing. Whatever is asked for, and whatever the answer, every log, every receipt,
  every group, every policy, every registration and the idempotency index hold afterwards what they
  held before, and the delivery engine is as it was; the one exception is a read on behalf of a
  consumer, which may create its receipt.
\<close>

theorem get_changes_nothing:
  assumes "lib_laws L" and "rq_method req = ''GET''" and "query_consumer req = Inr None"
    and "sukkal_dispatch L a req = (a', r)"
  shows "undisturbed L a a'"
proof -
  note ll = lib_lawsD [OF assms(1)]
  have routes: "h \<in> {h_push_list_route, h_subscribe_route, h_dead_route, h_queues_route, h_consumers_route,
      h_info_route, h_policy_get_route, h_policies_route, h_subjects_route, h_health_route}"
    if "(''GET'', p, h) \<in> set ROUTES" for p h
    using that by (auto simp: ROUTES_def)
  show ?thesis
  proof (cases "fst (route_lookup (rq_method req) (rq_path req))")
    case None
    then show ?thesis
      using assms(4) by (auto simp: sukkal_dispatch_def split: prod.splits option.splits bool.splits)
  next
    case (Some h)
    from route_scan_some [OF this [unfolded route_lookup_def assms(2)]] obtain p
      where "(''GET'', p, h) \<in> set ROUTES" by blast
    from routes [OF this] have "undisturbed L a (fst (run_route L h a req))"
      using undisturbed_gets [OF ll(2,3)] undisturbed_browse [OF ll(2,3) assms(3)] by auto
    with Some assms(4) show ?thesis by (auto simp: sukkal_dispatch_def split: prod.splits)
  qed
qed

section \<open>A consumer that fell behind\<close>

lemma refused: "rs_status (refuse e m) \<noteq> 200" "rs_status (res_err 404 m) \<noteq> 200" "rs_status (res_err 416 m) \<noteq> 200"
  by (cases e; simp add: refuse_def res_err_def)+

lemma same_cursor_get:
  assumes "bpt_laws L" and "bjm_cursor_get L st s c = (st', r)"
  shows "same_data L st st'"
  using cursor_getD(1,2) [OF assms] cursor_pubs(1) [OF assms(2)]
  by (cases st; cases st') (auto simp: same_data_def intro!: view_cong)

lemma place_known:
  assumes "bpt_laws L" and "query_u64 req ''ack'' 0 = 0" and "receipt L (a_store a) s c = Some acked"
    and "consumer_place L a req s c = (a', v)"
  shows "same_data L (a_store a) (a_store a')" and "v = Inr acked \<or> (\<exists>r. v = Inl r \<and> rs_status r \<noteq> 200)"
proof -
  obtain st1 r1 where get: "bjm_cursor_get L (a_store a) s c = (st1, r1)"
    by (cases "bjm_cursor_get L (a_store a) s c")
  have r1: "r1 = Inr x \<Longrightarrow> x = Some acked" for x
    using cursor_getD(3) [OF assms(1) get] assms(3) by simp
  have out: "a_store a' = st1 \<and> (v = Inr acked \<or> (\<exists>e. v = Inl (refuse e ''cursor lookup failed'')))"
    using assms(2,4) get r1 by (cases r1) (auto simp: consumer_place_def on_store_def)
  show "same_data L (a_store a) (a_store a')" using same_cursor_get [OF assms(1) get] out by simp
  show "v = Inr acked \<or> (\<exists>r. v = Inl r \<and> rs_status r \<noteq> 200)" using out refused by auto
qed

lemma read_above:
  assumes "elog_laws L" and "unat acked + 1 < 2 ^ 64" and "read_from L a req s base (Some acked) = (a', r)"
  shows "same_data L (a_store a) (a_store a')"
    and "rs_status r = 200 \<Longrightarrow> base_of L (a_store a) s \<le> unat acked \<and>
           (\<exists>l m cnt. log_of (a_store a') s = Some l \<and> elog_get_batch L l (acked + 1) m = Inr (cnt, rs_body r))"
proof -
  obtain st1 v where rd: "bjm_read L (a_store a) s (acked + 1) (batch_max req) = (st1, v)"
    by (cases "bjm_read L (a_store a) s (acked + 1) (batch_max req)")
  have a': "a_store a' = st1" and ok: "rs_status r = 200 \<Longrightarrow> \<exists>got. v = Inr got \<and> r = read_reply 0 (Some acked) got"
    using assms(3) rd refused by (auto simp: read_from_def on_store_def Let_def split: sum.splits if_splits)
  show "same_data L (a_store a) (a_store a')" using same_reads(1) [OF assms(1) rd] by (simp add: a')
  have next_ix: "unat (acked + 1) = unat acked + 1" "acked + 1 \<noteq> 0"
    using unat_Suc_u64 [OF assms(2)] by (auto simp: unat_eq_0 [symmetric] simp del: unat_eq_0)
  assume "rs_status r = 200"
  then obtain cnt out j where got: "v = Inr (cnt, out, j)" "r = read_reply 0 (Some acked) (cnt, out, j)"
    using ok by auto
  obtain sb where sb: "subject_get L (a_store a) s False = (st1, Inr sb)"
    and gb: "elog_get_batch L (s_log sb) (acked + 1) (batch_max req) = Inr (cnt, out)"
    using rd got(1) next_ix(2) by (auto simp: bjm_read_def Let_def split: prod.splits sum.splits if_splits)
  have "base_of L (a_store a) s \<le> unat acked"
    using elog_get_batchD [OF assms(1) gb] subject_get_view(1) [OF assms(1) sb] next_ix(1) by simp
  moreover have "log_of (a_store a') s = Some (s_log sb)"
    using subject_get_found [OF sb] by (simp add: a' log_of_def)
  ultimately show "base_of L (a_store a) s \<le> unat acked \<and>
      (\<exists>l m cnt. log_of (a_store a') s = Some l \<and> elog_get_batch L l (acked + 1) m = Inr (cnt, rs_body r))"
    using gb got(2) by (auto simp: read_reply_def res_bj_def)
qed

text \<open>
  C15: A read on behalf of a consumer starts right above its receipt or is refused. When messages the
  consumer never acknowledged have been trimmed away, the answer is an error, never a batch that
  silently skips them; a batch is the log's own bytes from the next message on; and no log, receipt
  or group changes.
\<close>

theorem subscribe_never_skips:
  assumes "lib_laws L" and "subject_of req ''/sub/'' = Inr s" and "query_consumer req = Inr (Some c)"
    and "query_u64 req ''ack'' 0 = 0" and "receipt L (a_store a) s c = Some acked"
    and "unat acked + 1 < 2 ^ 64" and "h_subscribe L a req = (a', r)"
  shows "(unat acked < base_of L (a_store a) s \<longrightarrow> rs_status r \<noteq> 200) \<and>
         (rs_status r = 200 \<longrightarrow> (\<exists>l m cnt. log_of (a_store a') s = Some l \<and>
            elog_get_batch L l (acked + 1) m = Inr (cnt, rs_body r))) \<and>
         same_data L (a_store a) (a_store a')"
proof -
  note ll = lib_lawsD [OF assms(1)]
  obtain a1 v1 where info: "on_store a (bjm_subject_info L (a_store a) s) = (a1, v1)"
    by (cases "on_store a (bjm_subject_info L (a_store a) s)")
  have u1: "same_data L (a_store a) (a_store a1)"
    using undisturbed_ops(2) [OF ll(2,3) info] by (simp add: undisturbed_def)
  then have rec1: "receipt L (a_store a1) s c = Some acked"
    using receipt_cong [of L "a_store a1" "a_store a"] assms(5) by (simp add: same_data_def)
  obtain a2 v2 where place: "consumer_place L a1 req s c = (a2, v2)" by (cases "consumer_place L a1 req s c")
  note p = place_known [OF ll(2) assms(4) rec1 place]
  have u2: "same_data L (a_store a) (a_store a2)" by (rule same_trans [OF u1 p(1)])
  consider e where "v1 = Inl e" | e v where "v1 = Inr v" "v2 = Inl e" | base j k where "v1 = Inr (base, j, k)" "v2 = Inr acked"
    using p(2) by (cases v1) auto
  then show ?thesis
  proof cases
    case 3
    then have "read_from L a2 req s base (Some acked) = (a', r)"
      using assms(7) info place by (simp add: h_subscribe_def assms(2,3))
    note rd = read_above [OF ll(3) assms(6) this]
    have "base_of L (a_store a2) s = base_of L (a_store a) s" using u2 by (simp add: same_data_def)
    then show ?thesis using rd(2) same_trans [OF u2 rd(1)] by auto
  qed (use assms(7) info place p u1 u2 refused in \<open>auto simp: h_subscribe_def assms(2,3)\<close>)
qed

section \<open>Trimming on request\<close>

lemma last_index_le:
  assumes "elog_laws L" and "bjm_last_index L st s = (st', i)"
  shows "unat i \<le> base_of L st s + length (msgs L st s)"
proof -
  obtain st1 r where get: "subject_get L st s False = (st1, r)" by (cases "subject_get L st s False")
  show ?thesis
  proof (cases r)
    case (Inr sb)
    then show ?thesis
      using assms(2) get subject_get_view [OF assms(1) get [unfolded Inr]] elog_indexD(2) [OF assms(1), of "s_log sb"]
      by (simp add: bjm_last_index_def)
  qed (use assms(2) get in \<open>simp add: bjm_last_index_def\<close>)
qed

text \<open>What a trim to the newest \<open>keep\<close> asks for.\<close>

lemma trim_before_keep:
  assumes "0 < query_u64 req ''keep'' 0"
  shows "unat (trim_before req i) - 1 = unat i - unat (query_u64 req ''keep'' 0)" and "trim_before req i \<noteq> 0"
proof -
  let ?k = "query_u64 req ''keep'' 0"
  have "unat (trim_before req i) = unat i - unat ?k + 1"
  proof (cases "?k < i")
    case True
    have d: "unat (i - ?k) = unat i - unat ?k" using True by (simp add: unat_sub_u64 order_less_imp_le)
    have "0 < unat ?k" using assms by (simp add: word_less_nat_alt)
    then have "unat (i - ?k) + 1 < 2 ^ 64" using d unat_u64_lt [of i] True by (simp add: word_less_nat_alt)
    then show ?thesis using True assms unat_Suc_u64 [of "i - ?k"] d by (simp add: trim_before_def Let_def)
  next
    case False
    then have "unat i \<le> unat ?k" by (simp add: word_less_nat_alt)
    with False show ?thesis using assms by (simp add: trim_before_def Let_def)
  qed
  then show "unat (trim_before req i) - 1 = unat i - unat ?k" "trim_before req i \<noteq> 0" by auto
qed

lemma trim_request:
  assumes "bpt_laws L" "elog_laws L" and "subject_of req ''/trim/'' = Inr s" and "0 < query_u64 req ''keep'' 0"
    and "h_trim L a req = (a', r)"
  obtains st1 st2 i v where "bjm_last_index L (a_store a) s = (st1, i)" and "same_data L (a_store a) st1"
    and "bjm_trim L st1 s (trim_before req i) (query_u64 req ''force'' 0 \<noteq> 0) = (st2, v)"
    and "same_data L st2 (a_store a')"
proof -
  obtain st1 i where li: "bjm_last_index L (a_store a) s = (st1, i)" by (cases "bjm_last_index L (a_store a) s")
  obtain st2 v where tr: "bjm_trim L st1 s (trim_before req i) (query_u64 req ''force'' 0 \<noteq> 0) = (st2, v)"
    by (cases "bjm_trim L st1 s (trim_before req i) (query_u64 req ''force'' 0 \<noteq> 0)")
  obtain st3 j where lj: "bjm_last_index L st2 s = (st3, j)" by (cases "bjm_last_index L st2 s")
  have "a_store a' = st2 \<or> a_store a' = st3"
    using assms(5) li tr lj trim_before_keep(2) [OF assms(4)]
    by (cases v) (auto simp: h_trim_def assms(3) on_store_def attempt_def Let_def)
  then have "same_data L st2 (a_store a')" using same_reads(2) [OF assms(2) lj] by auto
  with that li same_reads(2) [OF assms(2) li] tr show thesis .
qed

text \<open>
  A request to keep the newest \<open>n\<close> messages never removes one of them: the log loses a prefix
  and still has its newest \<open>n\<close>; unless the request forces it, nothing above a receipt and nothing a
  queue group is owed goes; and no other subject, no receipt and no group changes.
\<close>

theorem trim_request_keeps:
  assumes "lib_laws L" and "subject_of req ''/trim/'' = Inr s" and "0 < query_u64 req ''keep'' 0"
    and "h_trim L a req = (a', r)"
  shows "\<exists>k. msgs L (a_store a') s = drop k (msgs L (a_store a) s) \<and>
           min (unat (query_u64 req ''keep'' 0)) (length (msgs L (a_store a) s)) \<le> length (msgs L (a_store a') s) \<and>
           (k > 0 \<longrightarrow> query_u64 req ''force'' 0 = 0 \<longrightarrow>
              (\<forall>c j. receipt L (a_store a) s c = Some j \<longrightarrow> base_of L (a_store a) s + k \<le> unat j) \<and>
              (\<forall>g q. g \<noteq> [] \<longrightarrow> group_rec L (a_store a) s g = Some q \<longrightarrow>
                 base_of L (a_store a) s + k \<le> unat (owed_floor q))) \<and>
           (\<forall>m. m \<noteq> s \<longrightarrow> msgs L (a_store a') m = msgs L (a_store a) m) \<and>
           receipt L (a_store a') = receipt L (a_store a) \<and> group_rec L (a_store a') = group_rec L (a_store a)"
proof -
  note ll = lib_lawsD [OF assms(1)]
  let ?keep = "query_u64 req ''keep'' 0"
  obtain st1 st2 i v where li: "bjm_last_index L (a_store a) s = (st1, i)" and same1: "same_data L (a_store a) st1"
    and tr: "bjm_trim L st1 s (trim_before req i) (query_u64 req ''force'' 0 \<noteq> 0) = (st2, v)"
    and same2: "same_data L st2 (a_store a')"
    using trim_request [OF ll(2,3) assms(2-4)] .
  obtain k where k: "trimmed_by L st1 s (trim_before req i) (query_u64 req ''force'' 0 \<noteq> 0) st2 v k"
    using trimD [OF ll(3,2) tr] .
  note views = same1 [unfolded same_data_def] same2 [unfolded same_data_def]
  have rec: "receipt L st1 = receipt L (a_store a)" "receipt L (a_store a') = receipt L st2"
    "group_rec L st1 = group_rec L (a_store a)" "group_rec L (a_store a') = group_rec L st2"
    using views by (auto intro: receipt_cong group_rec_cong)
  have "k = 0 \<or> base_of L (a_store a) s + k \<le> unat i - unat ?keep"
    using k trim_before_keep(1) [OF assms(3), of i] views by (cases "k = 0") (auto simp: trimmed_by_def)
  then have "min (unat ?keep) (length (msgs L (a_store a) s)) \<le> length (msgs L (a_store a) s) - k"
    using last_index_le [OF ll(3) li] by auto
  with k rec views show ?thesis
    unfolding trimmed_by_def by (intro exI [of _ k]) simp
qed

section \<open>Publishing twice\<close>

lemma lookup_same_logs:
  assumes "bjm_dedup_lookup L st s d = (st', r)"
  shows "msgs L st' n = msgs L st n"
  using dedup_frame(1) [OF assms] view_cong(2) [of st' st] by auto

lemma ready_fields:
  "dd_ready (st\<lparr>st_subs := x, st_files := y, st_policy := z, st_pubs := w\<rparr>) = dd_ready st"
  "st_dd_rotated_ms (st\<lparr>st_subs := x, st_files := y, st_policy := z, st_pubs := w\<rparr>) = st_dd_rotated_ms st"
  "bjm_dedup_window (st\<lparr>st_subs := x, st_files := y, st_policy := z, st_pubs := w\<rparr>) = bjm_dedup_window st"
  by (simp_all add: dd_ready_def bjm_dedup_window_def)

lemma record_succeeds:
  assumes "\<And>t k evs. is_ok (snd (bpt_put L t k evs))" and "dd_ready st" and "dedup_key s d = Inr k"
  shows "snd (bjm_dedup_record L st s d i) = Inr ()"
proof -
  have op: "dedup_open L st = (st, Inr ())" using assms(2) by (simp add: dd_ready_def dedup_open_def)
  have "st_dd_gen st \<le> 1" using assms(2) by (simp add: dd_ready_def)
  then obtain c where c: "dd_handle st (st_dd_gen st) = Inr c" using dd_slot_cases [OF assms(2)] by blast
  show ?thesis
    using assms(1) [of c k "encode_index i"] op c assms(3)
    by (cases "bpt_put L c k (encode_index i)") (auto simp: bjm_dedup_record_def is_ok_iff)
qed

text \<open>After an append under an id, the id is known as recorded at the time of the request.\<close>

lemma append_fresh:
  assumes laws: "lib_laws L" and writes: "\<forall>t k evs. is_ok (snd (bpt_put L t k evs))"
    and inv: "dd_inv (a_store a)" and ex: "exact_int i"
    and look: "bjm_dedup_lookup L ((a_store a)\<lparr>st_clock := Some t0\<rparr>) s d = (st1, Inr None)"
    and young: "st_dd_rotated_ms st1 \<le> t0" "t0 - st_dd_rotated_ms st1 < bjm_dedup_window st1"
    and first: "append_once L (a\<lparr>a_store := (a_store a)\<lparr>st_clock := Some t0\<rparr>\<rparr>) s ty b (Some d) = (a1, Inr (i, False))"
  shows "fresh L (a_store a1) (s @ ''/'' @ d) i t0" and "st_dd_rotated_ms (a_store a1) \<le> t0"
    and "bjm_dedup_window (a_store a1) = bjm_dedup_window st1"
proof -
  note ll = lib_lawsD [OF laws]
  have ready: "dd_ready st1"
    using lookup_ready [OF ll(1,2) _ look] inv by (simp add: dd_inv_def dd_ready_def)
  obtain st2 v2 where pub: "bjm_publish L st1 s ty b = (st2, v2)" by (cases "bjm_publish L st1 s ty b")
  have st3: "a_store a1 = fst (bjm_dedup_record L st2 s d i)"
    using first look pub by (auto simp: append_once_def on_store_def split: sum.split_asm prod.split_asm)
  obtain x y z w where st2: "st2 = st1\<lparr>st_subs := x, st_files := y, st_policy := z, st_pubs := w\<rparr>"
    using publish_frame [OF ll(2) pub] by blast
  obtain k where key: "dedup_key s d = Inr k"
    using look by (cases "dedup_key s d") (auto simp: bjm_dedup_lookup_def Let_def split: prod.splits sum.splits)
  have ready2: "dd_ready st2" using ready by (simp add: st2 ready_fields)
  have "snd (bjm_dedup_record L st2 s d i) = Inr ()"
    using record_succeeds [of L st2 s d k i] writes ready2 key by simp
  then have rec: "bjm_dedup_record L st2 s d i = (a_store a1, Inr ())" using st3 by (simp add: prod_eq_iff)
  have "unat t0 < unat (st_dd_rotated_ms st2) + unat (bjm_dedup_window st2)"
    using young elapsed_le [of "st_dd_rotated_ms st1" t0]
    by (simp add: st2 ready_fields word_le_nat_alt word_less_nat_alt)
  note f = fresh_record [OF ll(1,2) ready2 ex this rec]
  show "fresh L (a_store a1) (s @ ''/'' @ d) i t0" by (rule f(1))
  show "st_dd_rotated_ms (a_store a1) \<le> t0" "bjm_dedup_window (a_store a1) = bjm_dedup_window st1"
    using f(2,3) young(1) by (simp_all add: st2 ready_fields)
qed


section \<open>Two answers that mislead\<close>

text \<open>
  C40: A publish can be refused after it has become durable: when the request also acknowledges an
  input and names that subject wrongly, the answer is 400, and the message is in the log.
\<close>

theorem refused_publish_is_durable:
  assumes "lib_laws L" and "subject_of req ''/pub/'' = Inr s" and "publish_checks L req = Inr (ty, None)"
    and "query_u64 req ''ack_index'' 0 > 0"
    and "rq_query req ''ack_subject'' (BJM_SUBJECT_MAX + 1) = Found x"
    and "rq_query req ''ack_consumer'' (BJM_CONSUMER_MAX + 1) = Found c" and "\<not> bjm_subject_valid x"
    and "is_ok (snd (bjm_publish L (a_store a) s ty (rq_body req)))" and "h_publish L a req = (a', r)"
  shows "rs_status r = 400 \<and> msgs L (a_store a') s = msgs L (a_store a) s @ [(ty, rq_body req)]"
proof -
  obtain st' i where pub: "bjm_publish L (a_store a) s ty (rq_body req) = (st', Inr i)"
    using assms(8) by (auto simp: is_ok_iff prod_eq_iff)
  have "ack_input L a1 req = (a1, Inl (res_err 400 ''invalid ack_subject or ack_consumer''))" for a1
    using assms(4-7) by (simp add: ack_input_def Let_def)
  then have "rs_status r = 400 \<and> a_store a' = st'"
    using assms(9) pub by (auto simp: h_publish_def assms(2,3) append_once_def on_store_def res_err_def)
  with publish_logs(3) [OF lib_lawsD(3,2) [OF assms(1)] pub] show ?thesis by simp
qed

text \<open>
  A token too long for its buffer is not checked: a registration carries the first 128
  characters of it whatever they are, line breaks included, and these end up in a header of every
  delivery.
\<close>

theorem long_token_unchecked:
  assumes "rq_query req = sukkal_query_from_string (Some (query_string [(''token'', v)]))"
    and "CHR 0x00 \<notin> set v" and "BJM_TOKEN_MAX < length v"
  shows "token_of req = Inr (take BJM_TOKEN_MAX v)"
proof -
  have "plain_key ''token''" by code_simp
  then have "query_seek ''token'' (query_string [(''token'', v)]) = Some (url_encode v)"
    using seek_pair(1) [of "''token''" "''token''" v] by simp
  moreover have "CHR 0x00 \<notin> set (take BJM_TOKEN_MAX v)" using assms(2) in_set_takeD by fast
  ultimately show ?thesis
    using assms(3) by (simp add: token_of_def assms(1) sukkal_query_from_string_def decode_encode c_str_id)
qed

end
