(* ===== verification/Wasm.thy ===== *)
theory Wasm
  imports Handlers
begin

text \<open>
  The broker as a function call (\<open>src/src/sukkal_wasm.c\<close>): opening one, the plan of files a request
  may touch, and running one request with its answer collected in buffers. The host's file table
  (\<open>bjns_bridge\<close>) is the namespace of the store; growing the answer's buffer always succeeds.
\<close>

section \<open>One broker\<close>

text \<open>The response of the last request: status, header buffer, body.\<close>

record ('t, 'l) sukkal_wasm =
  w_app :: "('t, 'l) sukkal_app"
  w_status :: int
  w_headers :: string
  w_body :: bytes
  w_listing :: "string option"

definition wasm_listing :: "string option \<Rightarrow> string res" where
  "wasm_listing listing = (case listing of None \<Rightarrow> Inl BJ_ERR_STATE | Some names \<Rightarrow> Inr names)"

text \<open>\<open>None\<close> when the delivery engine cannot be made. The store gets no adopt hook and no clock.\<close>

definition sukkal_wasm_open ::
    "('t, 'l) lib \<Rightarrow> (string \<Rightarrow> 'l ns_file) \<Rightarrow> (string \<Rightarrow> 't ns_file) \<Rightarrow> ('t, 'l) sukkal_wasm option" where
  "sukkal_wasm_open L logs trees =
     (let st = bjm_store_set_listing (bjm_store_open_ns logs trees) (Some (wasm_listing (Some []))) in
      (case bjm_pusher_new L st SUKKAL_DEFAULT_BATCH of
         (st, None) \<Rightarrow> None
       | (st, Some p) \<Rightarrow>
           Some \<lparr>w_app = \<lparr>a_store = st, a_push = p, a_started_s = 0, a_backend = Some ''wasm'', a_conns = None\<rparr>,
                 w_status = 0, w_headers = [], w_body = [], w_listing = Some []\<rparr>))"

definition on_wasm_store ::
    "(('t, 'l) store \<Rightarrow> ('t, 'l) store) \<Rightarrow> ('t, 'l) sukkal_wasm \<Rightarrow> ('t, 'l) sukkal_wasm" where
  "on_wasm_store f w = w\<lparr>w_app := (w_app w)\<lparr>a_store := f (a_store (w_app w))\<rparr>\<rparr>"

definition sukkal_wasm_set_clock :: "('t, 'l) sukkal_wasm \<Rightarrow> u64 option \<Rightarrow> ('t, 'l) sukkal_wasm" where
  "sukkal_wasm_set_clock w now = on_wasm_store (\<lambda>st. bjm_store_set_clock st now) w"

definition sukkal_wasm_set_listing :: "('t, 'l) sukkal_wasm \<Rightarrow> string option \<Rightarrow> ('t, 'l) sukkal_wasm" where
  "sukkal_wasm_set_listing w names =
     on_wasm_store (\<lambda>st. bjm_store_set_listing st (Some (wasm_listing names))) (w\<lparr>w_listing := names\<rparr>)"

section \<open>Collecting a response\<close>

definition r_header :: "string \<Rightarrow> string \<times> string \<Rightarrow> string" where
  "r_header hdrs nv =
     (case nv of (name, v) \<Rightarrow>
        if length hdrs + length name + length v + 3 \<ge> 2048 then hdrs
        else hdrs @ name @ '':'' @ v @ [CHR 0x00])"

definition sukkal_request ::
    "('t, 'l) lib \<Rightarrow> ('t, 'l) sukkal_wasm \<Rightarrow> string \<Rightarrow> string \<Rightarrow> string option \<Rightarrow> bytes \<Rightarrow> string option
      \<Rightarrow> ('t, 'l) sukkal_wasm \<times> int" where
  "sukkal_request L w verb path query body ctype =
     (case sukkal_dispatch L (w_app w)
             \<lparr>rq_method = verb, rq_path = path, rq_body = body, rq_content_type = ctype,
              rq_query = sukkal_query_from_string query\<rparr> of
        (a, r) \<Rightarrow>
          (w\<lparr>w_app := a, w_status := rs_status r, w_headers := foldl r_header [] (rs_headers r),
             w_body := rs_body r\<rparr>, rs_status r))"

section \<open>The plan\<close>

definition SHARED_FILES :: "string list" where
  "SHARED_FILES = [''_cursors.bpt'', ''_policy.bpt'', ''_queues.bpt'', ''_dedup0.bpt'', ''_dedup1.bpt'', ''_push.bpt'']"

definition starts :: "string \<Rightarrow> string \<Rightarrow> bool" where
  "starts s prefix \<longleftrightarrow> take (length prefix) s = prefix"

text \<open>One planned name: \<open>+\<close> when it may be created. \<open>None\<close> when the buffer is full.\<close>

definition name_add :: "nat \<Rightarrow> string \<times> bool \<Rightarrow> string option \<Rightarrow> string option" where
  "name_add cap nc out =
     (case (nc, out) of
        (_, None) \<Rightarrow> None
      | ((name, create), Some out) \<Rightarrow>
          if length out + (length name + 2) > cap then None
          else Some (out @ (if create then CHR ''+'' else CHR ''-'') # name @ [CHR 0x00]))"

text \<open>The files of the subject a path names, and which of them may be created.\<close>

definition subject_files :: "string \<Rightarrow> string \<Rightarrow> string \<Rightarrow> (string \<times> bool) list" where
  "subject_files verb path subject =
     (let is_post = (verb = ''POST'');
          creates = (is_post \<and> (starts path ''/pub/'' \<or> starts path ''/requeue/''));
          may_die = (is_post \<and> (starts path ''/fail/'' \<or> starts path ''/done/''));
          reads_dead = (starts path ''/dead/'' \<or> starts path ''/requeue/'');
          compacts = (is_post \<and> starts path ''/trim/'')
      in [(subject @ ''.elog'', creates)] @
         (if may_die \<or> reads_dead then [(subject @ BJM_DEAD_SUFFIX @ ''.elog'', may_die)] else []) @
         (if compacts then [(subject @ ''.elog.tmp'', True)] else []))"

definition plan_subject :: "string \<Rightarrow> string option" where
  "plan_subject path =
     (let slash = dropWhile (\<lambda>c. c \<noteq> CHR ''/'') (drop 1 path); subject = drop 1 slash in
      if slash = [] \<or> subject = [] then None
      else if bjm_subject_valid subject then Some subject else None)"

definition sukkal_plan :: "string \<Rightarrow> string \<Rightarrow> nat \<Rightarrow> string option" where
  "sukkal_plan verb path cap =
     (let out = fold (name_add cap) (map (\<lambda>f. (f, True)) SHARED_FILES) (Some []) in
      (case plan_subject path of
         None \<Rightarrow> out
       | Some subject \<Rightarrow> fold (name_add cap) (subject_files verb path subject) out))"

section \<open>What a plan says\<close>

text \<open>The names a host reads out of a plan, each with its mark.\<close>

lemma name_add_some:
  "name_add cap nc out = Some out' \<longleftrightarrow>
     (\<exists>o1. out = Some o1 \<and> length o1 + (length (fst nc) + 2) \<le> cap \<and>
        out' = o1 @ (if snd nc then CHR ''+'' else CHR ''-'') # fst nc @ [CHR 0x00])"
  by (cases nc; cases out) (auto simp: name_add_def)

lemma fold_name_add:
  "fold (name_add cap) ncs out = Some out' \<Longrightarrow>
     \<exists>o1. out = Some o1 \<and> (ncs = [] \<or> length out' \<le> cap) \<and> out' = o1 @ concat (map (\<lambda>(n, c). (if c then CHR ''+'' else CHR ''-'') # n @ [CHR 0x00]) ncs)"
proof (induction ncs arbitrary: out)
  case (Cons nc ncs)
  then have "fold (name_add cap) ncs (name_add cap nc out) = Some out'" by simp
  from Cons.IH [OF this] obtain o2 where o2: "name_add cap nc out = Some o2" "ncs = [] \<or> length out' \<le> cap"
      "out' = o2 @ concat (map (\<lambda>(n, c). (if c then CHR ''+'' else CHR ''-'') # n @ [CHR 0x00]) ncs)"
    by blast
  then show ?case by (cases nc) (auto simp: name_add_some)
qed simp

definition planned :: "string \<times> bool \<Rightarrow> string" where
  "planned nc = (if snd nc then CHR ''+'' else CHR ''-'') # fst nc"

lemma plan_concat:
  "concat (map (\<lambda>(n, c). (if c then CHR ''+'' else CHR ''-'') # n @ [CHR 0x00]) ncs) =
     concat (map (\<lambda>n. n @ [CHR 0x00]) (map planned ncs))"
  by (induction ncs) (auto simp: planned_def)

definition plan_files :: "string \<Rightarrow> string \<Rightarrow> (string \<times> bool) list" where
  "plan_files verb path =
     map (\<lambda>f. (f, True)) SHARED_FILES @
     (case plan_subject path of None \<Rightarrow> [] | Some s \<Rightarrow> subject_files verb path s)"

lemma plan_names_plain: "list_all (\<lambda>nc. fst nc \<noteq> [] \<and> list_all name_char (fst nc)) (plan_files verb path)"
proof -
  have shared: "list_all (\<lambda>f. f \<noteq> [] \<and> list_all name_char f) SHARED_FILES" by code_simp
  have lits: "list_all name_char ''.elog''" "list_all name_char ''.elog.tmp''" "list_all name_char BJM_DEAD_SUFFIX"
    by code_simp+
  have "list_all name_char s" if "bjm_subject_valid s" for s
    using that by (auto simp: valid_defs list_all_iff dest: name_validD(3))
  then show ?thesis
    using shared lits
    by (auto simp: plan_files_def subject_files_def Let_def plan_subject_def list_all_iff
        split: option.splits if_split_asm)
qed

text \<open>
  A plan reads back as what was planned, and names only files of the broker's own directory: the
  NUL-separated list the host splits is exactly the marked names, in order, none is empty, and none
  contains a slash or anything but letters, digits, dots, underscores and dashes, whatever path a
  client asked for.
\<close>

theorem plan_reads_back:
  assumes "sukkal_plan verb path cap = Some out"
  shows "split_listing out = map planned (plan_files verb path) \<and> length out \<le> cap \<and>
         list_all (\<lambda>nc. fst nc \<noteq> [] \<and> list_all name_char (fst nc)) (plan_files verb path)"
proof -
  have out: "fold (name_add cap) (plan_files verb path) (Some []) = Some out"
    using assms by (auto simp: sukkal_plan_def plan_files_def Let_def split: option.splits)
  have plain: "list_all (\<lambda>nc. fst nc \<noteq> [] \<and> list_all name_char (fst nc)) (plan_files verb path)"
    by (rule plan_names_plain)
  have "CHR 0x00 \<notin> set (planned nc)" if "nc \<in> set (plan_files verb path)" for nc
    using that plain name_char_not_special(2) by (auto simp: planned_def list_all_iff)
  then have "split_listing (concat (map (\<lambda>n. n @ [CHR 0x00]) (map planned (plan_files verb path)))) =
      map planned (plan_files verb path)"
    by (intro split_listing_concat) auto
  moreover have "plan_files verb path \<noteq> []" by (simp add: plan_files_def SHARED_FILES_def)
  ultimately show ?thesis
    using fold_name_add [OF out] plain by (auto simp: plan_concat)
qed

theorem plan_reads_back_witness:
  "\<exists>out. sukkal_plan ''POST'' ''/pub/a'' 200 = Some out \<and> split_listing out = map planned (plan_files ''POST'' ''/pub/a'')"
proof -
  have "sukkal_plan ''POST'' ''/pub/a'' 200 \<noteq> None" by code_simp
  then obtain out where out: "sukkal_plan ''POST'' ''/pub/a'' 200 = Some out" by blast
  with plan_reads_back [OF out] show ?thesis by blast
qed

end
