(* ===== verification/Server_Runs.thy ===== *)
theory Server_Runs
  imports Server_Store Wasm Queue_Properties
begin

text \<open>
  Concrete requests: the properties of the handlers applied where their hypotheses hold, and the
  requests whose answers are not what the source says they mean to be.
\<close>

section \<open>A broker and requests to it\<close>

definition broker_at :: "(rtree, rlog) store \<Rightarrow> (rtree, rlog) sukkal_app" where
  "broker_at st = \<lparr>a_store = st,
     a_push = \<lparr>p_xfer = no_transport, p_subs = [], p_names = [], p_work = False, p_inflight = 0,
               p_default_batch = 65536, p_next_id = 0, p_sent = [], p_closed = []\<rparr>,
     a_started_s = 0, a_backend = None, a_conns = None\<rparr>"

definition request :: "string \<Rightarrow> string \<Rightarrow> string \<Rightarrow> bytes \<Rightarrow> sukkal_req" where
  "request verb path query body =
     \<lparr>rq_method = verb, rq_path = path, rq_body = body, rq_content_type = Some SUKKAL_MEDIA_TYPE,
      rq_query = sukkal_query_from_string (Some query)\<rparr>"

text \<open>One published message, the null value of the codec.\<close>

definition null_value :: bytes where
  "null_value = (case snd (bj_build ref_lib [ENull]) of Some b \<Rightarrow> b)"

definition published :: "(rtree, rlog) sukkal_app \<times> sukkal_res" where
  "published = sukkal_dispatch ref_lib (broker_at (ref_store 100)) (request ''POST'' ''/pub/a'' ''id=x'' null_value)"

theorem dispatch_wakes_engine_witness:
  "p_work (a_push (fst published)) \<and> length (st_pubs (a_store (fst published))) = 1"
proof -
  have n: "length (st_pubs (a_store (fst published))) = 1" "st_pubs (a_store (broker_at (ref_store 100))) = []"
    by code_simp+
  obtain ps where "st_pubs (a_store (fst published)) = st_pubs (a_store (broker_at (ref_store 100))) @ ps"
      "p_work (a_push (broker_at (ref_store 100))) \<or> ps \<noteq> [] \<longrightarrow> p_work (a_push (fst published))"
    using dispatch_wakes_engine [OF surjective_pairing, of ref_lib "broker_at (ref_store 100)"
        "request ''POST'' ''/pub/a'' ''id=x'' null_value"] unfolding published_def by (elim exE conjE)
  with n show ?thesis by auto
qed

theorem get_changes_nothing_witness:
  "undisturbed ref_lib (fst published) (fst (sukkal_dispatch ref_lib (fst published) (request ''GET'' ''/info/a'' [] [])))"
proof -
  have "rq_method (request ''GET'' ''/info/a'' [] []) = ''GET''" "query_consumer (request ''GET'' ''/info/a'' [] []) = Inr None"
    by code_simp+
  from get_changes_nothing [OF ref_lib_laws this surjective_pairing] show ?thesis .
qed

definition behind :: "(rtree, rlog) store" where
  "behind = fst (bjm_trim ref_lib trim_run ''a'' 3 True)"

theorem subscribe_never_skips_witness:
  "rs_status (snd (h_subscribe ref_lib (broker_at behind) (request ''GET'' ''/sub/a'' ''consumer=c'' []))) \<noteq> 200"
proof -
  let ?req = "request ''GET'' ''/sub/a'' ''consumer=c'' []"
  have facts: "subject_of ?req ''/sub/'' = Inr ''a''" "query_consumer ?req = Inr (Some ''c'')"
      "query_u64 ?req ''ack'' 0 = 0" "receipt ref_lib (a_store (broker_at behind)) ''a'' ''c'' = Some 1"
    by code_simp+
  have "base_of ref_lib (a_store (broker_at behind)) ''a'' = 2" by code_simp
  with subscribe_never_skips [OF ref_lib_laws facts _ surjective_pairing] show ?thesis by simp
qed

theorem trim_request_keeps_witness:
  "1 \<le> length (msgs ref_lib (a_store (fst (h_trim ref_lib (broker_at trim_run)
     (request ''POST'' ''/trim/a'' ''keep=1&force=1'' [])))) ''a'')"
proof -
  let ?req = "request ''POST'' ''/trim/a'' ''keep=1&force=1'' []"
  have facts: "subject_of ?req ''/trim/'' = Inr ''a''" "query_u64 ?req ''keep'' 0 = 1" by code_simp+
  have len: "length (msgs ref_lib (a_store (broker_at trim_run)) ''a'') = 2" by code_simp
  have "0 < query_u64 ?req ''keep'' 0" by (simp add: facts(2))
  from trim_request_keeps [OF ref_lib_laws facts(1) this surjective_pairing, of "broker_at trim_run"]
  have "min (unat (query_u64 ?req ''keep'' 0)) (length (msgs ref_lib (a_store (broker_at trim_run)) ''a'')) \<le>
      length (msgs ref_lib (a_store (fst (h_trim ref_lib (broker_at trim_run) ?req))) ''a'')"
    by (elim exE conjE)
  with len facts(2) show ?thesis by simp
qed

definition retry_first :: "(rtree, rlog) sukkal_app \<times> (sukkal_res + u64 \<times> bool)" where
  "retry_first = append_once ref_lib ((broker_at dd_run0)\<lparr>a_store := (a_store (broker_at dd_run0))\<lparr>st_clock := Some 5\<rparr>\<rparr>)
     ''a'' 1 null_value (Some ''x'')"


theorem refused_publish_is_durable_witness:
  "rs_status (snd (h_publish ref_lib (fst published)
     (request ''POST'' ''/pub/a'' ''ack_index=1&ack_subject=.a&ack_consumer=c'' null_value))) = 400"
proof -
  let ?req = "request ''POST'' ''/pub/a'' ''ack_index=1&ack_subject=.a&ack_consumer=c'' null_value"
  have facts: "subject_of ?req ''/pub/'' = Inr ''a''" "publish_checks ref_lib ?req = Inr (1, None)"
      "query_u64 ?req ''ack_index'' 0 > 0" "rq_query ?req ''ack_subject'' (BJM_SUBJECT_MAX + 1) = Found ''.a''"
      "rq_query ?req ''ack_consumer'' (BJM_CONSUMER_MAX + 1) = Found ''c''" "\<not> bjm_subject_valid ''.a''"
      "is_ok (snd (bjm_publish ref_lib (a_store (fst published)) ''a'' 1 (rq_body ?req)))" by code_simp+
  from refused_publish_is_durable [OF ref_lib_laws facts surjective_pairing] show ?thesis by blast
qed

definition evil_token :: string where
  "evil_token = [CHR 0x0D, CHR 0x0A] @ ''X-Evil: 1'' @ replicate 120 (CHR ''a'')"

theorem long_token_unchecked_witness:
  "\<exists>t. token_of (request ''PUT'' ''/push/a'' (query_string [(''token'', evil_token)]) []) = Inr t \<and>
     CHR 0x0A \<in> set t \<and> \<not> bjm_token_valid t"
proof -
  have "rq_query (request ''PUT'' ''/push/a'' (query_string [(''token'', evil_token)]) []) =
      sukkal_query_from_string (Some (query_string [(''token'', evil_token)]))" by (simp add: request_def)
  moreover have "CHR 0x00 \<notin> set evil_token" "BJM_TOKEN_MAX < length evil_token"
      "CHR 0x0A \<in> set (take BJM_TOKEN_MAX evil_token)" "\<not> bjm_token_valid (take BJM_TOKEN_MAX evil_token)"
    by code_simp+
  ultimately show ?thesis using long_token_unchecked by blast
qed

section \<open>Plans\<close>

text \<open>
  A take can create a file its plan leaves out: the plan of a request to take jobs from a subject
  does not name the subject's dead-letter channel, and a take that buries a job creates it.
\<close>

theorem take_plan_misses_dead_letters:
  "''a.dead.elog'' \<notin> fst ` set (plan_files ''POST'' ''/take/a'') \<and>
   st_files queue_run2 ''a.dead.elog'' = Absent \<and>
   st_files (a_store (fst (sukkal_dispatch ref_lib (broker_at (queue_run2\<lparr>st_clock := Some 200\<rparr>))
     (request ''POST'' ''/take/a'' ''group=g'' [])))) ''a.dead.elog'' \<noteq> Absent"
proof (intro conjI)
  show "''a.dead.elog'' \<notin> fst ` set (plan_files ''POST'' ''/take/a'')" by code_simp
  show "st_files queue_run2 ''a.dead.elog'' = Absent" by code_simp
  show "st_files (a_store (fst (sukkal_dispatch ref_lib (broker_at (queue_run2\<lparr>st_clock := Some 200\<rparr>))
     (request ''POST'' ''/take/a'' ''group=g'' [])))) ''a.dead.elog'' \<noteq> Absent" by code_simp
qed

end
