(* ===== verification/Policy_Properties.thy ===== *)
theory Policy_Properties
  imports Retention Push_Registry Reference_Library
begin

text \<open>
  The properties of the boundaries a policy implies, of discovery and of the push registry, each
  with a concrete run of the model that shows its hypotheses can hold.
\<close>

section \<open>What a policy drops\<close>

definition policy_run :: "(rtree, rlog) store" where
  "policy_run = fst (bjm_publish ref_lib (fst (bjm_publish ref_lib (ref_store 100) ''a'' 1 [7])) ''a'' 1 [8])"

lemma count_boundary_unat:
  fixes base last_ix n :: u64
  assumes "unat last_ix = unat base + len" and "unat n < len"
  shows "unat (count_boundary n (last_ix - base) last_ix) = unat base + len - unat n + 1 \<or> n = 0"
proof (cases "n = 0")
  case False
  have le: "base \<le> last_ix" "n \<le> last_ix" using assms by (simp_all add: word_le_nat_alt)
  have "unat (last_ix - base) = len" using unat_sub_u64 [OF le(1)] assms(1) by simp
  then have gt: "last_ix - base > n" using assms(2) by (simp add: word_less_nat_alt)
  have "0 < unat n" using False by (simp add: unat_gt_0)
  then have "unat (last_ix - n) + 1 < 2 ^ 64"
    using unat_sub_u64 [OF le(2)] unat_u64_lt [of last_ix] assms(1,2) by simp
  from unat_Suc_u64 [OF this] have "unat (last_ix - n + 1) = unat base + len - unat n + 1"
    using unat_sub_u64 [OF le(2)] assms(1) by simp
  with gt False show ?thesis by (simp only: count_boundary_def simp_thms if_True)
qed simp

text \<open>
  A policy of at most \<open>N\<close> messages, and nothing else, leaves exactly the newest \<open>N\<close> of a
  log that has more: a forced trim at the boundary the policy implies keeps those and no other.
\<close>

theorem count_policy_exact:
  assumes "lib_laws L" and "subject_get L st n False = (st1, Inr s)"
    and "p_max_messages p \<noteq> 0" and "p_max_bytes p = 0" and "p_max_age_s p = 0"
    and "unat (p_max_messages p) < length (msgs L st1 n)"
    and "bjm_trim L st1 n (policy_boundary L st1 s p now) True = (st2, Inr x)"
  shows "msgs L st2 n = drop (length (msgs L st1 n) - unat (p_max_messages p)) (msgs L st1 n)"
proof -
  note el = lib_lawsD(3) [OF assms(1)]
  let ?N = "unat (p_max_messages p)" let ?len = "length (msgs L st1 n)"
  have v: "view_base L (s_log s) = base_of L st1 n" "view_ents L (s_log s) = msgs L st1 n"
    using subject_get_view [OF el assms(2)] subject_get_log [OF el assms(2)] by simp_all
  have ix: "unat (elog_last_index L (s_log s)) = unat (elog_base_index L (s_log s)) + ?len"
    "unat (elog_base_index L (s_log s)) = base_of L st1 n"
    using elog_indexD [OF el] v by simp_all
  have live: "elog_last_index L (s_log s) - elog_base_index L (s_log s) \<noteq> 0"
    using ix(1) assms(6) by (metis diff_eq_eq add_0 add_cancel_right_right less_nat_zero_code)
  have "policy_boundary L st1 s p now =
      count_boundary (p_max_messages p) (elog_last_index L (s_log s) - elog_base_index L (s_log s))
        (elog_last_index L (s_log s))"
    using live assms(4,5) by (simp add: policy_boundary_def bytes_boundary_def Let_def)
  with count_boundary_unat [OF ix(1) assms(6)] assms(3)
  have before: "unat (policy_boundary L st1 s p now) = base_of L st1 n + ?len - ?N + 1"
    by (simp add: ix(2))
  obtain b m where x: "x = (b, m)" by (cases x)
  obtain k where "trimmed_by L st1 n (policy_boundary L st1 s p now) True st2 (Inr x) k"
    using trimD [OF el lib_lawsD(2) [OF assms(1)] assms(7)] .
  then have k: "msgs L st2 n = drop k (msgs L st1 n)"
      "base_of L st1 n + k = max (base_of L st1 n)
         (min (unat (policy_boundary L st1 s p now) - 1) (base_of L st1 n + ?len))"
    unfolding trimmed_by_def x by simp_all
  have "k = ?len - ?N" using k(2) before assms(6) by simp
  with k(1) show ?thesis by simp
qed

definition one_message :: bjm_policy where
  "one_message = \<lparr>p_max_age_s = 0, p_max_messages = 1, p_max_bytes = 0, p_ignore_consumers = True\<rparr>"

theorem count_policy_exact_witness:
  "\<exists>st s b x. subject_get ref_lib policy_run ''a'' False = (st, Inr s) \<and>
     bjm_trim ref_lib st ''a'' (policy_boundary ref_lib st s one_message 0) True = (b, Inr x) \<and>
     msgs ref_lib b ''a'' = drop 1 (msgs ref_lib st ''a'')"
proof -
  define g where "g = subject_get ref_lib policy_run ''a'' False"
  have ok: "is_ok (snd g)" "length (msgs ref_lib (fst g) ''a'') = 2"
    "is_ok (snd (bjm_trim ref_lib (fst g) ''a'' (policy_boundary ref_lib (fst g) (projr (snd g)) one_message 0) True))"
    unfolding g_def by code_simp+
  obtain st s where g: "g = (st, Inr s)" using ok(1) by (cases g) (auto simp: is_ok_iff)
  obtain b x where b: "bjm_trim ref_lib st ''a'' (policy_boundary ref_lib st s one_message 0) True = (b, Inr x)"
    using ok(3) g by (metis fst_conv snd_conv is_ok_iff sum.sel(2) prod.collapse)
  have "msgs ref_lib b ''a'' =
      drop (length (msgs ref_lib st ''a'') - unat (p_max_messages one_message)) (msgs ref_lib st ''a'')"
    by (rule count_policy_exact [OF ref_lib_laws g [unfolded g_def] _ _ _ _ b])
      (use ok(2) g in \<open>simp_all add: one_message_def\<close>)
  moreover have "length (msgs ref_lib st ''a'') - unat (p_max_messages one_message) = 1"
    using ok(2) g by (simp add: one_message_def)
  ultimately show ?thesis using g b unfolding g_def by metis
qed

text \<open>
  The byte boundary can drop far more than the bytes it has to: with one hundred messages in
  199 bytes and a limit of 100, the average rounds down to one byte and all but one message goes,
  where dropping fifty would do.
\<close>

theorem bytes_drop_overshoots:
  "bytes_drop 199 100 100 = 99 \<and> bytes_boundary 100 199 0 100 = 100"
  by code_simp

definition mark_pairs :: "marks \<Rightarrow> (u64 \<times> u64) list" where
  "mark_pairs m = map (\<lambda>k. (m ! (2 * k), m ! (2 * k + 1))) [0..<length m div 2]"

lemma mark_pairs_simps [simp]:
  "mark_pairs [] = []" "mark_pairs [i] = []" "mark_pairs (i # t # m) = (i, t) # mark_pairs m"
proof -
  have "[0..<Suc (length m div 2)] = 0 # map Suc [0..<length m div 2]"
    by (simp add: upt_conv_Cons map_Suc_upt)
  then show "mark_pairs (i # t # m) = (i, t) # mark_pairs m"
    by (simp add: mark_pairs_def o_def)
qed (simp_all add: mark_pairs_def)

text \<open>
  An age boundary is the end of what some mark older than the cutoff covers, and no mark
  older than the cutoff reaches beyond it: a message published after every old mark is kept.
\<close>

theorem age_boundary_exact:
  "(age_boundary cutoff m b = b \<or>
      (\<exists>i t. (i, t) \<in> set (mark_pairs m) \<and> t < cutoff \<and> age_boundary cutoff m b = i + 1)) \<and>
   b \<le> age_boundary cutoff m b \<and>
   list_all (\<lambda>(i, t). t < cutoff \<longrightarrow> i + 1 \<le> age_boundary cutoff m b) (mark_pairs m)"
proof (induction cutoff m b rule: age_boundary.induct)
  case (1 cutoff i t m b)
  let ?b = "if t < cutoff \<and> i + 1 > b then i + 1 else b"
  have "b \<le> ?b" "t < cutoff \<longrightarrow> i + 1 \<le> ?b" by auto
  with 1 show ?case by (auto split: if_splits intro: order_trans)
qed simp_all

theorem age_boundary_exact_witness:
  "age_boundary 10 [4, 5, 9, 12] 0 = 5 \<and>
   list_all (\<lambda>(i, t). t < 10 \<longrightarrow> i + 1 \<le> age_boundary 10 [4, 5, 9, 12] 0) (mark_pairs [4, 5, 9, 12])"
  using age_boundary_exact [of 10 "[4, 5, 9, 12]" 0] by simp

section \<open>Discovery\<close>

lemma subject_of_file: "n \<noteq> [] \<Longrightarrow> subject_of_entry (elog_file n) = Some n"
  by (simp add: subject_of_entry_def elog_file_def Let_def)

lemma fold_snoc: "fold (\<lambda>n ns. ns @ [n]) xs ys = ys @ xs"
  by (induction xs arbitrary: ys) auto

text \<open>
  Listing finds every subject: of a directory listing of log files, in NUL-separated form,
  exactly the names come back, in order; files of other kinds are passed over.
\<close>

theorem listing_finds_subjects:
  assumes "list_all (\<lambda>n. n \<noteq> [] \<and> CHR 0x00 \<notin> set n) names"
  shows "for_each_subject (\<lambda>n ns. ns @ [n]) (concat (map (\<lambda>n. elog_file n @ [CHR 0x00]) names)) [] = names"
proof -
  have nul: "\<forall>e \<in> set (map elog_file names). CHR 0x00 \<notin> set e"
    using assms by (auto simp: elog_file_def SUBJECT_SUFFIX_def list_all_iff)
  have "List.map_filter subject_of_entry (map elog_file names) = names"
    using assms by (induction names) (auto simp: List.map_filter_simps subject_of_file)
  with split_listing_concat [OF nul] show ?thesis
    by (simp add: for_each_subject_def o_def fold_snoc)
qed

theorem listing_finds_subjects_witness:
  "for_each_subject (\<lambda>n ns. ns @ [n]) (concat (map (\<lambda>n. elog_file n @ [CHR 0x00]) [''a'', ''b.c''])) [] = [''a'', ''b.c'']"
  by (rule listing_finds_subjects) simp

section \<open>The push registry\<close>

text \<open>
  What is registered for push delivery is found again, and registering one consumer changes no
  other registration.
\<close>

theorem push_registry_roundtrip:
  assumes "lib_laws L" and "push_sub_wf s" and "bjm_push_set L st c s = (st1, Inr ())"
    and "bjm_push_get L st1 c' = (st2, Inr r)"
  shows "r = (if c' = c then Some s else registered L st c')"
  using push_roundtrip [OF lib_lawsD(1,2) [OF assms(1)] assms(2-4)] .

definition a_push :: bjm_push_sub where
  "a_push = push_sub_zero\<lparr>ps_pattern := ''a.>'', ps_callback := ''http://h/''\<rparr>"

theorem push_registry_roundtrip_witness:
  "\<exists>st1 st2 r. bjm_push_set ref_lib policy_run ''c'' a_push = (st1, Inr ()) \<and>
     bjm_push_get ref_lib st1 ''c'' = (st2, Inr r) \<and> r = Some a_push"
proof -
  define st1 where "st1 = fst (bjm_push_set ref_lib policy_run ''c'' a_push)"
  have "snd (bjm_push_set ref_lib policy_run ''c'' a_push) = Inr ()" by code_simp
  then have set: "bjm_push_set ref_lib policy_run ''c'' a_push = (st1, Inr ())"
    unfolding st1_def by (metis prod.collapse)
  have wf: "push_sub_wf a_push"
    by (simp add: push_sub_wf_def a_push_def push_sub_zero_def BJM_CALLBACK_MAX_def BJM_TOKEN_MAX_def
        BJM_GROUP_MAX_def BJM_SUBJECT_MAX_def exact_int_def)
  have "case st_push st1 of Opened _ \<Rightarrow> True | Closed _ \<Rightarrow> False" unfolding st1_def by code_simp
  then obtain t where t: "st_push st1 = Opened t" by (cases "st_push st1") auto
  have "registered ref_lib st1 ''c'' = Some a_push"
    by (simp add: push_setD [OF ref_bj_laws ref_bpt_laws wf set])
  then obtain b where "view_tree ref_lib t ''c'' = Some b" "is_ok (decode_push ref_lib b)"
    by (auto simp: registered_def t is_ok_iff split: option.splits sum.splits)
  then have "is_ok (snd (bjm_push_get ref_lib st1 ''c''))"
    by (auto simp: bjm_push_get_def push_open_def slot_open_def t push_key_def ref_lib_def is_ok_iff)
  then obtain st2 r where get: "bjm_push_get ref_lib st1 ''c'' = (st2, Inr r)"
    by (cases "bjm_push_get ref_lib st1 ''c''") (auto simp: is_ok_iff)
  from push_registry_roundtrip [OF ref_lib_laws wf set get] set get show ?thesis by auto
qed

end
