(* ===== verification/Client_Options.thy ===== *)
theory Client_Options
  imports Requests
begin

text \<open>
  The command line of the client (\<open>src/src/client.c\<close>): numbers, durations and sizes, the options the
  query commands share, and the options of \<open>pub\<close> and \<open>sub\<close>. An argument vector is a list of strings;
  a parser answers an exit code or the options.
\<close>

definition DEFAULT_URL :: string where "DEFAULT_URL = ''http://127.0.0.1:8080''"
definition DEFAULT_RETRY_MS :: int where "DEFAULT_RETRY_MS = 5000"
definition DEFAULT_HEARTBEAT_MS :: int where "DEFAULT_HEARTBEAT_MS = 30000"

section \<open>Numbers\<close>

text \<open>\<open>strtol\<close> in base ten: a value that does not fit a \<open>long\<close> becomes the nearest that does.\<close>

definition strtol :: "string \<Rightarrow> int" where
  "strtol s =
     (let s = dropWhile is_space s;
          neg = (take 1 s = ''-'');
          s = (if take 1 s = ''-'' \<or> take 1 s = ''+'' then drop 1 s else s);
          v = digits_value (takeWhile is_digit s);
          v = (if neg then - v else v)
      in if v < - 0x8000000000000000 then - 0x8000000000000000
         else if v > 0x7FFFFFFFFFFFFFFF then 0x7FFFFFFFFFFFFFFF else v)"

definition atoi :: "string \<Rightarrow> int" where
  "atoi s = sint (word_of_int (strtol s) :: 32 word)"

definition parse_ms :: "string \<Rightarrow> int option" where
  "parse_ms v = (if strtoull_end v = Some [] \<and> \<not> strtol v < 0 then Some (strtol v) else None)"

definition duration_unit :: "string \<Rightarrow> u64 option" where
  "duration_unit e =
     (if e = [] \<or> e = ''s'' \<or> e = ''S'' then Some 1
      else if e = ''m'' \<or> e = ''M'' then Some 60
      else if e = ''h'' \<or> e = ''H'' then Some 3600
      else if e = ''d'' \<or> e = ''D'' then Some 86400
      else if e = ''w'' \<or> e = ''W'' then Some 604800
      else None)"

definition parse_duration :: "string \<Rightarrow> u64 option" where
  "parse_duration v =
     (case strtoull_end v of
        None \<Rightarrow> None
      | Some e \<Rightarrow> map_option (\<lambda>mult. strtoull v * mult) (duration_unit e))"

text \<open>After its unit, a size may end in a \<open>b\<close>.\<close>

definition size_unit :: "string \<Rightarrow> u64 option" where
  "size_unit e =
     (if e = [] then Some 1
      else if tl e \<noteq> [] \<and> tl e \<noteq> ''b'' \<and> tl e \<noteq> ''B'' then None
      else if hd e = CHR ''k'' \<or> hd e = CHR ''K'' then Some 1024
      else if hd e = CHR ''m'' \<or> hd e = CHR ''M'' then Some (1024 * 1024)
      else if hd e = CHR ''g'' \<or> hd e = CHR ''G'' then Some (1024 * 1024 * 1024)
      else if hd e = CHR ''t'' \<or> hd e = CHR ''T'' then Some (1024 * 1024 * 1024 * 1024)
      else None)"

definition parse_size :: "string \<Rightarrow> u64 option" where
  "parse_size v =
     (case strtoull_end v of
        None \<Rightarrow> None
      | Some e \<Rightarrow> map_option (\<lambda>mult. strtoull v * mult) (size_unit e))"

section \<open>The options of the query commands\<close>

record query_opts =
  o_url_base :: string
  o_subject :: "string option"
  o_consumer :: "string option"
  o_group :: "string option"
  o_exec :: "string option"
  o_to :: "string option"
  o_before :: u64
  o_keep :: u64
  o_index :: u64
  o_max_age :: u64
  o_max_messages :: u64
  o_max_bytes :: u64
  o_lease_ms :: "u64 option"        \<comment> \<open>with \<open>have_lease\<close>\<close>
  o_max_attempts :: "u64 option"
  o_backoff_ms :: "u64 option"
  o_max_backoff_ms :: "u64 option"
  o_delay_ms :: "u64 option"
  o_max :: int
  o_retry_ms :: int
  o_force :: bool
  o_clear :: bool
  o_del :: bool
  o_ignore_consumers :: bool
  o_text :: "string option"
  o_timeout_ms :: u64
  o_raw :: bool
  o_follow :: bool
  o_bind_addr :: "string option"
  o_callback :: "string option"
  o_token :: "string option"
  o_port :: int

definition query_opts_zero :: query_opts where
  "query_opts_zero =
     \<lparr>o_url_base = DEFAULT_URL, o_subject = None, o_consumer = None, o_group = None, o_exec = None,
      o_to = None, o_before = 0, o_keep = 0, o_index = 0, o_max_age = 0, o_max_messages = 0,
      o_max_bytes = 0, o_lease_ms = None, o_max_attempts = None, o_backoff_ms = None,
      o_max_backoff_ms = None, o_delay_ms = None, o_max = 0, o_retry_ms = DEFAULT_RETRY_MS,
      o_force = False, o_clear = False, o_del = False, o_ignore_consumers = False, o_text = None,
      o_timeout_ms = 0, o_raw = False, o_follow = False, o_bind_addr = None, o_callback = None,
      o_token = None, o_port = 0\<rparr>"

text \<open>
  What an option does with its value; the inner \<open>None\<close> is a value it does not accept. The outer
  \<open>None\<close> is an option that takes no value.
\<close>

definition query_value :: "string \<Rightarrow> (string \<Rightarrow> query_opts \<Rightarrow> query_opts option) option" where
  "query_value a =
     (if a = ''--url'' then Some (\<lambda>v q. Some (q\<lparr>o_url_base := v\<rparr>))
      else if a = ''--consumer'' then Some (\<lambda>v q. Some (q\<lparr>o_consumer := Some v\<rparr>))
      else if a = ''--before'' then Some (\<lambda>v q. Some (q\<lparr>o_before := strtoull v\<rparr>))
      else if a = ''--keep'' then Some (\<lambda>v q. Some (q\<lparr>o_keep := strtoull v\<rparr>))
      else if a = ''--index'' then Some (\<lambda>v q. Some (q\<lparr>o_index := strtoull v\<rparr>))
      else if a = ''--max-age'' then Some (\<lambda>v q. map_option (\<lambda>n. q\<lparr>o_max_age := n\<rparr>) (parse_duration v))
      else if a = ''--max-messages'' then Some (\<lambda>v q. Some (q\<lparr>o_max_messages := strtoull v\<rparr>))
      else if a = ''--max-bytes'' then Some (\<lambda>v q. map_option (\<lambda>n. q\<lparr>o_max_bytes := n\<rparr>) (parse_size v))
      else if a = ''--group'' then Some (\<lambda>v q. Some (q\<lparr>o_group := Some v\<rparr>))
      else if a = ''--exec'' then Some (\<lambda>v q. Some (q\<lparr>o_exec := Some v\<rparr>))
      else if a = ''--to'' \<or> a = ''--reply-to'' then Some (\<lambda>v q. Some (q\<lparr>o_to := Some v\<rparr>))
      else if a = ''--timeout'' then
        Some (\<lambda>v q. map_option (\<lambda>n. q\<lparr>o_timeout_ms := n * 1000\<rparr>) (parse_duration v))
      else if a = ''--max'' then Some (\<lambda>v q. Some (q\<lparr>o_max := atoi v\<rparr>))
      else if a = ''--lease'' then
        Some (\<lambda>v q. map_option (\<lambda>n. q\<lparr>o_lease_ms := Some (n * 1000)\<rparr>) (parse_duration v))
      else if a = ''--backoff'' then
        Some (\<lambda>v q. map_option (\<lambda>n. q\<lparr>o_backoff_ms := Some (n * 1000)\<rparr>) (parse_duration v))
      else if a = ''--max-backoff'' then
        Some (\<lambda>v q. map_option (\<lambda>n. q\<lparr>o_max_backoff_ms := Some (n * 1000)\<rparr>) (parse_duration v))
      else if a = ''--delay'' then
        Some (\<lambda>v q. map_option (\<lambda>n. q\<lparr>o_delay_ms := Some (n * 1000)\<rparr>) (parse_duration v))
      else if a = ''--max-attempts'' then Some (\<lambda>v q. Some (q\<lparr>o_max_attempts := Some (strtoull v)\<rparr>))
      else if a = ''--interval'' then Some (\<lambda>v q. Some q)
      else if a = ''--bind'' then Some (\<lambda>v q. Some (q\<lparr>o_bind_addr := Some v\<rparr>))
      else if a = ''--callback'' then Some (\<lambda>v q. Some (q\<lparr>o_callback := Some v\<rparr>))
      else if a = ''--token'' then Some (\<lambda>v q. Some (q\<lparr>o_token := Some v\<rparr>))
      else if a = ''--port'' then Some (\<lambda>v q. Some (q\<lparr>o_port := atoi v\<rparr>))
      else if a = ''--retry'' then Some (\<lambda>v q. map_option (\<lambda>n. q\<lparr>o_retry_ms := n\<rparr>) (parse_ms v))
      else None)"

definition query_flag :: "string \<Rightarrow> (query_opts \<Rightarrow> query_opts) option" where
  "query_flag a =
     (if a = ''--raw'' then Some (\<lambda>q. q\<lparr>o_raw := True\<rparr>)
      else if a = ''--follow'' \<or> a = ''-f'' then Some (\<lambda>q. q\<lparr>o_follow := True\<rparr>)
      else if a = ''--ignore-consumers'' then Some (\<lambda>q. q\<lparr>o_ignore_consumers := True\<rparr>)
      else if a = ''--delete'' then Some (\<lambda>q. q\<lparr>o_del := True\<rparr>)
      else if a = ''--clear'' then Some (\<lambda>q. q\<lparr>o_clear := True\<rparr>)
      else if a = ''--force'' then Some (\<lambda>q. q\<lparr>o_force := True\<rparr>)
      else None)"

definition looks_like_option :: "string \<Rightarrow> bool" where
  "looks_like_option a \<longleftrightarrow> take 1 a = ''-'' \<and> length a > 1"

text \<open>An argument that is no option: the subject, then the text.\<close>

definition query_positional :: "string \<Rightarrow> query_opts \<Rightarrow> query_opts option" where
  "query_positional a q =
     (case (o_subject q, o_text q) of
        (None, _) \<Rightarrow> Some (q\<lparr>o_subject := Some a\<rparr>)
      | (Some _, None) \<Rightarrow> Some (q\<lparr>o_text := Some a\<rparr>)
      | _ \<Rightarrow> None)"

fun query_args :: "string list \<Rightarrow> query_opts \<Rightarrow> int + query_opts" where
  "query_args [] q = Inr q"
| "query_args (a # argv) q =
     (case query_value a of
        Some set_value \<Rightarrow>
          (case argv of
             [] \<Rightarrow> Inl 2
           | v # argv' \<Rightarrow> (case set_value v q of None \<Rightarrow> Inl 2 | Some q \<Rightarrow> query_args argv' q))
      | None \<Rightarrow>
          (case query_flag a of
             Some set_flag \<Rightarrow> query_args argv (set_flag q)
           | None \<Rightarrow>
               if a = ''-h'' \<or> a = ''--help'' then Inl 1
               else if looks_like_option a then Inl 2
               else (case query_positional a q of None \<Rightarrow> Inl 2 | Some q \<Rightarrow> query_args argv q)))"

definition query_parse :: "string list \<Rightarrow> int + query_opts" where
  "query_parse argv = query_args argv query_opts_zero"

end
