(* ===== verification/Text.thy ===== *)
theory Text
  imports Library Decimal
begin

text \<open>
  Rendering a value as text and the shape of an envelope's bytes (\<open>src/src/bjtext.c\<close>). The \<open>FILE\<close> a value
  is printed to is the string of what was printed. How \<open>printf\<close> shows a double that is no integer is a
  parameter.
\<close>

definition RENDER_MAX_DEPTH :: nat where "RENDER_MAX_DEPTH = 64"

text \<open>\<open>kind\<close> is written and never read, so it is left out.\<close>

record rctx =
  r_out :: string
  r_depth :: nat
  r_first :: "bool list"
  r_after_key :: bool

definition emit :: "string \<Rightarrow> rctx \<Rightarrow> rctx" where
  "emit s c = c\<lparr>r_out := r_out c @ s\<rparr>"

text \<open>The separator owed before a value.\<close>

definition sep :: "rctx \<Rightarrow> rctx" where
  "sep c =
     (if r_depth c = 0 then c
      else if r_after_key c then c\<lparr>r_after_key := False\<rparr>
      else (if \<not> r_first c ! r_depth c then emit '','' c else c)\<lparr>r_first := (r_first c)[r_depth c := False]\<rparr>)"

definition push :: "rctx \<Rightarrow> rctx" where
  "push c =
     (if r_depth c < RENDER_MAX_DEPTH
      then c\<lparr>r_depth := r_depth c + 1, r_first := (r_first c)[r_depth c + 1 := True]\<rparr> else c)"

definition pop :: "rctx \<Rightarrow> rctx" where
  "pop c = (if r_depth c > 0 then c\<lparr>r_depth := r_depth c - 1\<rparr> else c)"

definition hex_digit :: "nat \<Rightarrow> char" where
  "hex_digit d = ''0123456789abcdef'' ! d"

definition put_char :: "char \<Rightarrow> string" where
  "put_char ch =
     (if ch = CHR 0x22 then [CHR 0x5C, CHR 0x22]
      else if ch = CHR 0x5C then [CHR 0x5C, CHR 0x5C]
      else if ch = CHR 0x0A then [CHR 0x5C, CHR ''n'']
      else if ch = CHR 0x0D then [CHR 0x5C, CHR ''r'']
      else if ch = CHR 0x09 then [CHR 0x5C, CHR ''t'']
      else if ch < CHR 0x20 then
        [CHR 0x5C, CHR ''u'', CHR ''0'', CHR ''0'', hex_digit (of_char ch div 16), hex_digit (of_char ch mod 16)]
      else [ch])"

definition put_quoted :: "string \<Rightarrow> string" where
  "put_quoted s = CHR 0x22 # concat (map put_char s) @ [CHR 0x22]"

definition put_hex :: "bytes \<Rightarrow> string" where
  "put_hex bs = concat (map (\<lambda>b. [hex_digit (unat b div 16), hex_digit (unat b mod 16)]) bs)"

text \<open>An integral double prints as a \<open>long long\<close>.\<close>

definition put_int :: "u64 \<Rightarrow> string" where
  "put_int v = dec_signed (sint v)"

definition put_binary :: "bytes \<Rightarrow> string" where
  "put_binary b =
     ''bin('' @ dec (int (length b)) @ '')0x'' @ put_hex (if length b > 32 then take 32 b else b) @
     (if length b > 32 then ''...'' else [])"

text \<open>A value that opens nothing, as it is printed; \<open>put_float\<close> is \<open>put_num\<close> of a double.\<close>

fun scalar_text :: "(u64 \<Rightarrow> string) \<Rightarrow> ev \<Rightarrow> string" where
  "scalar_text put_float ENull = ''null''"
| "scalar_text put_float (EBool t) = (if t then ''true'' else ''false'')"
| "scalar_text put_float (EInt v) = put_int v"
| "scalar_text put_float (EFloat v) = put_float v"
| "scalar_text put_float (EStr s) = put_quoted s"
| "scalar_text put_float (EBin b) = put_binary b"
| "scalar_text put_float (EOid b) = ''oid('' @ put_hex (take 12 b) @ '')''"
| "scalar_text put_float (EDate v) = ''date('' @ put_int v @ '')''"
| "scalar_text put_float (EPtr v) = ''ptr('' @ put_int v @ '')''"
| "scalar_text put_float _ = []"

fun render_ev :: "(u64 \<Rightarrow> string) \<Rightarrow> ev \<Rightarrow> rctx \<Rightarrow> rctx" where
  "render_ev put_float (EArr n) c = push (emit ''['' (sep c))"
| "render_ev put_float EArrEnd c = pop (emit '']'' c)"
| "render_ev put_float (EObj n) c = push (emit ''{'' (sep c))"
| "render_ev put_float EObjEnd c = pop (emit ''}'' c)"
| "render_ev put_float (EKey k) c =
     (emit (put_quoted k @ '':'')
       ((if \<not> r_first c ! r_depth c then emit '','' c else c)\<lparr>r_first := (r_first c)[r_depth c := False]\<rparr>))
       \<lparr>r_after_key := True\<rparr>"
| "render_ev put_float e c = emit (scalar_text put_float e) (sep c)"

definition rctx_zero :: rctx where
  "rctx_zero =
     \<lparr>r_out = [], r_depth = 0, r_first = True # replicate RENDER_MAX_DEPTH False, r_after_key = False\<rparr>"

text \<open>
  What is printed. A value that does not decode prints what its front decodes to; that front is a
  parameter's affair, and only the result code is used then.
\<close>

definition bjm_render :: "('t, 'l) lib \<Rightarrow> (u64 \<Rightarrow> string) \<Rightarrow> bytes \<Rightarrow> string res" where
  "bjm_render L put_float data =
     (case bj_decode L data of
        Inl e \<Rightarrow> Inl e
      | Inr evs \<Rightarrow> Inr (r_out (fold (render_ev put_float) evs rctx_zero)))"

section \<open>Splitting an envelope\<close>

text \<open>
  \<open>array_tag\<close> is \<open>BJ_TYPE_ARRAY\<close>. The header of an array is its type byte and two 32-bit numbers.
\<close>

definition bjm_envelope_split ::
    "('t, 'l) lib \<Rightarrow> 8 word \<Rightarrow> bytes \<Rightarrow> (bytes \<times> bytes) option" where
  "bjm_envelope_split L array_tag data =
     (let hdr = 1 + 4 + 4 in
      if length data \<le> hdr \<or> data ! 0 \<noteq> array_tag then None
      else
        (case bj_value_size L (drop hdr data) of
           Inl _ \<Rightarrow> None
         | Inr s0 \<Rightarrow>
             if hdr + s0 \<ge> length data then None
             else
               (case bj_value_size L (drop (hdr + s0) data) of
                  Inl _ \<Rightarrow> None
                | Inr s1 \<Rightarrow>
                    if hdr + s0 + s1 \<noteq> length data then None
                    else Some (take s0 (drop hdr data), take s1 (drop (hdr + s0) data)))))"

section \<open>What is printed\<close>

text \<open>Values as trees, and the text of one, written down directly.\<close>

datatype val = Scalar ev | Arr "val list" | Obj "(string \<times> val) list"

fun val_events :: "val \<Rightarrow> ev list" where
  "val_events (Scalar e) = [e]"
| "val_events (Arr vs) = bj_array (map val_events vs)"
| "val_events (Obj kvs) = bj_object (map (\<lambda>(k, v). (k, val_events v)) kvs)"

definition commas :: "string list \<Rightarrow> string" where
  "commas xs = (case xs of [] \<Rightarrow> [] | x # ys \<Rightarrow> x @ concat (map (\<lambda>y. CHR '','' # y) ys))"

fun val_text :: "(u64 \<Rightarrow> string) \<Rightarrow> val \<Rightarrow> string" where
  "val_text f (Scalar e) = scalar_text f e"
| "val_text f (Arr vs) = ''['' @ commas (map (val_text f) vs) @ '']''"
| "val_text f (Obj kvs) = ''{'' @ commas (map (\<lambda>(k, v). put_quoted k @ '':'' @ val_text f v) kvs) @ ''}''"

fun val_depth :: "val \<Rightarrow> nat" where
  "val_depth (Scalar e) = 0"
| "val_depth (Arr vs) = Suc (foldr max (map val_depth vs) 0)"
| "val_depth (Obj kvs) = Suc (foldr max (map (\<lambda>(k, v). val_depth v) kvs) 0)"

definition is_scalar :: "ev \<Rightarrow> bool" where
  "is_scalar e \<longleftrightarrow>
     (case e of EKey _ \<Rightarrow> False | EArr _ \<Rightarrow> False | EArrEnd \<Rightarrow> False | EObj _ \<Rightarrow> False | EObjEnd \<Rightarrow> False
      | _ \<Rightarrow> True)"

fun proper_val :: "val \<Rightarrow> bool" where
  "proper_val (Scalar e) = is_scalar e"
| "proper_val (Arr vs) = list_all proper_val vs"
| "proper_val (Obj kvs) = list_all (\<lambda>(k, v). proper_val v) kvs"

lemma le_fold_max: "x \<in> set xs \<Longrightarrow> x \<le> foldr max xs (0::nat)"
  by (induction xs) (auto intro: max.coboundedI1 max.coboundedI2)

lemma depth_of_element:
  "v \<in> set vs \<Longrightarrow> val_depth v < val_depth (Arr vs)"
  "(k, v) \<in> set kvs \<Longrightarrow> val_depth v < val_depth (Obj kvs)"
proof -
  show "val_depth v < val_depth (Arr vs)" if "v \<in> set vs"
    using le_fold_max [of "val_depth v" "map val_depth vs"] that by (simp add: less_Suc_eq_le)
  show "val_depth v < val_depth (Obj kvs)" if "(k, v) \<in> set kvs"
  proof -
    have "val_depth v \<in> set (map (\<lambda>(k, v). val_depth v) kvs)" using that by force
    then show ?thesis using le_fold_max [of "val_depth v" "map (\<lambda>(k, v). val_depth v) kvs"]
      by (simp add: less_Suc_eq_le)
  qed
qed

text \<open>The printer's state between values, and what a value leaves of it.\<close>

definition ready :: "rctx \<Rightarrow> bool" where
  "ready c \<longleftrightarrow> length (r_first c) = 65 \<and> r_depth c \<le> 64 \<and>
     (r_after_key c \<longrightarrow> 0 < r_depth c \<and> \<not> r_first c ! r_depth c)"

definition comma :: "rctx \<Rightarrow> string" where
  "comma c = (if r_depth c = 0 \<or> r_after_key c \<or> r_first c ! r_depth c then [] else '','')"

definition wrote :: "rctx \<Rightarrow> string \<Rightarrow> rctx \<Rightarrow> bool" where
  "wrote c s c' \<longleftrightarrow>
     r_out c' = r_out c @ s \<and> r_depth c' = r_depth c \<and> \<not> r_after_key c' \<and> length (r_first c') = 65 \<and>
     (\<forall>i < r_depth c. r_first c' ! i = r_first c ! i)"

abbreviation begun :: "rctx \<Rightarrow> bool" where
  "begun c \<equiv> 0 < r_depth c \<longrightarrow> \<not> r_first c ! r_depth c"

lemma sep_wrote: "ready c \<Longrightarrow> wrote c (comma c) (sep c) \<and> begun (sep c)"
proof (cases "r_depth c = 0")
  case True
  then show "ready c \<Longrightarrow> wrote c (comma c) (sep c) \<and> begun (sep c)"
    by (simp add: ready_def wrote_def comma_def sep_def)
next
  case False
  then show "ready c \<Longrightarrow> wrote c (comma c) (sep c) \<and> begun (sep c)"
    by (cases "r_after_key c"; cases "r_first c ! r_depth c")
      (simp_all add: ready_def wrote_def comma_def sep_def emit_def)
qed

lemma emit_wrote: "wrote c s c' \<Longrightarrow> wrote c (s @ t) (emit t c')"
  by (simp add: wrote_def emit_def)

lemma wrote_trans: "wrote c s c1 \<Longrightarrow> wrote c1 t c2 \<Longrightarrow> wrote c (s @ t) c2"
  by (simp add: wrote_def)

lemma wrote_ready: "ready c \<Longrightarrow> wrote c s c' \<Longrightarrow> ready c'"
  by (simp add: ready_def wrote_def)

text \<open>Opening a level, writing inside it, and closing it.\<close>

lemma level_wrote:
  assumes c: "ready c" "r_depth c < 64" and inner: "wrote (push (emit [l] (sep c))) s c'"
  shows "wrote c (comma c @ l # s @ [r]) (pop (emit [r] c')) \<and> begun (pop (emit [r] c'))"
proof -
  let ?s = "sep c"
  have s: "wrote c (comma c) ?s" "begun ?s" using sep_wrote [OF c(1)] by auto
  have p: "r_depth (push (emit [l] ?s)) = Suc (r_depth c)" "r_out (push (emit [l] ?s)) = r_out ?s @ [l]"
    "\<forall>i \<le> r_depth c. r_first (push (emit [l] ?s)) ! i = r_first ?s ! i"
    using s(1) c(2) by (auto simp: push_def emit_def wrote_def RENDER_MAX_DEPTH_def)
  have "r_first c' ! i = r_first ?s ! i" if "i \<le> r_depth c" for i
    using inner p(1,3) that by (simp add: wrote_def)
  then show ?thesis
    using inner s p by (auto simp: wrote_def pop_def emit_def)
qed

lemma opened: "ready c \<Longrightarrow> r_depth c < 64 \<Longrightarrow>
     ready (push (emit s (sep c))) \<and> \<not> r_after_key (push (emit s (sep c))) \<and>
     r_depth (push (emit s (sep c))) = Suc (r_depth c) \<and>
     r_first (push (emit s (sep c))) ! Suc (r_depth c)"
  using sep_wrote [of c] by (auto simp: ready_def push_def emit_def wrote_def RENDER_MAX_DEPTH_def)

text \<open>The elements of one level, each written after the comma it owes.\<close>

definition rest_text :: "bool \<Rightarrow> string list \<Rightarrow> string" where
  "rest_text fresh xs = (if fresh then commas xs else concat (map (\<lambda>y. CHR '','' # y) xs))"

lemma rest_text_Cons: "rest_text fresh (x # xs) = (if fresh then [] else '','') @ x @ rest_text False xs"
  by (simp add: rest_text_def commas_def)

lemma elements_wrote:
  assumes "\<And>e c. e \<in> set es \<Longrightarrow> ready c \<Longrightarrow> \<not> r_after_key c \<Longrightarrow> r_depth c = d \<Longrightarrow>
             wrote c (comma c @ text e) (fold (render_ev f) (events e) c) \<and> begun (fold (render_ev f) (events e) c)"
    and "ready c" and "\<not> r_after_key c" and "r_depth c = d" and "0 < d"
  shows "wrote c (rest_text (r_first c ! d) (map text es)) (fold (render_ev f) (concat (map events es)) c)"
  using assms
proof (induction es arbitrary: c)
  case Nil
  then show ?case by (auto simp: wrote_def ready_def rest_text_def commas_def)
next
  case (Cons e es)
  let ?c = "fold (render_ev f) (events e) c"
  have one: "wrote c (comma c @ text e) ?c" "begun ?c" using Cons.prems by auto
  have c: "ready ?c" "\<not> r_after_key ?c" "r_depth ?c = d"
    using wrote_ready [OF Cons.prems(2) one(1)] one(1) Cons.prems(4) by (simp_all add: wrote_def)
  have "wrote ?c (rest_text (r_first ?c ! d) (map text es)) (fold (render_ev f) (concat (map events es)) ?c)"
    using Cons.IH [of ?c] Cons.prems(1,5) c by auto
  moreover have "\<not> r_first ?c ! d" using one(2) c(3) Cons.prems(5) by simp
  moreover have "comma c = (if r_first c ! d then [] else '','')"
    using Cons.prems(3,4,5) by (simp add: comma_def)
  ultimately show ?case using wrote_trans [OF one(1)] by (fastforce simp: rest_text_Cons)
qed

lemma key_wrote:
  assumes "ready c" and "\<not> r_after_key c" and "0 < r_depth c"
  shows "r_out (render_ev f (EKey k) c) = r_out c @ comma c @ put_quoted k @ '':'' \<and>
         r_depth (render_ev f (EKey k) c) = r_depth c \<and> ready (render_ev f (EKey k) c) \<and>
         r_after_key (render_ev f (EKey k) c) \<and>
         (\<forall>i < r_depth c. r_first (render_ev f (EKey k) c) ! i = r_first c ! i)"
  using assms by (auto simp: ready_def comma_def emit_def)

lemma value_wrote:
  "proper_val v \<Longrightarrow> ready c \<Longrightarrow> r_depth c + val_depth v \<le> 64 \<Longrightarrow>
     wrote c (comma c @ val_text f v) (fold (render_ev f) (val_events v) c) \<and>
     begun (fold (render_ev f) (val_events v) c)"
proof (induction v arbitrary: c)
  case (Scalar e)
  have "render_ev f e c = emit (scalar_text f e) (sep c)"
    using Scalar.prems(1) by (cases e) (simp_all add: is_scalar_def)
  then show ?case using sep_wrote [OF Scalar.prems(2)] emit_wrote by (auto simp: emit_def)
next
  case (Arr vs)
  have d: "r_depth c < 64" using Arr.prems(3) by simp
  let ?c = "push (emit ''['' (sep c))"
  have o: "ready ?c" "\<not> r_after_key ?c" "r_depth ?c = Suc (r_depth c)" "r_first ?c ! Suc (r_depth c)"
    using opened [OF Arr.prems(2) d] by auto
  have "wrote e (comma e @ val_text f v) (fold (render_ev f) (val_events v) e) \<and>
        begun (fold (render_ev f) (val_events v) e)"
    if "v \<in> set vs" "ready e" "r_depth e = Suc (r_depth c)" for v e
    using Arr.IH [OF that(1) _ that(2)] Arr.prems(1,3) depth_of_element(1) [OF that(1)] that(1,3)
    by (auto simp: list_all_iff simp del: val_depth.simps)
  then have "wrote ?c (rest_text True (map (val_text f) vs)) (fold (render_ev f) (concat (map val_events vs)) ?c)"
    using elements_wrote [of vs "Suc (r_depth c)" "val_text f" f val_events ?c] o by auto
  from level_wrote [OF Arr.prems(2) d this, of "CHR '']''"] show ?case
    by (simp add: bj_array_def rest_text_def)
next
  case (Obj kvs)
  have d: "r_depth c < 64" using Obj.prems(3) by simp
  let ?c = "push (emit ''{'' (sep c))"
  let ?text = "\<lambda>(k, v). put_quoted k @ '':'' @ val_text f v" and ?events = "\<lambda>(k, v). EKey k # val_events v"
  have o: "ready ?c" "\<not> r_after_key ?c" "r_depth ?c = Suc (r_depth c)" "r_first ?c ! Suc (r_depth c)"
    using opened [OF Obj.prems(2) d] by auto
  have "wrote e (comma e @ ?text kv) (fold (render_ev f) (?events kv) e) \<and>
        begun (fold (render_ev f) (?events kv) e)"
    if kv: "kv \<in> set kvs" and e: "ready e" "\<not> r_after_key e" "r_depth e = Suc (r_depth c)" for kv e
  proof -
    obtain k v where p: "kv = (k, v)" by (cases kv)
    let ?e = "render_ev f (EKey k) e"
    have k: "r_out ?e = r_out e @ comma e @ put_quoted k @ '':''" "r_depth ?e = r_depth e" "ready ?e"
        "r_after_key ?e" "\<forall>i < r_depth e. r_first ?e ! i = r_first e ! i"
      using key_wrote [OF e(1,2), of f k] e(3) by auto
    have "wrote ?e (comma ?e @ val_text f v) (fold (render_ev f) (val_events v) ?e) \<and>
          begun (fold (render_ev f) (val_events v) ?e)"
      using Obj.IH [of kv v ?e] kv p k(2,3) e(3) Obj.prems(1,3) depth_of_element(2) [of k v kvs]
      by (auto simp: list_all_iff simp del: val_depth.simps)
    moreover have "comma ?e = []" using k(4) by (simp add: comma_def)
    ultimately show ?thesis using k p by (auto simp: wrote_def)
  qed
  then have "wrote ?c (rest_text True (map ?text kvs)) (fold (render_ev f) (concat (map ?events kvs)) ?c)"
    using elements_wrote [of kvs "Suc (r_depth c)" ?text f ?events ?c] o by auto
  from level_wrote [OF Obj.prems(2) d this, of "CHR ''}''"] show ?case
    by (simp add: bj_object_def rest_text_def o_def case_prod_unfold)
qed

text \<open>
  C37: What is printed for a value is its text: for every value nested at most 64 deep, the printer,
  which sees one callback at a time and keeps only a depth and a flag per level, prints the same as
  the text written down by recursion on the value, with every comma, colon and bracket in its place.
\<close>

theorem render_is_text:
  assumes "bj_decode L data = Inr (val_events v)" and "proper_val v" and "val_depth v \<le> 64"
  shows "bjm_render L put_float data = Inr (val_text put_float v)"
proof -
  have "ready rctx_zero" by (simp add: ready_def rctx_zero_def RENDER_MAX_DEPTH_def)
  from value_wrote [OF assms(2) this, of put_float] assms(3)
  have "r_out (fold (render_ev put_float) (val_events v) rctx_zero) = val_text put_float v"
    by (simp add: wrote_def comma_def rctx_zero_def)
  then show ?thesis by (simp add: bjm_render_def assms(1))
qed

end
