(* ===== verification/Client_Requests.thy ===== *)
theory Client_Requests
  imports Client_Options Text
begin

text \<open>
  The requests of the client (\<open>src/src/client.c\<close>): performing one over a connection that may fail,
  the URLs of the query commands, registering for pushed deliveries, and publishing. libcurl is a
  parameter: what it makes of each attempt, and how it escapes a string.
\<close>

section \<open>Performing a request\<close>

datatype curl_code =
    CURLE_OK
  | CURLE_COULDNT_CONNECT | CURLE_COULDNT_RESOLVE_HOST | CURLE_COULDNT_RESOLVE_PROXY
  | CURLE_SEND_ERROR | CURLE_RECV_ERROR | CURLE_GOT_NOTHING | CURLE_PARTIAL_FILE
  | CURLE_OPERATION_TIMEDOUT
  | CURLE_OTHER int

record client =
  c_body :: bytes
  c_last_index :: u64
  c_acked :: u64
  c_skipped :: u64
  c_retry_ms :: int
  c_waiting :: bool

definition client_init :: "int \<Rightarrow> client" where
  "client_init retry_ms =
     \<lparr>c_body = [], c_last_index = 0, c_acked = 0, c_skipped = 0, c_retry_ms = retry_ms, c_waiting = False\<rparr>"

text \<open>Where the value of a header line begins, or 0.\<close>

definition header_is :: "string \<Rightarrow> string \<Rightarrow> nat" where
  "header_is line name =
     (let n = length name in
      if length line \<le> n then 0
      else if map to_lower (take n line) = name then n else 0)"

definition on_header :: "string \<Rightarrow> client \<Rightarrow> client" where
  "on_header line c =
     (if header_is line ''x-sukkal-last-index:'' \<noteq> 0
      then c\<lparr>c_last_index := strtoull (drop (header_is line ''x-sukkal-last-index:'') line)\<rparr>
      else if header_is line ''x-sukkal-acked:'' \<noteq> 0
      then c\<lparr>c_acked := strtoull (drop (header_is line ''x-sukkal-acked:'') line)\<rparr>
      else if header_is line ''x-sukkal-skipped:'' \<noteq> 0
      then c\<lparr>c_skipped := strtoull (drop (header_is line ''x-sukkal-skipped:'') line)\<rparr>
      else c)"

definition never_arrived :: "curl_code \<Rightarrow> bool" where
  "never_arrived rc \<longleftrightarrow>
     rc = CURLE_COULDNT_CONNECT \<or> rc = CURLE_COULDNT_RESOLVE_HOST \<or> rc = CURLE_COULDNT_RESOLVE_PROXY"

definition broke_midway :: "curl_code \<Rightarrow> bool" where
  "broke_midway rc \<longleftrightarrow>
     rc = CURLE_SEND_ERROR \<or> rc = CURLE_RECV_ERROR \<or> rc = CURLE_GOT_NOTHING \<or>
     rc = CURLE_PARTIAL_FILE \<or> rc = CURLE_OPERATION_TIMEDOUT"

text \<open>
  What happens at each turn of the loop: the user has interrupted, or an attempt is made and libcurl
  reports a code, the header lines and the body it received, and a status.
\<close>

record transfer =
  x_rc :: curl_code
  x_headers :: "string list"
  x_body :: bytes
  x_status :: int

datatype turn = Stopped | Tried transfer

definition receive :: "transfer \<Rightarrow> client \<Rightarrow> client" where
  "receive t c = fold on_header (x_headers t) (c\<lparr>c_body := x_body t\<rparr>)"

definition retryable :: "bool \<Rightarrow> curl_code \<Rightarrow> bool" where
  "retryable idempotent rc \<longleftrightarrow> never_arrived rc \<or> idempotent \<and> broke_midway rc"

text \<open>
  The status, or -1; what is left of the turns; \<open>None\<close> while it still waits for the broker when the
  turns are used up.
\<close>

fun client_perform_ex :: "bool \<Rightarrow> client \<Rightarrow> turn list \<Rightarrow> client \<times> (int \<times> turn list) option" where
  "client_perform_ex idempotent c [] = (c, None)"
| "client_perform_ex idempotent c (Stopped # turns) = (c, Some (- 1, turns))"
| "client_perform_ex idempotent c (Tried t # turns) =
     (let c = receive t c in
      if x_rc t = CURLE_OK then (c\<lparr>c_waiting := False\<rparr>, Some (x_status t, turns))
      else if \<not> retryable idempotent (x_rc t) \<or> c_retry_ms c \<le> 0 then (c, Some (- 1, turns))
      else client_perform_ex idempotent (c\<lparr>c_waiting := True\<rparr>) turns)"

definition client_perform :: "client \<Rightarrow> turn list \<Rightarrow> client \<times> (int \<times> turn list) option" where
  "client_perform c turns = client_perform_ex True c turns"

text \<open>A query command's request: its exit code, and the answer it prints.\<close>

definition query_run :: "int \<Rightarrow> turn list \<Rightarrow> (int \<times> bytes option) option" where
  "query_run retry_ms turns =
     (case client_perform (client_init retry_ms) turns of
        (c, None) \<Rightarrow> None
      | (c, Some (status, _)) \<Rightarrow> Some (if status = 200 then (0, Some (c_body c)) else (1, None)))"

section \<open>URLs\<close>

text \<open>
  \<open>snprintf\<close> into a buffer keeps what fits before the final NUL. Appending with
  \<open>snprintf(url + n, sizeof url - n, ...)\<close> is \<open>url_put\<close>: the text written so far in full, of which the
  buffer holds the front; \<open>None\<close> when \<open>n\<close> has passed the end and the size wraps around.
\<close>

definition fit :: "nat \<Rightarrow> string \<Rightarrow> string" where
  "fit cap s = take (cap - 1) s"

definition url_put :: "nat \<Rightarrow> string \<Rightarrow> string option \<Rightarrow> string option" where
  "url_put cap extra u =
     (case u of None \<Rightarrow> None | Some s \<Rightarrow> if length s > cap then None else Some (s @ extra))"

definition checked :: "(string \<Rightarrow> bool) \<Rightarrow> string option \<Rightarrow> bool" where
  "checked valid s = (case s of None \<Rightarrow> False | Some x \<Rightarrow> valid x)"

text \<open>
  What a command does: an exit code at once, or a request with a method and a URL (\<open>None\<close> for one
  written outside its buffer).
\<close>

type_synonym asked = "int + string \<times> string option"

definition ask :: "string \<Rightarrow> string \<Rightarrow> asked" where
  "ask verb url = Inr (verb, Some (fit 1024 url))"

definition with_opts :: "string list \<Rightarrow> (query_opts \<Rightarrow> asked) \<Rightarrow> asked" where
  "with_opts argv command =
     (case query_parse argv of Inl rc \<Rightarrow> Inl (if rc = 1 then 0 else rc) | Inr q \<Rightarrow> command q)"

definition bjm_cmd_consumers :: "string list \<Rightarrow> asked" where
  "bjm_cmd_consumers argv = with_opts argv (\<lambda>q.
     if \<not> checked bjm_subject_valid (o_subject q) then Inl 2
     else ask ''GET'' (o_url_base q @ ''/consumers/'' @ the (o_subject q)))"

definition bjm_cmd_push :: "string list \<Rightarrow> asked" where
  "bjm_cmd_push argv = with_opts argv (\<lambda>q.
     if o_del q then
       if \<not> checked bjm_consumer_valid (o_consumer q) then Inl 2
       else ask ''DELETE'' (o_url_base q @ ''/push?consumer='' @ the (o_consumer q))
     else ask ''GET'' (o_url_base q @ ''/push''))"

definition bjm_cmd_unsubscribe :: "string list \<Rightarrow> asked" where
  "bjm_cmd_unsubscribe argv = with_opts argv (\<lambda>q.
     if \<not> checked bjm_subject_valid (o_subject q) \<or> \<not> checked bjm_consumer_valid (o_consumer q) then Inl 2
     else ask ''DELETE'' (o_url_base q @ ''/consumers/'' @ the (o_subject q) @ ''?consumer='' @ the (o_consumer q)))"

definition bjm_cmd_policy :: "string list \<Rightarrow> asked" where
  "bjm_cmd_policy argv = with_opts argv (\<lambda>q.
     case o_subject q of
       None \<Rightarrow> ask ''GET'' (o_url_base q @ ''/policies'')
     | Some subject \<Rightarrow>
         if \<not> bjm_subject_valid subject then Inl 2
         else if o_clear q then ask ''DELETE'' (o_url_base q @ ''/policy/'' @ subject)
         else if o_max_age q = 0 \<and> o_max_messages q = 0 \<and> o_max_bytes q = 0 \<and> \<not> o_ignore_consumers q
         then ask ''GET'' (o_url_base q @ ''/policy/'' @ subject)
         else
           let url = o_url_base q @ ''/policy/'' @ subject @ ''?max_age_s='' @ dec_u64 (o_max_age q) @
                 ''&max_messages='' @ dec_u64 (o_max_messages q) @ ''&max_bytes='' @ dec_u64 (o_max_bytes q) @
                 ''&ignore_consumers='' @ (if o_ignore_consumers q then ''1'' else ''0'')
           in if length url \<ge> 1024 then Inl 2 else ask ''PUT'' url)"

definition or_default :: "u64 option \<Rightarrow> u64 \<Rightarrow> u64" where
  "or_default v d = (case v of Some n \<Rightarrow> n | None \<Rightarrow> d)"

definition bjm_cmd_queue :: "string list \<Rightarrow> asked" where
  "bjm_cmd_queue argv = with_opts argv (\<lambda>q.
     if \<not> checked bjm_subject_valid (o_subject q) \<or> (o_group q \<noteq> None \<and> \<not> checked bjm_group_valid (o_group q))
     then Inl 2
     else
       let url = o_url_base q @ ''/queue/'' @ the (o_subject q) in
       case o_group q of
         None \<Rightarrow> ask ''GET'' url
       | Some g \<Rightarrow>
           if o_del q then ask ''DELETE'' (url @ ''?group='' @ g)
           else ask ''PUT'' (url @ ''?group='' @ g @
             ''&lease_ms='' @ dec_u64 (or_default (o_lease_ms q) BJM_LEASE_DEFAULT_MS) @
             ''&max_attempts='' @ dec_u64 (or_default (o_max_attempts q) BJM_MAX_ATTEMPTS_DEFAULT) @
             ''&backoff_ms='' @ dec_u64 (or_default (o_backoff_ms q) BJM_BACKOFF_DEFAULT_MS) @
             ''&max_backoff_ms='' @ dec_u64 (or_default (o_max_backoff_ms q) BJM_MAX_BACKOFF_DEFAULT_MS)))"

text \<open>A parameter appended only when what is there already fits.\<close>

definition append_if_fits :: "string \<Rightarrow> string \<Rightarrow> string" where
  "append_if_fits url extra = (if length url < 1024 then url @ extra else url)"

definition take_url :: "query_opts \<Rightarrow> int \<Rightarrow> string" where
  "take_url q n =
     (let url = o_url_base q @ ''/take/'' @ the (o_subject q) @ ''?group='' @ the (o_group q) @
                ''&max='' @ dec_signed n
      in case o_lease_ms q of
           None \<Rightarrow> url
         | Some lease \<Rightarrow> append_if_fits url (''&lease='' @ dec_u64 lease))"

definition bjm_cmd_take :: "string list \<Rightarrow> asked" where
  "bjm_cmd_take argv = with_opts argv (\<lambda>q.
     if \<not> checked bjm_subject_valid (o_subject q) \<or> \<not> checked bjm_group_valid (o_group q) then Inl 2
     else ask ''POST'' (take_url q (if o_max q > 0 then o_max q else 1)))"

definition job_end :: "string \<Rightarrow> string list \<Rightarrow> asked" where
  "job_end verb argv = with_opts argv (\<lambda>q.
     if \<not> checked bjm_subject_valid (o_subject q) \<or> \<not> checked bjm_group_valid (o_group q) \<or> o_index q = 0
     then Inl 2
     else
       let url = o_url_base q @ ''/'' @ verb @ ''/'' @ the (o_subject q) @ ''?group='' @ the (o_group q) @
                 ''&index='' @ dec_u64 (o_index q)
       in ask ''POST'' (case o_delay_ms q of
            None \<Rightarrow> url
          | Some d \<Rightarrow> append_if_fits url (''&delay='' @ dec_u64 d)))"

definition bjm_cmd_done :: "string list \<Rightarrow> asked" where
  "bjm_cmd_done argv = job_end ''done'' argv"

definition bjm_cmd_fail :: "string list \<Rightarrow> asked" where
  "bjm_cmd_fail argv = job_end ''fail'' argv"

definition bjm_cmd_dead :: "string list \<Rightarrow> asked" where
  "bjm_cmd_dead argv = with_opts argv (\<lambda>q.
     if \<not> checked bjm_subject_valid (o_subject q) then Inl 2
     else ask ''GET'' (o_url_base q @ ''/dead/'' @ the (o_subject q) @ ''?from='' @
            dec_u64 (if o_before q \<noteq> 0 then o_before q else 1)))"

definition bjm_cmd_requeue :: "string list \<Rightarrow> asked" where
  "bjm_cmd_requeue argv = with_opts argv (\<lambda>q.
     if \<not> checked bjm_subject_valid (o_subject q) \<or> o_index q = 0 then Inl 2
     else ask ''POST'' (o_url_base q @ ''/requeue/'' @ the (o_subject q) @ ''?index='' @ dec_u64 (o_index q)))"

definition bjm_cmd_seek :: "string list \<Rightarrow> asked" where
  "bjm_cmd_seek argv = with_opts argv (\<lambda>q.
     if \<not> checked bjm_subject_valid (o_subject q) \<or> \<not> checked bjm_consumer_valid (o_consumer q) \<or> o_index q = 0
     then Inl 2
     else ask ''POST'' (o_url_base q @ ''/ack/'' @ the (o_subject q) @ ''?consumer='' @ the (o_consumer q) @
            ''&index='' @ dec_u64 (o_index q)))"

text \<open>\<open>curl_easy_escape\<close> answers \<open>None\<close> when it has no memory.\<close>

definition bjm_cmd_subjects :: "(string \<Rightarrow> string option) \<Rightarrow> string list \<Rightarrow> asked" where
  "bjm_cmd_subjects escape argv = with_opts argv (\<lambda>q.
     case o_subject q of
       None \<Rightarrow> ask ''GET'' (o_url_base q @ ''/subjects'')
     | Some pattern \<Rightarrow>
         if \<not> bjm_pattern_valid pattern then Inl 2
         else ask ''GET'' (o_url_base q @ ''/subjects?pattern='' @
                (case escape pattern of Some esc \<Rightarrow> esc | None \<Rightarrow> pattern)))"

definition bjm_cmd_info :: "string list \<Rightarrow> asked" where
  "bjm_cmd_info argv = with_opts argv (\<lambda>q.
     if \<not> checked bjm_subject_valid (o_subject q) then Inl 2
     else ask ''GET'' (o_url_base q @ ''/info/'' @ the (o_subject q)))"

definition bjm_cmd_health :: "string list \<Rightarrow> asked" where
  "bjm_cmd_health argv = with_opts argv (\<lambda>q. ask ''GET'' (o_url_base q @ ''/health''))"

definition bjm_cmd_trim :: "string list \<Rightarrow> asked" where
  "bjm_cmd_trim argv = with_opts argv (\<lambda>q.
     if \<not> checked bjm_subject_valid (o_subject q) \<or> (o_before q = 0 \<and> o_keep q = 0) then Inl 2
     else
       let url = url_put 1024 (if o_keep q \<noteq> 0 then ''keep='' @ dec_u64 (o_keep q) else ''before='' @ dec_u64 (o_before q))
                   (Some (o_url_base q @ ''/trim/'' @ the (o_subject q) @ ''?''));
           url = (if o_force q then url_put 1024 ''&force=1'' url else url)
       in Inr (''POST'', map_option (fit 1024) url))"

section \<open>Registering for deliveries\<close>

text \<open>What \<open>sub\<close>, \<open>work\<close>, \<open>pipe\<close> and \<open>reply\<close> share; the handler is in the theory of receivers.\<close>

record receiver_spec =
  sp_url_base :: string
  sp_pattern :: string
  sp_consumer :: string
  sp_group :: "string option"
  sp_bind_addr :: "string option"
  sp_callback :: "string option"
  sp_token :: string
  sp_path :: string
  sp_batch :: u64
  sp_max_jobs :: u64
  sp_from :: u64
  sp_retry_ms :: int
  sp_heartbeat_ms :: int
  sp_port :: int
  sp_tail :: bool
  sp_keep :: bool
  sp_ephemeral :: bool

definition host_for_url :: "string \<Rightarrow> string" where
  "host_for_url ip = fit 80 (if CHR '':'' \<in> set ip then ''['' @ ip @ '']'' else ip)"

text \<open>The callback this receiver announces, listening on \<open>port\<close> of the address \<open>ip\<close>.\<close>

definition self_url :: "receiver_spec \<Rightarrow> string \<Rightarrow> int \<Rightarrow> string" where
  "self_url sp ip port =
     fit (BJM_CALLBACK_MAX + 1)
       (case sp_callback sp of
          Some cb \<Rightarrow> cb
        | None \<Rightarrow> ''http://'' @ host_for_url ip @ '':'' @ dec_signed port @ sp_path sp)"

text \<open>
  The URL of a registration. The outer \<open>None\<close> is a failure reported as -1, the inner one a URL
  written outside its buffer.
\<close>

definition push_register_at ::
    "(string \<Rightarrow> string option) \<Rightarrow> string \<Rightarrow> string \<Rightarrow> string \<Rightarrow> string option \<Rightarrow> string \<Rightarrow> string
      \<Rightarrow> u64 \<Rightarrow> u64 \<Rightarrow> bool \<Rightarrow> u64 \<Rightarrow> string option option" where
  "push_register_at escape url_base pattern consumer group_name callback token batch max_jobs tail from =
     (case escape callback of
        None \<Rightarrow> None
      | Some esc_cb \<Rightarrow>
          let url = url_base @ ''/push/'' @ pattern @ ''?consumer='' @ consumer @ ''&callback='' @ esc_cb in
          if length url \<ge> 2048 then None
          else
            let u = Some url;
                u = (case group_name of
                       Some g \<Rightarrow> if g \<noteq> [] then url_put 2048 (''&group='' @ g) u else u
                     | None \<Rightarrow> u);
                u = (if max_jobs \<noteq> 0 then url_put 2048 (''&max='' @ dec_u64 max_jobs) u else u);
                u = (if token \<noteq> [] then url_put 2048 (''&token='' @ token) u else u);
                u = (if batch \<noteq> 0 then url_put 2048 (''&batch='' @ dec_u64 batch) u else u);
                u = (if tail then url_put 2048 ''&start=last'' u
                     else if from > 1 then url_put 2048 (''&from='' @ dec_u64 from) u else u)
            in Some (map_option (fit 2048) u))"

definition push_register ::
    "(string \<Rightarrow> string option) \<Rightarrow> receiver_spec \<Rightarrow> string \<Rightarrow> string option option" where
  "push_register escape sp callback =
     push_register_at escape (sp_url_base sp) (sp_pattern sp) (sp_consumer sp) (sp_group sp) callback
       (sp_token sp) (sp_batch sp) (sp_max_jobs sp) (sp_tail sp) (sp_from sp)"

definition push_unregister :: "string \<Rightarrow> string \<Rightarrow> bool \<Rightarrow> string" where
  "push_unregister url_base consumer purge =
     fit 1024 (url_base @ ''/push?consumer='' @ consumer @ (if purge then ''&purge=1'' else []))"

section \<open>Names nobody has to choose\<close>

function hexs :: "nat \<Rightarrow> string" where
  "hexs n = (if n < 16 then [hex_digit n] else hexs (n div 16) @ [hex_digit (n mod 16)])"
  by pat_completeness auto
termination
  by (relation "measure id") auto

declare hexs.simps [simp del]

text \<open>The bytes of \<open>/dev/urandom\<close> are a parameter.\<close>

definition random_hex :: "bytes \<Rightarrow> string" where
  "random_hex raw = concat (map (\<lambda>b. [hex_digit (unat b div 16), hex_digit (unat b mod 16)]) raw)"

definition make_auto_id :: "nat \<Rightarrow> nat \<Rightarrow> nat \<Rightarrow> string" where
  "make_auto_id sec nsec pid = fit 64 (''auto-'' @ hexs sec @ ''-'' @ hexs nsec @ ''-'' @ hexs pid)"

text \<open>Consumer and token: as given, or made from 8 and 16 random bytes.\<close>

definition receiver_identity ::
    "string option \<Rightarrow> string \<Rightarrow> string option \<Rightarrow> bytes \<Rightarrow> bytes \<Rightarrow> string \<times> string" where
  "receiver_identity consumer prefix token raw8 raw16 =
     (case consumer of Some c \<Rightarrow> c | None \<Rightarrow> fit (BJM_CONSUMER_MAX + 1) (prefix @ ''-'' @ random_hex raw8),
      case token of Some t \<Rightarrow> t | None \<Rightarrow> random_hex raw16)"

end
