(* ===== verification/Client_Commands.thy ===== *)
theory Client_Commands
  imports Client_Requests
begin

text \<open>
  The commands of the client that publish or receive (\<open>src/src/client.c\<close>): the arguments and the request
  of \<open>pub\<close>, and what \<open>sub\<close>, \<open>work\<close>, \<open>pipe\<close> and \<open>reply\<close> register.
\<close>

section \<open>pub\<close>

record pub_opts =
  po_url_base :: string
  po_subject :: "string option"
  po_text :: "string option"
  po_file :: "string option"
  po_id :: "string option"
  po_hdrs :: "string list"
  po_int :: "int option"
  po_auto_id :: bool
  po_retry_ms :: int

definition pub_opts_zero :: pub_opts where
  "pub_opts_zero =
     \<lparr>po_url_base = DEFAULT_URL, po_subject = None, po_text = None, po_file = None, po_id = None,
      po_hdrs = [], po_int = None, po_auto_id = False, po_retry_ms = DEFAULT_RETRY_MS\<rparr>"

definition pub_value :: "string \<Rightarrow> (string \<Rightarrow> pub_opts \<Rightarrow> pub_opts option) option" where
  "pub_value a =
     (if a = ''--url'' then Some (\<lambda>v q. Some (q\<lparr>po_url_base := v\<rparr>))
      else if a = ''--retry'' then Some (\<lambda>v q. map_option (\<lambda>n. q\<lparr>po_retry_ms := n\<rparr>) (parse_ms v))
      else if a = ''--header'' \<or> a = ''-H'' then
        Some (\<lambda>v q. if CHR ''='' \<notin> set v \<or> length (po_hdrs q) = 16 then None
                    else Some (q\<lparr>po_hdrs := po_hdrs q @ [v]\<rparr>))
      else if a = ''--id'' then Some (\<lambda>v q. Some (q\<lparr>po_id := Some v\<rparr>))
      else if a = ''--file'' then Some (\<lambda>v q. Some (q\<lparr>po_file := Some v\<rparr>))
      else if a = ''--int'' then Some (\<lambda>v q. Some (q\<lparr>po_int := Some (strtol v)\<rparr>))
      else None)"

definition pub_positional :: "string \<Rightarrow> pub_opts \<Rightarrow> pub_opts option" where
  "pub_positional a q =
     (case (po_subject q, po_text q) of
        (None, _) \<Rightarrow> Some (q\<lparr>po_subject := Some a\<rparr>)
      | (Some _, None) \<Rightarrow> Some (q\<lparr>po_text := Some a\<rparr>)
      | _ \<Rightarrow> None)"

fun pub_args :: "string list \<Rightarrow> pub_opts \<Rightarrow> int + pub_opts" where
  "pub_args [] q = Inr q"
| "pub_args (a # argv) q =
     (case pub_value a of
        Some set_value \<Rightarrow>
          (case argv of
             [] \<Rightarrow> Inl 2
           | v # argv' \<Rightarrow> (case set_value v q of None \<Rightarrow> Inl 2 | Some q \<Rightarrow> pub_args argv' q))
      | None \<Rightarrow>
          if a = ''--auto-id'' then pub_args argv (q\<lparr>po_auto_id := True\<rparr>)
          else if a = ''-h'' \<or> a = ''--help'' then Inl 0
          else if looks_like_option a then Inl 2
          else (case pub_positional a q of None \<Rightarrow> Inl 2 | Some q \<Rightarrow> pub_args argv q))"

text \<open>One \<open>name=value\<close>, as the headers object holds it.\<close>

definition pub_header :: "string \<Rightarrow> string \<times> ev list" where
  "pub_header h =
     (let name = takeWhile (\<lambda>c. c \<noteq> CHR ''='') h in (name, [EStr (drop (length name + 1) h)]))"

definition pub_events :: "pub_opts \<Rightarrow> ev list" where
  "pub_events q =
     (let msg = (case po_int q of
                   Some i \<Rightarrow> EInt (word_of_int i)
                 | None \<Rightarrow> EStr (case po_text q of Some t \<Rightarrow> t | None \<Rightarrow> []))
      in if po_hdrs q \<noteq> [] then bj_array [bj_object (map pub_header (po_hdrs q)), [msg]] else [msg])"

text \<open>The body, when there is one to send. The contents of files are a parameter.\<close>

definition pub_payload :: "('t, 'l) lib \<Rightarrow> (string \<Rightarrow> bytes option) \<Rightarrow> pub_opts \<Rightarrow> bytes option" where
  "pub_payload L files q =
     (case po_file q of
        Some path \<Rightarrow>
          (case files path of
             None \<Rightarrow> None
           | Some d \<Rightarrow> if bj_value_size L d = Inr (length d) then Some d else None)
      | None \<Rightarrow> snd (bj_build L (pub_events q)))"

text \<open>The final ampersand or question mark goes, when the URL fits its buffer.\<close>

definition pub_url :: "string \<Rightarrow> string \<Rightarrow> string option \<Rightarrow> bool \<Rightarrow> string option" where
  "pub_url url_base subject msg_id hdrs =
     (let u = Some (url_base @ ''/pub/'' @ subject @ ''?'');
          u = (case msg_id of Some i \<Rightarrow> url_put 1024 (''id='' @ i @ ''&'') u | None \<Rightarrow> u);
          u = (if hdrs then url_put 1024 ''headers=1&'' u else u)
      in map_option (\<lambda>s. if length s < 1024 then butlast s else fit 1024 s) u)"

text \<open>The request of one \<open>pub\<close>: URL, body, and whether a broken attempt may be repeated.\<close>

definition bjm_cmd_pub ::
    "('t, 'l) lib \<Rightarrow> (string \<Rightarrow> bytes option) \<Rightarrow> string \<Rightarrow> string list
      \<Rightarrow> int + string option \<times> bytes \<times> bool \<times> int" where
  "bjm_cmd_pub L files auto argv =
     (case pub_args argv pub_opts_zero of
        Inl rc \<Rightarrow> Inl rc
      | Inr q \<Rightarrow>
          if \<not> checked bjm_subject_valid (po_subject q) \<or> (po_text q = None \<and> po_file q = None \<and> po_int q = None)
          then Inl 2
          else
            (case pub_payload L files q of
               None \<Rightarrow> Inl 1
             | Some body \<Rightarrow>
                 let msg_id = (if po_auto_id q \<and> po_id q = None then Some auto else po_id q) in
                 Inr (pub_url (po_url_base q) (the (po_subject q)) msg_id (po_hdrs q \<noteq> []), body,
                      msg_id \<noteq> None, po_retry_ms q)))"

section \<open>sub\<close>

record sub_opts =
  so_url_base :: string
  so_subject :: "string option"
  so_consumer :: "string option"
  so_bind_addr :: "string option"
  so_callback :: "string option"
  so_token :: "string option"
  so_exec :: "string option"
  so_from :: u64
  so_batch :: u64
  so_retry_ms :: int
  so_heartbeat_ms :: int
  so_port :: int
  so_tail :: bool
  so_keep :: bool

definition sub_opts_zero :: sub_opts where
  "sub_opts_zero =
     \<lparr>so_url_base = DEFAULT_URL, so_subject = None, so_consumer = None, so_bind_addr = None,
      so_callback = None, so_token = None, so_exec = None, so_from = 1, so_batch = 0,
      so_retry_ms = DEFAULT_RETRY_MS, so_heartbeat_ms = DEFAULT_HEARTBEAT_MS, so_port = 0,
      so_tail = False, so_keep = False\<rparr>"

definition sub_value :: "string \<Rightarrow> (string \<Rightarrow> sub_opts \<Rightarrow> sub_opts option) option" where
  "sub_value a =
     (if a = ''--consumer'' then Some (\<lambda>v q. Some (q\<lparr>so_consumer := Some v\<rparr>))
      else if a = ''--url'' then Some (\<lambda>v q. Some (q\<lparr>so_url_base := v\<rparr>))
      else if a = ''--bind'' then Some (\<lambda>v q. Some (q\<lparr>so_bind_addr := Some v\<rparr>))
      else if a = ''--callback'' then Some (\<lambda>v q. Some (q\<lparr>so_callback := Some v\<rparr>))
      else if a = ''--token'' then Some (\<lambda>v q. Some (q\<lparr>so_token := Some v\<rparr>))
      else if a = ''--exec'' then Some (\<lambda>v q. Some (q\<lparr>so_exec := Some v\<rparr>))
      else if a = ''--port'' then Some (\<lambda>v q. Some (q\<lparr>so_port := atoi v\<rparr>))
      else if a = ''--from'' then Some (\<lambda>v q. Some (q\<lparr>so_from := strtoull v\<rparr>))
      else if a = ''--batch'' \<or> a = ''--max'' then Some (\<lambda>v q. Some (q\<lparr>so_batch := strtoull v\<rparr>))
      else if a = ''--retry'' then Some (\<lambda>v q. map_option (\<lambda>n. q\<lparr>so_retry_ms := n\<rparr>) (parse_ms v))
      else if a = ''--heartbeat'' then Some (\<lambda>v q. map_option (\<lambda>n. q\<lparr>so_heartbeat_ms := n\<rparr>) (parse_ms v))
      else if a = ''--interval'' then Some (\<lambda>v q. Some q)
      else None)"

definition sub_flag :: "string \<Rightarrow> (sub_opts \<Rightarrow> sub_opts) option" where
  "sub_flag a =
     (if a = ''--tail'' then Some (\<lambda>q. q\<lparr>so_tail := True\<rparr>)
      else if a = ''--keep'' then Some (\<lambda>q. q\<lparr>so_keep := True\<rparr>)
      else if a = ''--follow'' \<or> a = ''-f'' then Some id
      else None)"

fun sub_args :: "string list \<Rightarrow> sub_opts \<Rightarrow> int + sub_opts" where
  "sub_args [] q = Inr q"
| "sub_args (a # argv) q =
     (case sub_value a of
        Some set_value \<Rightarrow>
          (case argv of
             [] \<Rightarrow> Inl 2
           | v # argv' \<Rightarrow> (case set_value v q of None \<Rightarrow> Inl 2 | Some q \<Rightarrow> sub_args argv' q))
      | None \<Rightarrow>
          (case sub_flag a of
             Some set_flag \<Rightarrow> sub_args argv (set_flag q)
           | None \<Rightarrow>
               if a = ''-h'' \<or> a = ''--help'' then Inl 0
               else if looks_like_option a then Inl 2
               else if so_subject q = None then sub_args argv (q\<lparr>so_subject := Some a\<rparr>)
               else Inl 2))"

definition name_or_pattern :: "string \<Rightarrow> bool" where
  "name_or_pattern s \<longleftrightarrow> (if bjm_pattern_is s then bjm_pattern_valid s else bjm_subject_valid s)"

text \<open>An option that was given has to be valid.\<close>

definition absent_or :: "(string \<Rightarrow> bool) \<Rightarrow> string option \<Rightarrow> bool" where
  "absent_or valid s = (case s of None \<Rightarrow> True | Some x \<Rightarrow> valid x)"

definition bjm_cmd_sub :: "bytes \<Rightarrow> bytes \<Rightarrow> string list \<Rightarrow> int + receiver_spec" where
  "bjm_cmd_sub raw8 raw16 argv =
     (case sub_args argv sub_opts_zero of
        Inl rc \<Rightarrow> Inl rc
      | Inr q \<Rightarrow>
          if \<not> checked name_or_pattern (so_subject q) \<or> \<not> absent_or bjm_consumer_valid (so_consumer q) \<or>
             \<not> absent_or bjm_callback_valid (so_callback q) \<or> \<not> absent_or bjm_token_valid (so_token q)
          then Inl 2
          else
            (case receiver_identity (so_consumer q) ''sub'' (so_token q) raw8 raw16 of
               (consumer, token) \<Rightarrow>
                 Inr \<lparr>sp_url_base = so_url_base q, sp_pattern = the (so_subject q), sp_consumer = consumer,
                      sp_group = None, sp_bind_addr = so_bind_addr q, sp_callback = so_callback q,
                      sp_token = token, sp_path = ''/deliver'', sp_batch = so_batch q, sp_max_jobs = 0,
                      sp_from = so_from q, sp_retry_ms = so_retry_ms q, sp_heartbeat_ms = so_heartbeat_ms q,
                      sp_port = so_port q, sp_tail = so_tail q, sp_keep = so_keep q,
                      sp_ephemeral = (so_consumer q = None)\<rparr>))"

section \<open>work, reply, pipe\<close>

text \<open>The registration these three make of the shared options.\<close>

definition worker_spec ::
    "query_opts \<Rightarrow> string \<Rightarrow> string option \<Rightarrow> string \<Rightarrow> u64 \<Rightarrow> string \<Rightarrow> receiver_spec" where
  "worker_spec q consumer group_name token max_jobs path =
     \<lparr>sp_url_base = o_url_base q, sp_pattern = the (o_subject q), sp_consumer = consumer,
      sp_group = group_name, sp_bind_addr = o_bind_addr q, sp_callback = o_callback q,
      sp_token = token, sp_path = path, sp_batch = 0, sp_max_jobs = max_jobs, sp_from = 0,
      sp_retry_ms = o_retry_ms q, sp_heartbeat_ms = DEFAULT_HEARTBEAT_MS, sp_port = o_port q,
      sp_tail = False, sp_keep = False, sp_ephemeral = False\<rparr>"

definition with_query :: "string list \<Rightarrow> (query_opts \<Rightarrow> int + 'a) \<Rightarrow> int + 'a" where
  "with_query argv command =
     (case query_parse argv of Inl rc \<Rightarrow> Inl (if rc = 1 then 0 else rc) | Inr q \<Rightarrow> command q)"

definition bjm_cmd_work :: "bytes \<Rightarrow> bytes \<Rightarrow> string list \<Rightarrow> int + receiver_spec" where
  "bjm_cmd_work raw8 raw16 argv = with_query argv (\<lambda>q.
     if \<not> checked name_or_pattern (o_subject q) \<or> \<not> checked bjm_group_valid (o_group q) \<or> o_exec q = None
     then Inl 2
     else
       (case receiver_identity (o_consumer q) ''work'' (o_token q) raw8 raw16 of
          (consumer, token) \<Rightarrow>
            Inr (worker_spec q consumer (o_group q) token
                   (if o_max q > 0 then word_of_int (o_max q) else 0) ''/job'')))"

definition REPLY_SUBJECT_DEFAULT :: string where "REPLY_SUBJECT_DEFAULT = ''_reply''"
definition REPLY_GROUP_DEFAULT :: string where "REPLY_GROUP_DEFAULT = ''repliers''"

definition bjm_cmd_reply :: "bytes \<Rightarrow> bytes \<Rightarrow> string list \<Rightarrow> int + receiver_spec" where
  "bjm_cmd_reply raw8 raw16 argv = with_query argv (\<lambda>q.
     let group_name = (case o_group q of Some g \<Rightarrow> g | None \<Rightarrow> REPLY_GROUP_DEFAULT) in
     if \<not> checked bjm_subject_valid (o_subject q) \<or> o_exec q = None \<or> \<not> bjm_group_valid group_name
     then Inl 2
     else
       (case receiver_identity (o_consumer q) ''reply'' (o_token q) raw8 raw16 of
          (consumer, token) \<Rightarrow> Inr (worker_spec q consumer (Some group_name) token 0 ''/request'')))"

definition bjm_cmd_pipe :: "bytes \<Rightarrow> bytes \<Rightarrow> string list \<Rightarrow> int + receiver_spec" where
  "bjm_cmd_pipe raw8 raw16 argv = with_query argv (\<lambda>q.
     if \<not> checked bjm_subject_valid (o_subject q) \<or> \<not> checked bjm_consumer_valid (o_consumer q) \<or>
        \<not> checked bjm_subject_valid (o_to q) \<or> o_exec q = None
     then Inl 2
     else
       (case receiver_identity (o_consumer q) ''pipe'' (o_token q) raw8 raw16 of
          (consumer, token) \<Rightarrow> Inr (worker_spec q (the (o_consumer q)) None token 0 ''/stage'')))"

end
