(* ===== verification/Receivers.thy ===== *)
theory Receivers
  imports Client_Commands
begin

text \<open>
  What the client does with a delivery (\<open>src/src/client.c\<close>): the handlers behind the callbacks of \<open>sub\<close>,
  \<open>work\<close>, \<open>request\<close>, \<open>reply\<close> and \<open>pipe\<close>. Each decodes the body with a visitor that sees one callback at
  a time, and answers with a status and headers. The commands they run are parameters: a function of
  how many ran before in this delivery and of what they are given.
\<close>

section \<open>Shared by all handlers\<close>

text \<open>
  The library, how \<open>printf\<close> shows a double, the type bytes of strings and arrays (\<open>BJ_TYPE_STRING\<close>,
  \<open>BJ_TYPE_ARRAY\<close>), and what has been printed of a value when its decoding fails.
\<close>

record ('t, 'l) cli_env =
  env_lib :: "('t, 'l) lib"
  env_float :: "u64 \<Rightarrow> string"
  env_string_tag :: "8 word"
  env_array_tag :: "8 word"
  env_front :: "bytes \<Rightarrow> string"

record callback_req =
  cb_auth :: "string option"
  cb_subject :: "string option"
  cb_body :: bytes

definition to_bytes :: "string \<Rightarrow> bytes" where
  "to_bytes s = map of_char s"

definition from_bytes :: "bytes \<Rightarrow> string" where
  "from_bytes b = map (\<lambda>x. char_of (uint x)) b"

definition text_answer :: "(string \<times> string) list \<Rightarrow> int \<Rightarrow> string \<Rightarrow> sukkal_res" where
  "text_answer hdrs code msg =
     \<lparr>rs_status = code, rs_headers = hdrs @ [(''Content-Type'', ''text/plain'')], rs_body = to_bytes msg\<rparr>"

definition authorised :: "string \<Rightarrow> callback_req \<Rightarrow> bool" where
  "authorised token req \<longleftrightarrow>
     token = [] \<or> cb_auth req = Some (fit (BJM_TOKEN_MAX + 16) (''Bearer '' @ token))"

definition refusal :: "int \<Rightarrow> string \<Rightarrow> sukkal_res" where
  "refusal code msg = text_answer [] code (msg @ [CHR 0x0A])"

text \<open>
  The checks every handler begins with: the token, a body, a body that decodes. What commands did on
  the front of a body before the decoder failed is not part of the result.
\<close>

definition opened_delivery ::
    "('t, 'l) cli_env \<Rightarrow> string \<Rightarrow> callback_req \<Rightarrow> sukkal_res + ev list" where
  "opened_delivery env token req =
     (if \<not> authorised token req then Inl (refusal 401 ''bad or missing bearer token'')
      else if cb_body req = [] then Inl (refusal 400 ''empty delivery'')
      else
        (case bj_decode (env_lib env) (cb_body req) of
           Inl _ \<Rightarrow> Inl (refusal 400 ''malformed delivery'')
         | Inr evs \<Rightarrow> Inr evs))"

text \<open>The first string a value holds.\<close>

fun peek_string :: "ev \<Rightarrow> string option \<Rightarrow> string option" where
  "peek_string (EStr s) None = Some s"
| "peek_string e found = found"

text \<open>The bytes a command sees for a message.\<close>

definition feed_for :: "('t, 'l) cli_env \<Rightarrow> bool \<Rightarrow> bytes \<Rightarrow> bytes" where
  "feed_for env raw payload =
     (if raw then payload
      else
        (case (if payload \<noteq> [] \<and> hd payload = env_string_tag env
               then (case bj_decode (env_lib env) payload of
                       Inl _ \<Rightarrow> None | Inr evs \<Rightarrow> fold peek_string evs None)
               else None) of
           Some s \<Rightarrow> to_bytes s
         | None \<Rightarrow>
             to_bytes (case bjm_render (env_lib env) (env_float env) payload of
                         Inr s \<Rightarrow> s | Inl _ \<Rightarrow> env_front env payload)))"

section \<open>A subscriber\<close>

text \<open>\<open>d_fed\<close> are the messages given to the command, or printed, so far.\<close>

record delivery =
  d_key :: string
  d_index :: u64
  d_took :: u64
  d_count :: nat
  d_stopped :: bool
  d_fed :: "(u64 \<times> bytes) list"

definition delivery_zero :: delivery where
  "delivery_zero = \<lparr>d_key = [], d_index = 0, d_took = 0, d_count = 0, d_stopped = False, d_fed = []\<rparr>"

fun dv_step :: "('t, 'l) cli_env \<Rightarrow> (nat \<Rightarrow> bytes \<Rightarrow> bool) option \<Rightarrow> ev \<Rightarrow> delivery \<Rightarrow> delivery" where
  "dv_step env exec (EKey k) d = d\<lparr>d_key := grab_key 16 k\<rparr>"
| "dv_step env exec (EInt v) d = (if d_key d = ''index'' then d\<lparr>d_index := v\<rparr> else d)"
| "dv_step env exec (EBin b) d =
     (if d_key d \<noteq> ''payload'' \<or> d_stopped d then d
      else
        let ok = (case exec of None \<Rightarrow> True | Some run \<Rightarrow> run (length (d_fed d)) (feed_for env False b));
            d = d\<lparr>d_fed := d_fed d @ [(d_index d, b)]\<rparr>
        in if ok then d\<lparr>d_took := d_index d, d_count := d_count d + 1\<rparr> else d\<lparr>d_stopped := True\<rparr>)"
| "dv_step env exec e d = d"

record receiver =
  rv_token :: string
  rv_exec :: "(nat \<Rightarrow> bytes \<Rightarrow> bool) option"
  rv_messages :: nat
  rv_deliveries :: nat

definition h_deliver ::
    "('t, 'l) cli_env \<Rightarrow> receiver \<Rightarrow> callback_req \<Rightarrow> receiver \<times> sukkal_res \<times> (u64 \<times> bytes) list" where
  "h_deliver env r req =
     (case opened_delivery env (rv_token r) req of
        Inl res \<Rightarrow> (r, res, [])
      | Inr evs \<Rightarrow>
          let d = fold (dv_step env (rv_exec r)) evs delivery_zero in
          (r\<lparr>rv_messages := rv_messages r + d_count d, rv_deliveries := rv_deliveries r + 1\<rparr>,
           text_answer [(''X-Sukkal-Ack'', dec_u64 (d_took d))] 200 [], d_fed d))"

section \<open>A worker\<close>

text \<open>
  A command is told how many jobs ran before it, the index and the attempts of its job, and its
  input. \<open>jn_done\<close> is the front of the buffer that counts, \<open>jn_tail\<close> what a write that did not fit has
  left behind it.
\<close>

type_synonym job_command = "nat \<Rightarrow> u64 \<Rightarrow> u64 \<Rightarrow> bytes \<Rightarrow> bool"

record job_scan =
  jn_key :: string
  jn_index :: u64
  jn_attempts :: u64
  jn_done :: string
  jn_tail :: string
  jn_ndone :: nat
  jn_nfailed :: nat

definition job_scan_zero :: job_scan where
  "job_scan_zero =
     \<lparr>jn_key = [], jn_index = 0, jn_attempts = 0, jn_done = [], jn_tail = [], jn_ndone = 0, jn_nfailed = 0\<rparr>"

text \<open>The index of a finished job, after a comma when it is not the first.\<close>

definition note_done :: "job_scan \<Rightarrow> job_scan" where
  "note_done j =
     (let item = (if jn_done j \<noteq> [] then '','' else []) @ dec_signed (sint (jn_index j));
          room = 16 * BJM_PUSH_JOBS_MAX - length (jn_done j)
      in if length item < room then j\<lparr>jn_done := jn_done j @ item, jn_tail := []\<rparr>
         else j\<lparr>jn_tail := take (room - 1) item\<rparr>)"

fun js_step :: "('t, 'l) cli_env \<Rightarrow> job_command \<Rightarrow> ev \<Rightarrow> job_scan \<Rightarrow> job_scan" where
  "js_step env run (EKey k) j = j\<lparr>jn_key := grab_key 16 k\<rparr>"
| "js_step env run (EInt v) j =
     (if jn_key j = ''index'' then j\<lparr>jn_index := v\<rparr>
      else if jn_key j = ''attempts'' then j\<lparr>jn_attempts := v\<rparr> else j)"
| "js_step env run (EBin b) j =
     (if jn_key j \<noteq> ''payload'' then j
      else if run (jn_ndone j + jn_nfailed j) (jn_index j) (jn_attempts j) (feed_for env False b)
      then note_done (j\<lparr>jn_ndone := jn_ndone j + 1\<rparr>)
      else j\<lparr>jn_nfailed := jn_nfailed j + 1\<rparr>)"
| "js_step env run e j = j"

definition h_job :: "('t, 'l) cli_env \<Rightarrow> string \<Rightarrow> job_command \<Rightarrow> callback_req \<Rightarrow> sukkal_res" where
  "h_job env token run req =
     (case opened_delivery env token req of
        Inl res \<Rightarrow> res
      | Inr evs \<Rightarrow>
          let j = fold (js_step env run) evs job_scan_zero in
          if jn_ndone j = 0 then refusal 500 ''handler failed''
          else text_answer (if jn_nfailed j \<noteq> 0 then [(''X-Sukkal-Done'', jn_done j @ jn_tail j)] else []) 200 [])"

section \<open>Request and reply\<close>

text \<open>One named header out of an encoded headers object.\<close>

fun hg_step :: "string \<Rightarrow> ev \<Rightarrow> string \<times> string option \<Rightarrow> string \<times> string option" where
  "hg_step name (EKey k) (key, got) = (grab_key 64 k, got)"
| "hg_step name (EStr v) (key, got) =
     (key, if got \<noteq> None \<or> key \<noteq> name then got else Some (grab_key (BJM_SUBJECT_MAX + 1) v))"
| "hg_step name e x = x"

definition header_value :: "('t, 'l) lib \<Rightarrow> bytes \<Rightarrow> string \<Rightarrow> nat \<Rightarrow> string option" where
  "header_value L headers name out_size =
     (case bj_decode L headers of
        Inl _ \<Rightarrow> None
      | Inr evs \<Rightarrow> map_option (take (out_size - 1)) (snd (fold (hg_step name) evs ([], None))))"

text \<open>
  The requester looks for its correlation in every message of a batch; a message is complete when
  its object ends. \<open>cs_printed\<close> is the reply it prints.
\<close>

record corr_scan =
  cs_key :: string
  cs_index :: u64
  cs_type :: u64
  cs_payload :: "bytes option"
  cs_highest :: u64
  cs_printed :: "bytes option"

definition corr_scan_zero :: corr_scan where
  "corr_scan_zero =
     \<lparr>cs_key = [], cs_index = 0, cs_type = 0, cs_payload = None, cs_highest = 0, cs_printed = None\<rparr>"

text \<open>The message inside an envelope that carries this correlation.\<close>

definition correlated :: "('t, 'l) cli_env \<Rightarrow> string \<Rightarrow> u64 \<Rightarrow> bytes option \<Rightarrow> bytes option" where
  "correlated env want ty payload =
     (if ty \<noteq> word_of_int BJM_ENTRY_ENVELOPE then None
      else
        (case payload of
           None \<Rightarrow> None
         | Some p \<Rightarrow>
             (case bjm_envelope_split (env_lib env) (env_array_tag env) p of
                None \<Rightarrow> None
              | Some (h, msg) \<Rightarrow>
                  if header_value (env_lib env) h ''correlation'' 96 = Some want then Some msg else None)))"

fun cs_step :: "('t, 'l) cli_env \<Rightarrow> string \<Rightarrow> ev \<Rightarrow> corr_scan \<Rightarrow> corr_scan" where
  "cs_step env want (EKey k) s = s\<lparr>cs_key := grab_key 16 k\<rparr>"
| "cs_step env want (EInt v) s =
     (if cs_key s = ''index'' then s\<lparr>cs_index := v\<rparr>
      else if cs_key s = ''type'' then s\<lparr>cs_type := v\<rparr> else s)"
| "cs_step env want (EBin b) s = (if cs_key s \<noteq> ''payload'' then s else s\<lparr>cs_payload := Some b\<rparr>)"
| "cs_step env want EObjEnd s =
     (let s = (if cs_index s > cs_highest s then s\<lparr>cs_highest := cs_index s\<rparr> else s);
          s = (if cs_printed s = None
               then s\<lparr>cs_printed := correlated env want (cs_type s) (cs_payload s)\<rparr> else s)
      in s\<lparr>cs_payload := None, cs_type := 0\<rparr>)"
| "cs_step env want e s = s"

text \<open>The answer, and the reply that was found.\<close>

definition h_awaited ::
    "('t, 'l) cli_env \<Rightarrow> string \<Rightarrow> string \<Rightarrow> callback_req \<Rightarrow> sukkal_res \<times> bytes option" where
  "h_awaited env token want req =
     (if \<not> authorised token req then (refusal 401 ''bad or missing bearer token'', None)
      else
        (text_answer [] 200 [],
         if cb_body req = [] then None
         else
           (case bj_decode (env_lib env) (cb_body req) of
              Inl _ \<Rightarrow> None
            | Inr evs \<Rightarrow> cs_printed (fold (cs_step env want) evs corr_scan_zero))))"

text \<open>The first message of a delivery, complete when its payload has come.\<close>

record rr_msg =
  rr_key :: string
  rr_index :: u64
  rr_type :: u64
  rr_payload :: "bytes option"

definition rr_msg_zero :: rr_msg where
  "rr_msg_zero = \<lparr>rr_key = [], rr_index = 0, rr_type = 0, rr_payload = None\<rparr>"

fun rr_step :: "ev \<Rightarrow> rr_msg \<Rightarrow> rr_msg" where
  "rr_step (EKey k) m = m\<lparr>rr_key := grab_key 16 k\<rparr>"
| "rr_step (EInt v) m =
     (if rr_payload m \<noteq> None then m
      else if rr_key m = ''index'' then m\<lparr>rr_index := v\<rparr>
      else if rr_key m = ''type'' then m\<lparr>rr_type := v\<rparr> else m)"
| "rr_step (EBin b) m =
     (if rr_payload m \<noteq> None \<or> rr_key m \<noteq> ''payload'' then m else m\<lparr>rr_payload := Some b\<rparr>)"
| "rr_step e m = m"

text \<open>What a shell filter printed, without the line ends it closes with.\<close>

definition chomp :: "bytes \<Rightarrow> bytes" where
  "chomp out = rev (dropWhile (\<lambda>b. b = 0x0A \<or> b = 0x0D) (rev out))"

text \<open>URL and body of a reply.\<close>

definition publish_reply ::
    "('t, 'l) lib \<Rightarrow> string \<Rightarrow> string \<Rightarrow> string \<Rightarrow> bytes \<Rightarrow> (string \<times> bytes) option" where
  "publish_reply L url_base subject correlation msg =
     (case value_events L msg of
        None \<Rightarrow> None
      | Some evs \<Rightarrow>
          map_option
            (\<lambda>body. (fit 1024 (url_base @ ''/pub/'' @ subject @ ''?headers=1&id=reply.'' @ correlation), body))
            (snd (bj_build L (bj_array [bj_object [(''correlation'', [EStr correlation])], evs]))))"

text \<open>
  The filter answers an exit code and its output, the network a status for a request. The result is
  the answer and the reply that was published, if any.
\<close>

definition h_reply ::
    "('t, 'l) cli_env \<Rightarrow> string \<Rightarrow> string \<Rightarrow> (bytes \<Rightarrow> int \<times> bytes) \<Rightarrow> (string \<times> bytes \<Rightarrow> int) \<Rightarrow> callback_req
      \<Rightarrow> sukkal_res \<times> (string \<times> bytes) option" where
  "h_reply env token url_base run_filter send req =
     (case opened_delivery env token req of
        Inl res \<Rightarrow> (res, None)
      | Inr evs \<Rightarrow>
          (let m = fold rr_step evs rr_msg_zero in
           case rr_payload m of
             None \<Rightarrow> (refusal 400 ''malformed delivery'', None)
           | Some payload \<Rightarrow>
               let split = (if rr_type m = word_of_int BJM_ENTRY_ENVELOPE
                            then bjm_envelope_split (env_lib env) (env_array_tag env) payload else None);
                   get = (\<lambda>name size. case split of
                            None \<Rightarrow> []
                          | Some (h, _) \<Rightarrow>
                              (case header_value (env_lib env) h name size of Some v \<Rightarrow> v | None \<Rightarrow> []));
                   reply_to = get ''reply_to'' (BJM_SUBJECT_MAX + 1);
                   corr = get ''correlation'' 64;
                   (st, out) = run_filter (feed_for env False (case split of Some (_, msg) \<Rightarrow> msg | None \<Rightarrow> payload));
                   published = (if st = 0 \<and> reply_to \<noteq> [] \<and> corr \<noteq> []
                                then (case snd (bj_build (env_lib env) [EStr (from_bytes (chomp out))]) of
                                        None \<Rightarrow> None
                                      | Some msg \<Rightarrow> Some (publish_reply (env_lib env) url_base reply_to corr msg))
                                else None);
                   ok = (st = 0 \<and>
                         (case published of
                            None \<Rightarrow> True | Some None \<Rightarrow> False | Some (Some r) \<Rightarrow> send r = 200))
               in (if ok then text_answer [] 200 [] else refusal 500 ''handler failed'',
                   (case published of Some (Some r) \<Rightarrow> Some r | _ \<Rightarrow> None))))"

section \<open>A pipeline stage\<close>

definition pipe_id :: "string \<Rightarrow> string \<Rightarrow> u64 \<Rightarrow> string" where
  "pipe_id consumer subject index =
     fit (BJM_DEDUP_ID_MAX + 1) (consumer @ ''.'' @ subject @ ''.'' @ dec_signed (sint index))"

text \<open>
  \<open>run_filter\<close> is told how many messages it has been given before in this delivery. A stage is its
  shared options, and how far it is in a delivery: \<open>pp_sent\<close> are the requests it has made.
\<close>

record piper =
  pp_key :: string
  pp_index :: u64
  pp_took :: u64
  pp_stopped :: bool
  pp_runs :: nat
  pp_sent :: "(string \<times> bytes) list"

definition pipe_url :: "query_opts \<Rightarrow> u64 \<Rightarrow> string" where
  "pipe_url q index =
     fit 1024 (o_url_base q @ ''/pub/'' @ the (o_to q) @ ''?id='' @ pipe_id (the (o_consumer q)) (the (o_subject q)) index @
       ''&ack_subject='' @ the (o_subject q) @ ''&ack_consumer='' @ the (o_consumer q) @
       ''&ack_index='' @ dec_signed (sint index))"

text \<open>One message: whether the input is handled, and the request made for it.\<close>

definition pipe_one ::
    "('t, 'l) cli_env \<Rightarrow> query_opts \<Rightarrow> int \<times> bytes \<Rightarrow> (string \<times> bytes \<Rightarrow> int) \<Rightarrow> u64
      \<Rightarrow> bool \<times> (string \<times> bytes) option" where
  "pipe_one env q filtered send index =
     (case filtered of
        (st, out) \<Rightarrow>
          if st \<noteq> 0 then (False, None)
          else if out = [] then (True, None)
          else
            (case (if o_raw q then Some out
                   else snd (bj_build (env_lib env) [EStr (from_bytes (chomp out))])) of
               None \<Rightarrow> (False, None)
             | Some body \<Rightarrow>
                 let r = (pipe_url q index, body) in (send r = 200, Some r)))"

fun pp_step ::
    "('t, 'l) cli_env \<Rightarrow> query_opts \<Rightarrow> (nat \<Rightarrow> u64 \<Rightarrow> bytes \<Rightarrow> int \<times> bytes) \<Rightarrow> (nat \<Rightarrow> string \<times> bytes \<Rightarrow> int)
      \<Rightarrow> ev \<Rightarrow> piper \<Rightarrow> piper" where
  "pp_step env q run_filter send (EKey k) p = p\<lparr>pp_key := grab_key 16 k\<rparr>"
| "pp_step env q run_filter send (EInt v) p = (if pp_key p = ''index'' then p\<lparr>pp_index := v\<rparr> else p)"
| "pp_step env q run_filter send (EBin b) p =
     (if pp_stopped p \<or> pp_key p \<noteq> ''payload'' then p
      else
        (case pipe_one env q (run_filter (pp_runs p) (pp_index p) (feed_for env (o_raw q) b))
                (send (length (pp_sent p))) (pp_index p) of
           (handled, r) \<Rightarrow>
             let p = p\<lparr>pp_runs := pp_runs p + 1,
                       pp_sent := pp_sent p @ (case r of Some x \<Rightarrow> [x] | None \<Rightarrow> [])\<rparr>
             in if handled then p\<lparr>pp_took := pp_index p\<rparr> else p\<lparr>pp_stopped := True\<rparr>))"
| "pp_step env q run_filter send e p = p"

text \<open>\<open>index\<close> is the last index of the delivery before; a body that decodes replaces it.\<close>

definition h_pipe ::
    "('t, 'l) cli_env \<Rightarrow> string \<Rightarrow> query_opts \<Rightarrow> (nat \<Rightarrow> u64 \<Rightarrow> bytes \<Rightarrow> int \<times> bytes)
      \<Rightarrow> (nat \<Rightarrow> string \<times> bytes \<Rightarrow> int) \<Rightarrow> u64 \<Rightarrow> callback_req \<Rightarrow> sukkal_res \<times> (string \<times> bytes) list" where
  "h_pipe env token q run_filter send index req =
     (case opened_delivery env token req of
        Inl res \<Rightarrow> (res, [])
      | Inr evs \<Rightarrow>
          let p = fold (pp_step env q run_filter send) evs
                    \<lparr>pp_key = [], pp_index = index, pp_took = 0, pp_stopped = False, pp_runs = 0, pp_sent = []\<rparr>
          in (text_answer [(''X-Sukkal-Ack'', dec_u64 (pp_took p))] 200 [], pp_sent p))"

end
