(* ===== verification/Client_Loops.thy ===== *)
theory Client_Loops
  imports Receivers Client_Commands
begin

text \<open>
  The loops around a receiver's handler (\<open>src/src/client.c\<close>): \<open>receiver_run\<close>, which finds an address,
  listens, registers, serves and leaves, and \<open>bjm_cmd_request\<close>, which publishes and waits for the
  reply. What the network and the sockets answer is an argument; the requests made are recorded.
\<close>

section \<open>Requests, recorded\<close>

text \<open>Method, URL (\<open>None\<close>: written outside its buffer) and body of each request, in order.\<close>

type_synonym client_log = "client \<times> (string \<times> string option \<times> bytes) list"

definition tell ::
    "string \<Rightarrow> string option \<Rightarrow> bytes \<Rightarrow> client_log \<Rightarrow> turn list \<Rightarrow> client_log \<times> (int \<times> turn list) option" where
  "tell verb url body x turns =
     (case client_perform (fst x) turns of (c, r) \<Rightarrow> ((c, snd x @ [(verb, url, body)]), r))"

text \<open>
  \<open>local_ip\<close> is what libcurl knows of its end of the connection. The result is the address, \<open>None\<close>
  when there is none, and what is left of the turns.
\<close>

definition probe_local_ip ::
    "string \<Rightarrow> string option \<Rightarrow> client_log \<Rightarrow> turn list \<Rightarrow> client_log \<times> (string option \<times> turn list) option" where
  "probe_local_ip url_base local_ip x turns =
     (case tell ''GET'' (Some (fit 1024 (url_base @ ''/health''))) [] x turns of
        (x, None) \<Rightarrow> (x, None)
      | (x, Some (status, turns)) \<Rightarrow>
          (x, Some (if status \<noteq> 200 then None
                    else (case local_ip of
                            Some ip \<Rightarrow> if ip = [] then None else Some (fit 64 ip)
                          | None \<Rightarrow> None), turns)))"

text \<open>A registration that cannot be written is answered -1 without a request.\<close>

definition put_registration ::
    "string option option \<Rightarrow> client_log \<Rightarrow> turn list \<Rightarrow> client_log \<times> (int \<times> turn list) option" where
  "put_registration url x turns =
     (case url of None \<Rightarrow> (x, Some (- 1, turns)) | Some u \<Rightarrow> tell ''PUT'' u [] x turns)"

definition leave :: "string \<Rightarrow> string \<Rightarrow> bool \<Rightarrow> client_log \<Rightarrow> turn list \<Rightarrow> client_log \<times> (int \<times> turn list) option" where
  "leave url_base consumer purge x turns =
     tell ''DELETE'' (Some (push_unregister url_base consumer purge)) []
       ((fst x)\<lparr>c_retry_ms := 0, c_waiting := False\<rparr>, snd x) turns"

section \<open>Serving deliveries\<close>

text \<open>
  The polls of the socket until the user stops the program: whether each succeeded, and how the
  registration went that may follow it.
\<close>

record beat =
  bt_ok :: bool
  bt_turns :: "turn list"

text \<open>The exit code, or \<open>None\<close> while a registration waits for the broker for ever.\<close>

fun receiver_loop ::
    "string option option \<Rightarrow> int \<Rightarrow> int \<Rightarrow> client_log \<Rightarrow> beat list \<Rightarrow> client_log \<times> int option" where
  "receiver_loop url heartbeat_ms since_beat x [] = (x, Some 0)"
| "receiver_loop url heartbeat_ms since_beat x (b # bs) =
     (if \<not> bt_ok b then (x, Some 1)
      else if heartbeat_ms \<le> 0 then receiver_loop url heartbeat_ms since_beat x bs
      else if since_beat + 1000 < heartbeat_ms then receiver_loop url heartbeat_ms (since_beat + 1000) x bs
      else
        (case put_registration url ((fst x)\<lparr>c_waiting := False\<rparr>, snd x) (bt_turns b) of
           (x, None) \<Rightarrow> (x, None)
         | (x, Some _) \<Rightarrow> receiver_loop url heartbeat_ms 0 x bs))"

text \<open>
  What a receiver meets: the turns of its first requests, its address, the port it gets, whether the
  user has stopped it when a first request fails, the polls, and the turns of its last request.
\<close>

record receiver_world =
  rw_turns :: "turn list"
  rw_ip :: "string option"
  rw_listen :: "string \<Rightarrow> int \<Rightarrow> int option"
  rw_stopped :: bool
  rw_beats :: "beat list"
  rw_last :: "turn list"

text \<open>The requests made, and the exit code; \<open>None\<close> when it has not returned.\<close>

definition receiver_run ::
    "(string \<Rightarrow> string option) \<Rightarrow> receiver_spec \<Rightarrow> receiver_world
      \<Rightarrow> (string \<times> string option \<times> bytes) list \<times> int option" where
  "receiver_run escape sp w =
     (let x = (client_init (sp_retry_ms sp), []) in
      case (if sp_bind_addr sp = None \<or> sp_callback sp = None
            then probe_local_ip (sp_url_base sp) (rw_ip w) x (rw_turns w)
            else (x, Some (Some ''127.0.0.1'', rw_turns w))) of
        (x, None) \<Rightarrow> (snd x, None)
      | (x, Some (None, _)) \<Rightarrow> (snd x, Some (if rw_stopped w then 0 else 1))
      | (x, Some (Some ip, turns)) \<Rightarrow>
          (case rw_listen w (case sp_bind_addr sp of Some addr \<Rightarrow> addr | None \<Rightarrow> ip) (sp_port sp) of
             None \<Rightarrow> (snd x, Some 1)
           | Some port \<Rightarrow>
               let url = push_register escape sp (self_url sp ip port) in
               (case put_registration url x turns of
                  (x, None) \<Rightarrow> (snd x, None)
                | (x, Some (status, _)) \<Rightarrow>
                    if status \<noteq> 200 then (snd x, Some (if rw_stopped w then 0 else 1))
                    else
                      (case receiver_loop url (sp_heartbeat_ms sp) 0 x (rw_beats w) of
                         (x, None) \<Rightarrow> (snd x, None)
                       | (x, Some rc) \<Rightarrow>
                           if sp_keep sp then (snd x, Some rc)
                           else
                             (case leave (sp_url_base sp) (sp_consumer sp) (sp_ephemeral sp) x (rw_last w) of
                                (x, r) \<Rightarrow> (snd x, map_option (\<lambda>_. rc) r))))))"

section \<open>Waiting for a reply\<close>

text \<open>One poll: whether it succeeded, and the deliveries it brought.\<close>

record await =
  aw_ok :: bool
  aw_deliveries :: "callback_req list"

definition take_in ::
    "('t, 'l) cli_env \<Rightarrow> string \<Rightarrow> string \<Rightarrow> callback_req list \<Rightarrow> bytes list" where
  "take_in env token want reqs =
     concat (map (\<lambda>r. case snd (h_awaited env token want r) of None \<Rightarrow> [] | Some b \<Rightarrow> [b]) reqs)"

text \<open>The replies printed, until one has come, the time is up, a poll fails or the user stops it.\<close>

fun await_reply ::
    "('t, 'l) cli_env \<Rightarrow> string \<Rightarrow> string \<Rightarrow> u64 \<Rightarrow> u64 \<Rightarrow> await list \<Rightarrow> bytes list" where
  "await_reply env token want timeout_ms waited [] = []"
| "await_reply env token want timeout_ms waited (p # ps) =
     (if \<not> waited < timeout_ms then []
      else
        let got = take_in env token want (aw_deliveries p) in
        if \<not> aw_ok p \<or> got \<noteq> [] then got
        else await_reply env token want timeout_ms (waited + 50) ps)"

record request_world =
  qw_turns :: "turn list"
  qw_ip :: "string option"
  qw_listen :: "string \<Rightarrow> int \<Rightarrow> int option"
  qw_polls :: "await list"
  qw_last :: "turn list"

text \<open>The body and the URL of the request itself.\<close>

definition request_events :: "string \<Rightarrow> string \<Rightarrow> string \<Rightarrow> ev list" where
  "request_events reply_to corr txt =
     bj_array [bj_object [(''reply_to'', [EStr reply_to]), (''correlation'', [EStr corr])], [EStr txt]]"

definition request_url :: "string \<Rightarrow> string \<Rightarrow> string \<Rightarrow> string" where
  "request_url url_base subject corr =
     fit 1024 (url_base @ ''/pub/'' @ subject @ ''?headers=1&id=req.'' @ corr)"

text \<open>
  Publishing and waiting, once the subscription is there: the replies, or \<open>None\<close> while the publish
  waits for the broker.
\<close>

definition request_exchange ::
    "('t, 'l) cli_env \<Rightarrow> query_opts \<Rightarrow> string \<Rightarrow> string \<Rightarrow> string \<Rightarrow> request_world \<Rightarrow> client_log \<Rightarrow> turn list
      \<Rightarrow> client_log \<times> bytes list option" where
  "request_exchange env q corr token reply_to w x turns =
     (let body = (case snd (bj_build (env_lib env) (request_events reply_to corr (the (o_text q)))) of
                    Some b \<Rightarrow> b | None \<Rightarrow> []) in
      case tell ''POST'' (Some (request_url (o_url_base q) (the (o_subject q)) corr)) body x turns of
        (x, None) \<Rightarrow> (x, None)
      | (x, Some (status, _)) \<Rightarrow>
          (x, Some (if status \<noteq> 200 then []
                    else await_reply env token corr (if o_timeout_ms q \<noteq> 0 then o_timeout_ms q else 5000) 0
                           (qw_polls w))))"

text \<open>The requests made, the exit code and what is printed.\<close>

definition bjm_cmd_request ::
    "('t, 'l) cli_env \<Rightarrow> (string \<Rightarrow> string option) \<Rightarrow> string \<Rightarrow> bytes \<Rightarrow> bytes \<Rightarrow> string list \<Rightarrow> request_world
      \<Rightarrow> (string \<times> string option \<times> bytes) list \<times> (int \<times> bytes list) option" where
  "bjm_cmd_request env escape corr raw8 raw16 argv w =
     (case with_query argv Inr of
        Inl rc \<Rightarrow> ([], Some (rc, []))
      | Inr q \<Rightarrow>
          let reply_to = (case o_to q of Some s \<Rightarrow> s | None \<Rightarrow> REPLY_SUBJECT_DEFAULT) in
          if \<not> checked bjm_subject_valid (o_subject q) \<or> o_text q = None \<or> \<not> bjm_subject_valid reply_to
          then ([], Some (2, []))
          else
            (case receiver_identity None ''req'' None raw8 raw16 of
               (consumer, token) \<Rightarrow>
                 (case probe_local_ip (o_url_base q) (qw_ip w) (client_init (o_retry_ms q), []) (qw_turns w) of
                    (x, None) \<Rightarrow> (snd x, None)
                  | (x, Some (None, _)) \<Rightarrow> (snd x, Some (1, []))
                  | (x, Some (Some ip, turns)) \<Rightarrow>
                      (case qw_listen w (case o_bind_addr q of Some addr \<Rightarrow> addr | None \<Rightarrow> ip) (o_port q) of
                         None \<Rightarrow> (snd x, Some (1, []))
                       | Some port \<Rightarrow>
                           let self = fit (BJM_CALLBACK_MAX + 1)
                                 (case o_callback q of
                                    Some cb \<Rightarrow> cb
                                  | None \<Rightarrow> ''http://'' @ host_for_url ip @ '':'' @ dec_signed port @ ''/reply'') in
                           (case put_registration
                                   (push_register_at escape (o_url_base q) reply_to consumer None self token 0 0 True 0)
                                   x turns of
                              (x, None) \<Rightarrow> (snd x, None)
                            | (x, Some (status, turns)) \<Rightarrow>
                                (case (if status \<noteq> 200 then (x, Some [])
                                       else request_exchange env q corr token reply_to w x turns) of
                                   (x, None) \<Rightarrow> (snd x, None)
                                 | (x, Some got) \<Rightarrow>
                                     (case leave (o_url_base q) consumer True x (qw_last w) of
                                        (x, r) \<Rightarrow>
                                          (snd x, map_option (\<lambda>_. (if got = [] then 1 else 0, got)) r))))))))"

end
