(* ===== verification/Answers.thy ===== *)
theory Answers
  imports Receivers Push_Worker Request_Properties
begin

text \<open>
  The answer of a receiver (\<open>src/src/client.c\<close>) as the delivery engine (\<open>src/src/push.c\<close>) hears it:
  its headers, one line at a time.
\<close>

section \<open>A response as the engine hears it\<close>

text \<open>libcurl hands the header lines over one at a time, with their line ends.\<close>

definition response_lines :: "sukkal_res \<Rightarrow> string list" where
  "response_lines res = map (\<lambda>(n, v). n @ '': '' @ v @ [CHR 0x0D, CHR 0x0A]) (rs_headers res)"

definition heard_response :: "psub \<Rightarrow> sukkal_res \<Rightarrow> psub" where
  "heard_response s res = fold (\<lambda>line s. on_hdr s line) (response_lines res) s"

lemma strtoull_space: "strtoull (CHR '' '' # s) = strtoull s"
  by (simp add: strtoull_def is_space_def)

lemma hdr_is_prefix:
  "map to_lower p = name \<Longrightarrow> r \<noteq> [] \<Longrightarrow> name \<noteq> [] \<Longrightarrow> hdr_is (p @ r) name = length name"
  by (auto simp: hdr_is_def)

lemma on_hdr_ack: "on_hdr s (''X-Sukkal-Ack'' @ '': '' @ dec_u64 v @ [CHR 0x0D, CHR 0x0A]) = s\<lparr>u_ack_hint := Some v\<rparr>"
proof -
  have p: "map to_lower ''X-Sukkal-Ack:'' = ''x-sukkal-ack:''" by code_simp
  have d: "\<not> is_digit (CHR 0x0D)" by code_simp
  have "hdr_is (''X-Sukkal-Ack:'' @ CHR '' '' # dec_u64 v @ [CHR 0x0D, CHR 0x0A]) ''x-sukkal-ack:'' = 13"
    using hdr_is_prefix [OF p] by simp
  then show ?thesis
    using strtoull_dec(1) [OF d, of v "[CHR 0x0A]"] by (simp add: on_hdr_def strtoull_space)
qed

lemma on_hdr_content_type: "on_hdr s (''Content-Type'' @ '': '' @ ''text/plain'' @ [CHR 0x0D, CHR 0x0A]) = s"
proof -
  have "hdr_is (''Content-Type: text/plain'' @ [CHR 0x0D, CHR 0x0A]) ''x-sukkal-ack:'' = 0"
    "hdr_is (''Content-Type: text/plain'' @ [CHR 0x0D, CHR 0x0A]) ''x-sukkal-done:'' = 0"
    by code_simp+
  then show ?thesis by (simp add: on_hdr_def)
qed

lemma heard_text_answer:
  "heard_response s (text_answer [] code msg) = s"
  "heard_response s (text_answer [(''X-Sukkal-Ack'', dec_u64 v)] code msg) = s\<lparr>u_ack_hint := Some v\<rparr>"
  using on_hdr_ack [of s v] on_hdr_content_type
  by (simp_all add: heard_response_def response_lines_def text_answer_def)

section \<open>The keys of a delivery\<close>

lemma batch_keys:
  "grab_key 16 ''index'' = ''index''" "grab_key 16 ''term'' = ''term''" "grab_key 16 ''type'' = ''type''"
  "grab_key 16 ''payload'' = ''payload''" "grab_key 16 ''attempts'' = ''attempts''"
  "grab_key 16 ''expires_ms'' = ''expires_ms''"
  by code_simp+

end
