(* ===== verification/Worker_Properties.thy ===== *)
theory Worker_Properties
  imports Answers
begin

text \<open>
  A worker's reply from end to end: the jobs the engine leased and sent, what the worker's command
  did with each of them, the list of indexes the reply carries, and what the engine makes of it.
\<close>

section \<open>A list of indexes in a header\<close>

definition done_text :: "u64 list \<Rightarrow> string" where
  "done_text ixs = (case ixs of [] \<Rightarrow> [] | i # js \<Rightarrow> dec_u64 i @ concat (map (\<lambda>j. CHR '','' # dec_u64 j) js))"

lemma done_text_snoc:
  "done_text (ixs @ [i]) = done_text ixs @ (if done_text ixs \<noteq> [] then '','' else []) @ dec_u64 i"
  by (cases ixs) (simp_all add: done_text_def dec_u64_def dec_nonempty)

lemma wrapped_digits:
  "foldl (\<lambda>v c. v * 10 + word_of_int (digit_value c)) (word_of_int a) ds =
     (word_of_int (foldl (\<lambda>v c. v * 10 + digit_value c) a ds) :: u64)"
proof (induction ds arbitrary: a)
  case (Cons c ds)
  show ?case using Cons.IH [of "a * 10 + digit_value c"]
    by (simp only: foldl_Cons of_int_add of_int_mult of_int_numeral)
qed simp

lemma wrapped_dec: "foldl (\<lambda>v c. v * 10 + word_of_int (digit_value c)) 0 (dec_u64 v) = v"
proof -
  have "foldl (\<lambda>v c. v * 10 + digit_value c) 0 (dec_u64 v) = uint v"
    using digits_value_dec [of "uint v"] by (simp only: dec_u64_def digits_value_def uint_ge_0)
  then show ?thesis using wrapped_digits [of 0 "dec_u64 v"] by (simp only: of_int_0 word_of_int_uint)
qed

lemma done_numbers_step:
  assumes "\<not> is_digit c" and "r = [] \<or> \<not> is_digit (hd r)"
  shows "done_numbers (Suc m) (c # dec_u64 i @ r) = i # done_numbers m r"
proof -
  have all: "\<forall>x \<in> set (dec_u64 i). is_digit x" and ne: "dec_u64 i \<noteq> []"
    using dec_digits [of "uint i"] by (simp_all add: dec_u64_def dec_nonempty list_all_iff)
  obtain d ds where ds: "dec_u64 i = d # ds" using ne by (cases "dec_u64 i") simp_all
  then have d: "is_digit d" using all by simp
  have skip: "dropWhile (\<lambda>c. \<not> is_digit c) (c # dec_u64 i @ r) = dec_u64 i @ r"
    using assms(1) d by (simp add: ds)
  have nil: "takeWhile is_digit r = []" "dropWhile is_digit r = r"
    using assms(2) by (cases r; simp)+
  have "takeWhile is_digit (dec_u64 i @ r) = dec_u64 i" "dropWhile is_digit (dec_u64 i @ r) = r"
    using takeWhile_append2 [of "dec_u64 i" is_digit r] dropWhile_append2 [of "dec_u64 i" is_digit r] all nil by simp_all
  then show ?thesis
    unfolding done_numbers.simps Let_def skip wrapped_dec using ne by (simp only: append_is_Nil_conv simp_thms if_False wrapped_dec)
qed

lemma done_numbers_all:
  assumes "list_all (\<lambda>c. \<not> is_digit c) e"
  shows "list_all (\<lambda>(c, i). \<not> is_digit c) cis \<Longrightarrow>
     done_numbers k (concat (map (\<lambda>(c, i). c # dec_u64 i) cis) @ e) = take k (map snd cis)"
proof (induction cis arbitrary: k)
  case Nil
  have "dropWhile (\<lambda>c. \<not> is_digit c) e = []" using assms by (simp add: list_all_iff)
  then show ?case by (cases k) simp_all
next
  case (Cons ci cis)
  obtain c i where ci: "ci = (c, i)" by (cases ci)
  have c: "\<not> is_digit c" and cis: "list_all (\<lambda>(c, i). \<not> is_digit c) cis" using Cons.prems by (simp_all add: ci)
  let ?r = "concat (map (\<lambda>(c, i). c # dec_u64 i) cis) @ e"
  have r: "?r = [] \<or> \<not> is_digit (hd ?r)"
  proof (cases cis)
    case Nil
    then show ?thesis using assms by (cases e) simp_all
  next
    case (Cons x xs)
    then show ?thesis using cis by (cases x) simp
  qed
  show ?case
  proof (cases k)
    case (Suc m)
    show ?thesis
      using done_numbers_step [OF c r, of m i] Cons.IH [OF cis, of m]
      by (simp only: ci Suc list.map concat.simps prod.case append_Cons append_assoc take_Suc_Cons snd_conv)
  qed simp
qed

lemma on_hdr_done:
  assumes "length ixs \<le> BJM_PUSH_JOBS_MAX"
  shows "on_hdr s (''X-Sukkal-Done'' @ '': '' @ done_text ixs @ [CHR 0x0D, CHR 0x0A]) = s\<lparr>u_done_list := Some ixs\<rparr>"
proof -
  let ?line = "''X-Sukkal-Done:'' @ CHR '' '' # done_text ixs @ [CHR 0x0D, CHR 0x0A]"
  have p: "map to_lower ''X-Sukkal-Done:'' = ''x-sukkal-done:''" by code_simp
  have at: "hdr_is ?line ''x-sukkal-done:'' = 14" using hdr_is_prefix [OF p] by simp
  have "map to_lower (take 13 ''X-Sukkal-Done:'') \<noteq> ''x-sukkal-ack:''" by code_simp
  then have no: "hdr_is ?line ''x-sukkal-ack:'' = 0" by (simp add: hdr_is_def)
  have ends: "list_all (\<lambda>c. \<not> is_digit c) [CHR 0x0D, CHR 0x0A]"
    "list_all (\<lambda>c. \<not> is_digit c) [CHR '' '', CHR 0x0D, CHR 0x0A]" by code_simp+
  have seps: "\<not> is_digit (CHR '' '')" "\<not> is_digit (CHR '','')" by code_simp+
  have "done_numbers BJM_PUSH_JOBS_MAX (CHR '' '' # done_text ixs @ [CHR 0x0D, CHR 0x0A]) = ixs"
  proof (cases ixs)
    case Nil
    then show ?thesis
      using done_numbers_all [OF ends(2), of "[]" BJM_PUSH_JOBS_MAX] by (simp add: done_text_def)
  next
    case (Cons i js)
    have "map (\<lambda>(c, i). c # dec_u64 i) (map (Pair (CHR '','')) js) = map (\<lambda>j. CHR '','' # dec_u64 j) js" by simp
    then show ?thesis
      using done_numbers_all [OF ends(1), of "(CHR '' '', i) # map (Pair (CHR '','')) js" BJM_PUSH_JOBS_MAX] assms seps
      by (simp add: done_text_def Cons list_all_iff o_def)
  qed
  then show ?thesis using at no by (simp add: on_hdr_def)
qed

section \<open>The jobs of a delivery\<close>

text \<open>Index, attempts, end of the lease, type and payload, as \<open>bjm_take\<close> puts them.\<close>

type_synonym pushed_job = "u64 \<times> u64 \<times> u64 \<times> u64 \<times> bytes"

fun job_event :: "pushed_job \<Rightarrow> ev list" where
  "job_event (i, a, x, ty, p) =
     bj_object [(''index'', [EInt i]), (''attempts'', [EInt a]), (''expires_ms'', [EInt x]),
       (''type'', [EInt ty]), (''payload'', [EBin p])]"

lemma job_object_events: "\<exists>fs. concat (map (job_object L lg ls now) js) = map job_event fs \<and> length fs \<le> length js"
proof (induction js)
  case (Cons j js)
  then obtain fs where fs: "concat (map (job_object L lg ls now) js) = map job_event fs" "length fs \<le> length js"
    by blast
  obtain i a where j: "j = (i, a)" by (cases j)
  show ?case
  proof (cases "elog_get L lg i")
    case (Inl e)
    then have "job_object L lg ls now j = []" by (simp add: j job_object_def)
    with fs show ?thesis by (intro exI [of _ fs]) simp
  next
    case (Inr m)
    obtain ty p where "m = (ty, p)" by (cases m)
    with Inr have "job_object L lg ls now j = [job_event (i, a, if ls \<noteq> 0 then now + ls else 0, int_to_u64 ty, p)]"
      by (simp add: j job_object_def)
    with fs show ?thesis
      by (intro exI [of _ "(i, a, if ls \<noteq> 0 then now + ls else 0, int_to_u64 ty, p) # fs"]) simp
  qed
qed simp

lemma take_expired_count:
  "take_expired now lease_ms limit i q js ds = (q', js', ds') \<Longrightarrow> length js \<le> limit \<Longrightarrow> length js' \<le> limit"
proof (induction now lease_ms limit i q js ds rule: take_expired.induct)
  case (1 now lease_ms limit i q js ds)
  show ?case
  proof (cases "i < length (q_fl q) \<and> length js < limit")
    case False
    with "1.prems" show ?thesis by (subst (asm) take_expired.simps) auto
  next
    case True
    let ?l = "q_fl q ! i"
    consider "l_expires ?l > now" | "\<not> l_expires ?l > now" "exhausted q ?l" | "\<not> l_expires ?l > now" "\<not> exhausted q ?l"
      by blast
    then show ?thesis
      using "1.IH" [OF True refl] "1.prems" True
      by cases (subst (asm) take_expired.simps; simp add: Let_def)+
  qed
qed

lemma take_new_count:
  "take_new now lease_ms limit last_ix q js = (q', js') \<Longrightarrow> length js \<le> limit \<Longrightarrow> length js' \<le> limit"
proof (induction now lease_ms limit last_ix q js rule: take_new.induct)
  case (1 now lease_ms limit last_ix q js)
  show ?case
  proof (cases "length js < limit \<and> q_next q \<le> last_ix \<and> \<not> (lease_ms > 0 \<and> length (q_fl q) \<ge> BJM_INFLIGHT_MAX)")
    case False
    with "1.prems" show ?thesis by (subst (asm) take_new.simps) (auto split: if_splits)
  next
    case True
    then have go: "length js < limit \<and> q_next q \<le> last_ix" "\<not> (lease_ms > 0 \<and> length (q_fl q) \<ge> BJM_INFLIGHT_MAX)" by auto
    show ?thesis
      using "1.IH" [OF go refl] "1.prems" go by (subst (asm) take_new.simps) (simp add: Let_def)
  qed
qed

lemma take_jobs_count: "take_jobs now lease_ms limit last_ix q = (q', js, ds) \<Longrightarrow> length js \<le> limit"
  by (auto simp: take_jobs_def split: prod.splits dest!: take_expired_count take_new_count)

lemma take_answer:
  assumes "bjm_take L st s g n lease_ms = (st', Inr (cnt, out))"
  shows "\<exists>fs. snd (bj_build L (bj_array (map job_event fs))) = Some out \<and>
           fst (bj_build L (bj_array (map job_event fs))) = None \<and> cnt = length fs \<and> length fs \<le> take_limit n"
proof -
  obtain lg ls now last_ix q q' js ds where tj: "take_jobs now ls (take_limit n) last_ix q = (q', js, ds)"
    and b: "bj_build L (bj_array (concat (map (job_object L lg ls now) js))) = (None, Some out)"
      "cnt = length (concat (map (job_object L lg ls now) js))"
    using assms by (auto simp: bjm_take_def Let_def split: prod.splits sum.splits option.splits)
  obtain fs where "concat (map (job_object L lg ls now) js) = map job_event fs" "length fs \<le> length js"
    using job_object_events [of L lg ls now js] by (elim exE conjE)
  with b take_jobs_count [OF tj] show ?thesis by (intro exI [of _ fs]) simp
qed

text \<open>What the engine kept of the delivery it started.\<close>

lemma job_grab_object:
  "fold job_grab (job_event f) (k, js) =
     (''payload'', if length js < BJM_PUSH_JOBS_MAX then js @ [fst f] else js)"
  by (cases f) (simp add: bj_object_def batch_keys)

lemma job_grab_objects:
  "snd (fold job_grab (concat (map job_event fs)) (k, js)) = js @ take (BJM_PUSH_JOBS_MAX - length js) (map fst fs)"
proof (induction fs arbitrary: k js)
  case (Cons f fs)
  then show ?case
    by (cases "length js < BJM_PUSH_JOBS_MAX")
      (simp_all add: job_grab_object take_Cons' flip: diff_Suc_eq_diff_pred)
qed simp

lemma offer_jobs_facts:
  assumes "offer_jobs L st p s name i = (st', p', s', Some True)" and "length name \<le> BJM_SUBJECT_MAX"
  shows "\<exists>fs. bj_build L (bj_array (map job_event fs)) = (None, Some (u_body s')) \<and> length fs \<le> BJM_PUSH_JOBS_MAX \<and>
           (bj_decode L (u_body s') = Inr (bj_array (map job_event fs)) \<longrightarrow> u_jobs s' = map fst fs) \<and>
           u_done_list s' = None \<and> u_subject s' = name \<and> u_cfg s' = u_cfg s"
proof -
  obtain st1 s1 cnt out where tb: "take_batch L st s name = (st1, s1, Some (cnt, out))"
    using assms(1) by (auto simp: offer_jobs_def Let_def split: prod.splits option.splits sum.splits)
  define s2 where "s2 = s1\<lparr>u_body := out, u_subject := take BJM_SUBJECT_MAX name, u_first := hd (u_jobs s1),
                         u_last := last (u_jobs s1), u_lag := 0, u_rr := (i + 1) mod length (p_names (hear p (drop (length (st_pubs st)) (st_pubs st1))))\<rparr>"
  have sb: "send_batch (hear p (drop (length (st_pubs st)) (st_pubs st1))) s2 cnt = (p', s', True)"
    using assms(1) tb by (auto simp: offer_jobs_def Let_def s2_def split: prod.splits)
  have keep: "u_body s' = out \<and> u_jobs s' = u_jobs s1 \<and> u_subject s' = name \<and> u_cfg s' = u_cfg s1 \<and> u_done_list s' = None"
  proof -
    define s3 where "s3 = s2\<lparr>u_url := take BJM_CALLBACK_MAX (ps_callback (u_cfg s2)), u_hdrs := []\<rparr>"
    obtain hs where hs: "foldl hdr_add s3 (header_lines s3 cnt) = s3\<lparr>u_hdrs := hs\<rparr>" using hdrs_frame by blast
    from sb assms(2) show ?thesis
      unfolding send_batch_def Let_def s3_def [symmetric] hs
      by (auto simp: s3_def s2_def split: option.splits if_splits)
  qed
  define want where "want = (let want = (if ps_max_jobs (u_cfg s) \<noteq> 0 then ps_max_jobs (u_cfg s) else 1)
    in if want > of_nat BJM_PUSH_JOBS_MAX then of_nat BJM_PUSH_JOBS_MAX else want)"
  obtain st0 where tk: "bjm_take L st name (ps_group (u_cfg s)) (uint want) UINT64_MAX = (st0, Inr (cnt, out))"
    and s1: "\<exists>evs. bj_decode L out = Inr evs \<and> s1 = s\<lparr>u_jobs := snd (fold job_grab evs ([], []))\<rparr>"
    using tb unfolding take_batch_def want_def Let_def
    by (auto split: prod.splits sum.splits if_splits)
  have "want \<le> of_nat BJM_PUSH_JOBS_MAX" by (auto simp: want_def Let_def not_less)
  then have "unat want \<le> 64" by (simp add: BJM_PUSH_JOBS_MAX_def word_le_nat_alt)
  then have "unat want \<le> 64" "uint want \<le> 64" unfolding uint_nat by linarith+
  then have lim: "take_limit (uint want) \<le> BJM_PUSH_JOBS_MAX"
    by (simp add: take_limit_def BJM_PUSH_JOBS_MAX_def BJM_INFLIGHT_MAX_def Let_def)
  obtain fs where fs: "bj_build L (bj_array (map job_event fs)) = (None, Some out)" "length fs \<le> take_limit (uint want)"
    using take_answer [OF tk] by (metis prod.collapse)
  have "u_jobs s' = map fst fs" if "bj_decode L out = Inr (bj_array (map job_event fs))"
    using s1 that keep job_grab_objects [of fs "[]" "[]"] fs(2) lim by (auto simp: bj_array_def)
  with fs lim keep s1 show ?thesis by (intro exI [of _ fs]) auto
qed

section \<open>The worker's side\<close>

text \<open>The indexes of the jobs whose command succeeded; the command is told how many ran before it.\<close>

fun succeeded :: "('t, 'l) cli_env \<Rightarrow> job_command \<Rightarrow> nat \<Rightarrow> pushed_job list \<Rightarrow> u64 list" where
  "succeeded env run n [] = []"
| "succeeded env run n ((i, a, x, ty, p) # fs) =
     (if run n i a (feed_for env False p) then [i] else []) @ succeeded env run (Suc n) fs"

lemma succeeded_length: "length (succeeded env run n fs) \<le> length fs"
  by (induction env run n fs rule: succeeded.induct) auto

lemma all_succeeded: "length (succeeded env run n fs) = length fs \<Longrightarrow> succeeded env run n fs = map fst fs"
proof (induction env run n fs rule: succeeded.induct)
  case (2 env run n i a x ty p fs)
  then show ?case using succeeded_length [of env run "Suc n" fs] by (auto split: if_splits)
qed simp

text \<open>Fifteen digits and a comma are the sixteen characters the buffer has for each job.\<close>

definition fits :: "u64 list \<Rightarrow> bool" where
  "fits ixs \<longleftrightarrow> length (done_text ixs) \<le> 16 * length ixs - 1"

lemma note_done_fits:
  assumes "jn_done j = done_text ixs" and "fits ixs"
    and "length ixs < BJM_PUSH_JOBS_MAX" and "unat (jn_index j) < 10 ^ 15"
  shows "note_done j = j\<lparr>jn_done := done_text (ixs @ [jn_index j]), jn_tail := []\<rparr>"
    and "fits (ixs @ [jn_index j])"
proof -
  have "unat (jn_index j) < 1000000000000000" using assms(4) by simp
  then have lt: "uint (jn_index j) < 1000000000000000" unfolding uint_nat by linarith
  have "sint (jn_index j) = signed_take_bit 63 (uint (jn_index j))" by (simp add: sint_uint)
  also have "\<dots> = uint (jn_index j)"
    using lt by (intro signed_take_bit_int_eq_self) (simp_all add: order_trans [OF _ uint_ge_0])
  finally have "sint (jn_index j) = uint (jn_index j)" .
  then have item: "dec_signed (sint (jn_index j)) = dec_u64 (jn_index j)"
    by (simp add: dec_signed_def dec_u64_def)
  have len: "length (dec_u64 (jn_index j)) \<le> 15"
    using dec_length [OF uint_ge_0, of "jn_index j" 14] lt by (simp add: dec_u64_def)
  have nil: "done_text ixs = [] \<longleftrightarrow> ixs = []"
    by (cases ixs) (simp_all add: done_text_def dec_u64_def dec_nonempty)
  show "fits (ixs @ [jn_index j])"
  proof (cases "ixs = []")
    case False
    then obtain n where "length ixs = Suc n" by (cases ixs) simp_all
    then show ?thesis using len assms(2) False by (simp add: fits_def done_text_snoc nil)
  qed (use len in \<open>simp add: fits_def done_text_def\<close>)
  have "length ((if done_text ixs \<noteq> [] then '','' else []) @ dec_u64 (jn_index j)) < 16 * BJM_PUSH_JOBS_MAX - length (done_text ixs)"
    using len assms(2,3) nil by (cases "ixs = []") (auto simp: fits_def BJM_PUSH_JOBS_MAX_def)
  then show "note_done j = j\<lparr>jn_done := done_text (ixs @ [jn_index j]), jn_tail := []\<rparr>"
    unfolding note_done_def Let_def assms(1) item by (simp only: if_True done_text_snoc)
qed

lemma js_object:
  "fold (js_step env run) (job_event (i, a, x, ty, p)) j =
     (let j = j\<lparr>jn_index := i, jn_attempts := a, jn_key := ''payload''\<rparr> in
      if run (jn_ndone j + jn_nfailed j) i a (feed_for env False p)
      then note_done (j\<lparr>jn_ndone := jn_ndone j + 1\<rparr>) else j\<lparr>jn_nfailed := jn_nfailed j + 1\<rparr>)"
  by (simp add: bj_object_def batch_keys Let_def)

lemma js_objects:
  "jn_done j = done_text ixs \<Longrightarrow> jn_tail j = [] \<Longrightarrow> fits ixs \<Longrightarrow> jn_ndone j = length ixs \<Longrightarrow>
     length ixs + length fs \<le> BJM_PUSH_JOBS_MAX \<Longrightarrow> (\<forall>f \<in> set fs. unat (fst f) < 10 ^ 15) \<Longrightarrow>
     (let new = succeeded env run (jn_ndone j + jn_nfailed j) fs;
          j' = fold (js_step env run) (concat (map job_event fs)) j
      in jn_done j' = done_text (ixs @ new) \<and> jn_tail j' = [] \<and> jn_ndone j' = length (ixs @ new) \<and>
         jn_nfailed j' + length new = jn_nfailed j + length fs)"
proof (induction fs arbitrary: j ixs)
  case (Cons f fs)
  obtain i a x ty p where f: "f = (i, a, x, ty, p)" by (cases f)
  define j1 where "j1 = j\<lparr>jn_index := i, jn_attempts := a, jn_key := ''payload''\<rparr>"
  have j1: "jn_done j1 = jn_done j" "jn_tail j1 = jn_tail j" "jn_ndone j1 = jn_ndone j" "jn_nfailed j1 = jn_nfailed j"
    "jn_index j1 = i" by (simp_all add: j1_def)
  show ?case
  proof (cases "run (jn_ndone j + jn_nfailed j) i a (feed_for env False p)")
    case False
    have step: "fold (js_step env run) (concat (map job_event (f # fs))) j =
        fold (js_step env run) (concat (map job_event fs)) (j1\<lparr>jn_nfailed := jn_nfailed j + 1\<rparr>)"
      using js_object [of env run i a x ty p j] False by (simp add: f j1_def Let_def del: job_event.simps)
    show ?thesis
      unfolding step using Cons.IH [of "j1\<lparr>jn_nfailed := jn_nfailed j + 1\<rparr>" ixs] Cons.prems False
      by (simp add: f j1 Let_def)
  next
    case True
    let ?j2 = "j1\<lparr>jn_ndone := jn_ndone j + 1\<rparr>"
    have b: "length ixs < BJM_PUSH_JOBS_MAX" "unat (jn_index ?j2) < 10 ^ 15" "jn_done ?j2 = done_text ixs"
      using Cons.prems by (simp_all add: f j1)
    note n = note_done_fits [OF b(3) Cons.prems(3) b(1,2)]
    have step: "fold (js_step env run) (concat (map job_event (f # fs))) j =
        fold (js_step env run) (concat (map job_event fs)) (?j2\<lparr>jn_done := done_text (ixs @ [i]), jn_tail := []\<rparr>)"
      using js_object [of env run i a x ty p j] True n(1) by (simp add: f j1_def Let_def del: job_event.simps)
    show ?thesis
      unfolding step
      using Cons.IH [of "?j2\<lparr>jn_done := done_text (ixs @ [i]), jn_tail := []\<rparr>" "ixs @ [i]"] Cons.prems True n(2)
      by (simp add: f j1 Let_def)
  qed
qed (simp add: Let_def)

section \<open>End to end\<close>

lemma heard_done:
  assumes "length ixs \<le> BJM_PUSH_JOBS_MAX"
  shows "heard_response s (text_answer [(''X-Sukkal-Done'', done_text ixs)] code msg) = s\<lparr>u_done_list := Some ixs\<rparr>"
  using on_hdr_done [OF assms, of s] on_hdr_content_type
  by (simp add: heard_response_def response_lines_def text_answer_def)

text \<open>
  C10: A worker finishes what its command finished. The engine leased jobs and sent them; the worker
  ran its command on each and answered. Hearing that answer, the engine takes out of the group's
  record only jobs whose command succeeded: every other job stays leased and comes back. When no
  command succeeded the answer is an error, when all did the answer names none of them, and otherwise
  its list is exactly the indexes of those that did.
\<close>

theorem worker_end_to_end:
  assumes laws: "lib_laws (env_lib env)" and name: "length name \<le> BJM_SUBJECT_MAX"
    and offer: "offer_jobs (env_lib env) st p s name i = (st', p', s', Some True)"
    and exact: "\<forall>evs. bj_build (env_lib env) evs = (None, Some (u_body s')) \<longrightarrow> exact_evs evs"
    and below: "\<forall>j \<in> set (u_jobs s'). unat j < 10 ^ 15"
    and req: "cb_body req = u_body s'" "u_body s' \<noteq> []" "authorised token req"
    and answer: "h_job env token run req = res"
    and rec: "group_rec (env_lib env) st2 name (ps_group (u_cfg s)) = Some q" "queue_inv q" "qrec_wf q"
      "q_max_backoff_ms q \<noteq> 0" "unat (now_ms st2) + unat (q_max_backoff_ms q) \<le> 2 ^ 53"
    and fin: "finish_jobs (env_lib env) st2 (heard_response s' res) True (rs_status res) err now = (st3, s3, again)"
  shows "\<exists>fs q' F. u_jobs s' = map fst fs \<and>
           group_rec (env_lib env) st3 name (ps_group (u_cfg s)) = Some q' \<and> queue_inv q' \<and>
           l_index ` set (q_fl q') = l_index ` set (q_fl q) - F \<and> F \<subseteq> set (succeeded env run 0 fs) \<and>
           rs_status res = (if succeeded env run 0 fs = [] then 500 else 200) \<and>
           u_done_list (heard_response s' res) =
             (if succeeded env run 0 fs = [] \<or> length (succeeded env run 0 fs) = length fs then None else Some (succeeded env run 0 fs))"
proof -
  let ?L = "env_lib env"
  note ll = lib_lawsD [OF laws]
  obtain fs where fs: "bj_build ?L (bj_array (map job_event fs)) = (None, Some (u_body s'))" "length fs \<le> BJM_PUSH_JOBS_MAX"
      "bj_decode ?L (u_body s') = Inr (bj_array (map job_event fs)) \<longrightarrow> u_jobs s' = map fst fs"
    and s': "u_done_list s' = None" "u_subject s' = name" "u_cfg s' = u_cfg s"
    using offer_jobs_facts [OF offer name] by (elim exE conjE)
  have dec: "bj_decode ?L (u_body s') = Inr (bj_array (map job_event fs))"
    using decode_build [OF ll(1) fs(1) exact [rule_format, OF fs(1)]] .
  with fs(3) have jobs: "u_jobs s' = map fst fs" by blast
  let ?j = "fold (js_step env run) (bj_array (map job_event fs)) job_scan_zero" and ?new = "succeeded env run 0 fs"
  have scan: "?j = fold (js_step env run) (concat (map job_event fs)) job_scan_zero" by (simp add: bj_array_def)
  have j: "jn_done ?j = done_text ?new" "jn_tail ?j = []" "jn_ndone ?j = length ?new"
    "jn_nfailed ?j + length ?new = length fs"
    using js_objects [of job_scan_zero "[]" fs env run] fs(2) below jobs unfolding scan
    by (simp_all add: job_scan_zero_def done_text_def fits_def Let_def)
  have new: "length ?new \<le> BJM_PUSH_JOBS_MAX" using succeeded_length le_trans fs(2) by blast
  have "opened_delivery env token req = Inr (bj_array (map job_event fs))"
    using req dec by (simp add: opened_delivery_def)
  then have res: "res = (if ?new = [] then refusal 500 ''handler failed''
      else text_answer (if length ?new = length fs then [] else [(''X-Sukkal-Done'', done_text ?new)]) 200 [])"
    using answer j by (auto simp: h_job_def Let_def)
  have status: "rs_status res = (if ?new = [] then 500 else 200)"
    by (simp add: res refusal_def text_answer_def)
  have heard: "heard_response s' res =
      (if ?new = [] \<or> length ?new = length fs then s' else s'\<lparr>u_done_list := Some ?new\<rparr>)"
    using heard_done [OF new] heard_text_answer(1) by (simp add: res refusal_def)
  then have hs: "u_subject (heard_response s' res) = name" "u_cfg (heard_response s' res) = u_cfg s"
    "u_jobs (heard_response s' res) = map fst fs" using s' jobs by simp_all
  obtain q' F where F: "group_rec ?L st3 name (ps_group (u_cfg s)) = Some q'" "queue_inv q'"
      "l_index ` set (q_fl q') = l_index ` set (q_fl q) - F" "F \<subseteq> set (map fst fs)"
      "http_ok (rs_status res) \<or> F = {}"
      "case u_done_list (heard_response s' res) of None \<Rightarrow> True | Some ds \<Rightarrow> F \<subseteq> set ds"
    using finish_jobs_tracked [OF laws _ rec(2-5) fin] rec(1) unfolding hs by blast
  have "F \<subseteq> set ?new"
  proof (cases "?new = []")
    case True
    then show ?thesis using F(5) status by (simp add: http_ok_def)
  next
    case False
    then show ?thesis using F(4,6) all_succeeded [of env run 0 fs] heard s'(1) by (cases "length ?new = length fs") simp_all
  qed
  then show ?thesis
    using jobs F(1-3) status heard s'(1) by (intro exI [of _ fs] exI [of _ q'] exI [of _ F]) simp
qed

end
