(* ===== verification/Client_Properties.thy ===== *)
theory Client_Properties
  imports Answers Push_Properties
begin

text \<open>
  What the client and the broker do together: repeating requests, numbers with units, and a
  subscriber's answer as the delivery engine settles it.
\<close>

section \<open>Repeating a request\<close>

lemma receive_retry: "c_retry_ms (receive t c) = c_retry_ms c"
proof -
  have "c_retry_ms (fold on_header hs d) = c_retry_ms d" for hs d
    by (induction hs arbitrary: d) (simp_all add: on_header_def)
  then show ?thesis by (simp add: receive_def)
qed

text \<open>
  Only harmless requests are repeated. Every attempt but the last is one that may be made again:
  it never arrived, or the request is one whose repetition changes nothing. The request ends with the
  broker's answer, with an interrupt, or with an attempt that must not be repeated, and with retries
  off it is made once.
\<close>

theorem only_harmless_repeats:
  assumes "client_perform_ex idempotent c turns = (c', out)"
  shows "\<exists>fails. list_all (\<lambda>t. never_arrived (x_rc t) \<or> idempotent \<and> broke_midway (x_rc t)) fails \<and>
           (c_retry_ms c \<le> 0 \<longrightarrow> fails = []) \<and>
           (case out of
              None \<Rightarrow> turns = map Tried fails
            | Some (status, rest) \<Rightarrow>
                turns = map Tried fails @ Stopped # rest \<and> status = - 1 \<or>
                (\<exists>t. turns = map Tried fails @ Tried t # rest \<and>
                   (if x_rc t = CURLE_OK then status = x_status t
                    else status = - 1 \<and> (c_retry_ms c \<le> 0 \<or>
                           \<not> never_arrived (x_rc t) \<and> \<not> (idempotent \<and> broke_midway (x_rc t))))))"
  using assms
proof (induction idempotent c turns rule: client_perform_ex.induct)
  case (1 idempotent c)
  then show ?case by (auto intro: exI [of _ "[]"])
next
  case (2 idempotent c turns)
  then show ?case by (auto intro: exI [of _ "[]"])
next
  case (3 idempotent c t turns)
  note retry = receive_retry [of t c]
  show ?case
  proof (cases "x_rc t = CURLE_OK \<or> \<not> retryable idempotent (x_rc t) \<or> c_retry_ms c \<le> 0")
    case True
    with "3.prems" retry show ?thesis
      by (intro exI [of _ "[]"]) (auto simp: Let_def retryable_def split: if_splits)
  next
    case False
    with "3.prems" retry have again:
      "client_perform_ex idempotent ((receive t c)\<lparr>c_waiting := True\<rparr>) turns = (c', out)"
      by (simp add: Let_def)
    have same: "c_retry_ms ((receive t c)\<lparr>c_waiting := True\<rparr>) = c_retry_ms c" using retry by simp
    have go: "retryable idempotent (x_rc t)" "\<not> c_retry_ms c \<le> 0" using False by simp_all
    then have going: "\<not> (\<not> retryable idempotent (x_rc t) \<or> c_retry_ms (receive t c) \<le> 0)" using retry by simp
    have not_ok: "x_rc t \<noteq> CURLE_OK" using False by simp
    obtain fails where
      fails: "list_all (\<lambda>t. never_arrived (x_rc t) \<or> idempotent \<and> broke_midway (x_rc t)) fails" and
      stop: "case out of None \<Rightarrow> turns = map Tried fails
       | Some (status, rest) \<Rightarrow>
           turns = map Tried fails @ Stopped # rest \<and> status = - 1 \<or>
           (\<exists>t. turns = map Tried fails @ Tried t # rest \<and>
              (if x_rc t = CURLE_OK then status = x_status t
               else status = - 1 \<and> (c_retry_ms c \<le> 0 \<or>
                      \<not> never_arrived (x_rc t) \<and> \<not> (idempotent \<and> broke_midway (x_rc t)))))"
      using "3.IH" [OF refl not_ok going again, unfolded same] by (elim exE conjE)
    have "never_arrived (x_rc t) \<or> idempotent \<and> broke_midway (x_rc t)"
      using go(1) by (simp add: retryable_def)
    with fails stop go(2) show ?thesis
      by (intro exI [of _ "t # fails"]) (cases out; simp split: prod.splits; blast)
  qed
qed

definition ends_it :: "bool \<Rightarrow> int \<Rightarrow> turn \<Rightarrow> bool" where
  "ends_it idempotent retry_ms t =
     (case t of
        Stopped \<Rightarrow> True
      | Tried x \<Rightarrow> x_rc x = CURLE_OK \<or> \<not> retryable idempotent (x_rc x) \<or> retry_ms \<le> 0)"

text \<open>
  C34: The retry loop ends exactly when some attempt ends it: the broker answers one, the user interrupts
  the wait, an attempt fails in a way that must not be repeated, or retries are off and there is an
  attempt at all. As long as every attempt fails harmlessly it goes on.
\<close>

theorem retries_end:
  "(\<exists>c' status rest. client_perform_ex idempotent c turns = (c', Some (status, rest))) \<longleftrightarrow>
     (\<exists>t \<in> set turns. ends_it idempotent (c_retry_ms c) t)"
proof (induction idempotent c turns rule: client_perform_ex.induct)
  case (3 idempotent c t turns)
  show ?case
  proof (cases "x_rc t = CURLE_OK \<or> \<not> retryable idempotent (x_rc t) \<or> c_retry_ms c \<le> 0")
    case True
    then have "ends_it idempotent (c_retry_ms c) (Tried t)" by (auto simp: ends_it_def)
    with True show ?thesis by (auto simp: Let_def receive_retry)
  next
    case False
    then have "\<not> ends_it idempotent (c_retry_ms c) (Tried t)" by (simp add: ends_it_def)
    with False "3.IH" [OF refl] show ?thesis by (simp add: Let_def receive_retry)
  qed
qed (simp_all add: ends_it_def)

section \<open>Durations and sizes\<close>

lemma digits_end:
  assumes "e = [] \<or> \<not> is_digit (hd e)"
  shows "strtoull_end (dec_u64 v @ e) = Some e" and "strtoull (dec_u64 v @ e) = v"
proof -
  have all: "list_all is_digit (dec_u64 v)" and ne: "dec_u64 v \<noteq> []"
    by (simp_all add: dec_u64_def dec_digits dec_nonempty)
  then obtain x xs where x: "dec_u64 v = x # xs" "is_digit x" by (cases "dec_u64 v") auto
  have "takeWhile is_digit (dec_u64 v @ e) = dec_u64 v" "dropWhile is_digit (dec_u64 v @ e) = e"
    using all assms by (cases e; auto simp: list_all_iff takeWhile_append2 takeWhile_eq_all_conv
        dropWhile_append2 dropWhile_eq_Nil_conv)+
  moreover have "dropWhile is_space (dec_u64 v @ e) = dec_u64 v @ e"
    "take 1 (dec_u64 v @ e) \<noteq> ''-''" "take 1 (dec_u64 v @ e) \<noteq> ''+''"
    using x digit_not_sign [OF x(2)] by auto
  ultimately show "strtoull_end (dec_u64 v @ e) = Some e"
    using ne unfolding strtoull_end_def Let_def by simp
  show "strtoull (dec_u64 v @ e) = v"
  proof (cases e)
    case Nil
    have "\<not> is_digit (CHR '' '')" by code_simp
    then show ?thesis using Nil strtoull_dec(2) by simp
  qed (use strtoull_dec(1) assms in simp)
qed

lemma len64: "LENGTH(64) = 64"
  by simp

lemma unit_no_digit:
  assumes "duration_unit e = Some m \<or> size_unit e = Some m"
  shows "e = [] \<or> \<not> is_digit (hd e)"
proof (rule ccontr)
  assume "\<not> ?thesis"
  then obtain c r where e: "e = c # r" "is_digit c" by (cases e) auto
  have "\<forall>c \<in> set ''sSmMhHdDwWkKgGtT''. \<not> is_digit c" by code_simp
  with e(2) have "c \<notin> set ''sSmMhHdDwWkKgGtT''" by metis
  then have "duration_unit e = None" "size_unit e = None"
    unfolding e(1) duration_unit_def size_unit_def by simp_all
  with assms show False by simp
qed

text \<open>
  A duration or a size means what it says: a number followed by a unit is that many units, as long
  as the product fits 64 bits, and a word that is no unit is refused.
\<close>

theorem units_exact:
  assumes "unat n * unat m < 2 ^ 64"
  shows "(duration_unit e = Some m \<longrightarrow> map_option unat (parse_duration (dec_u64 n @ e)) = Some (unat n * unat m)) \<and>
         (size_unit e = Some m \<longrightarrow> map_option unat (parse_size (dec_u64 n @ e)) = Some (unat n * unat m)) \<and>
         (e \<noteq> [] \<longrightarrow> \<not> is_digit (hd e) \<longrightarrow> duration_unit e = None \<longrightarrow> parse_duration (dec_u64 n @ e) = None)"
proof -
  have "unat (n * m) = unat n * unat m"
    using assms unfolding unat_word_ariths(2) by (metis len64 mod_less)
  moreover have "parse_duration (dec_u64 n @ e) = Some (n * m)" if "duration_unit e = Some m"
    using that digits_end [of e n] unit_no_digit [of e m] by (simp add: parse_duration_def)
  moreover have "parse_size (dec_u64 n @ e) = Some (n * m)" if "size_unit e = Some m"
    using that digits_end [of e n] unit_no_digit [of e m] by (simp add: parse_size_def)
  moreover have "parse_duration (dec_u64 n @ e) = None" if "\<not> is_digit (hd e)" "duration_unit e = None"
    using that digits_end [of e n] by (simp add: parse_duration_def)
  ultimately show ?thesis by simp
qed

text \<open>Beyond that the product wraps: sixteen exbibytes are no limit at all.\<close>

lemma size_wraps: "parse_size ''16777216T'' = Some 0"
  by code_simp

section \<open>A subscriber's answer\<close>

text \<open>The messages of a batch with their indexes, and how many a handler accepts before the first it refuses.\<close>

fun numbered :: "u64 \<Rightarrow> (int \<times> bytes) list \<Rightarrow> (u64 \<times> bytes) list" where
  "numbered i [] = []"
| "numbered i ((ty, p) # es) = (i, p) # numbered (i + 1) es"

fun accepted :: "(nat \<Rightarrow> bytes \<Rightarrow> bool) \<Rightarrow> nat \<Rightarrow> (int \<times> bytes) list \<Rightarrow> nat" where
  "accepted f n [] = 0"
| "accepted f n ((ty, p) # es) = (if f n p then Suc (accepted f (Suc n) es) else 0)"

definition handled :: "('t, 'l) cli_env \<Rightarrow> (nat \<Rightarrow> bytes \<Rightarrow> bool) option \<Rightarrow> nat \<Rightarrow> bytes \<Rightarrow> bool" where
  "handled env exec n b = (case exec of None \<Rightarrow> True | Some run \<Rightarrow> run n (feed_for env False b))"

lemma accepted_le: "accepted f n es \<le> length es"
  by (induction f n es rule: accepted.induct) auto

lemma dv_payload:
  "dv_step env exec (EBin b) d =
     (if d_key d \<noteq> ''payload'' \<or> d_stopped d then d
      else if handled env exec (length (d_fed d)) b
      then d\<lparr>d_fed := d_fed d @ [(d_index d, b)], d_took := d_index d, d_count := d_count d + 1\<rparr>
      else d\<lparr>d_fed := d_fed d @ [(d_index d, b)], d_stopped := True\<rparr>)"
  by (simp add: handled_def Let_def)

lemmas dv_simps = dv_payload bj_object_def batch_keys

declare dv_step.simps(3) [simp del]

lemma dv_entries_stopped:
  "d_stopped d \<Longrightarrow> length ts = length es \<Longrightarrow>
     d_took (fold (dv_step env exec) (concat (batch_entries i ts es)) d) = d_took d \<and>
     d_fed (fold (dv_step env exec) (concat (batch_entries i ts es)) d) = d_fed d"
proof (induction i ts es arbitrary: d rule: batch_entries.induct)
  case (1 i t ts ty p es)
  then show ?case by (simp add: dv_simps)
qed simp_all

lemma dv_entries:
  "\<not> d_stopped d \<Longrightarrow> length ts = length es \<Longrightarrow> k = accepted (handled env exec) (length (d_fed d)) es \<Longrightarrow>
     d_took (fold (dv_step env exec) (concat (batch_entries i ts es)) d) = (if k = 0 then d_took d else i + of_nat k - 1) \<and>
     d_fed (fold (dv_step env exec) (concat (batch_entries i ts es)) d) = d_fed d @ take (k + 1) (numbered i es)"
proof (induction i ts es arbitrary: d k rule: batch_entries.induct)
  case (1 i t ts ty p es)
  show ?case
  proof (cases "handled env exec (length (d_fed d)) p")
    case False
    then show ?thesis
      using 1(2-4) dv_entries_stopped [where env = env and exec = exec and es = es and ts = ts]
      by (simp add: dv_simps)
  next
    case True
    define d1 where "d1 = d\<lparr>d_index := i, d_key := ''payload'', d_fed := d_fed d @ [(i, p)], d_took := i,
                            d_count := d_count d + 1\<rparr>"
    have step: "fold (dv_step env exec) (concat (batch_entries i (t # ts) ((ty, p) # es))) d =
        fold (dv_step env exec) (concat (batch_entries (i + 1) ts es)) d1"
      using True 1(2) by (simp add: dv_simps d1_def)
    obtain k' where k: "k = Suc k'" "k' = accepted (handled env exec) (length (d_fed d1)) es"
      using 1(4) True by (simp add: d1_def)
    from "1.IH" [of d1 k'] 1(2,3) k(2) show ?thesis
      unfolding step k(1) by (auto simp: d1_def)
  qed
qed simp_all

text \<open>The batch of a delivery the engine started, as the subscriber decodes it.\<close>

lemma delivered_batch:
  assumes laws: "lib_laws L" "batch_law L" and name: "length name \<le> BJM_SUBJECT_MAX"
    and offer: "offer_messages L st p s name i = (st', p', s', Some True)"
    and exact: "base_of L st name + length (msgs L st name) \<le> 2 ^ 53"
  obtains ts w where "bj_decode L (u_body s') = Inr (batch_events (u_first s') ts w)" and "length ts = length w"
    and "w = take (unat (u_last s') + 1 - unat (u_first s'))
               (drop (max (place (receipt L st name (u_consumer s))) (base_of L st name) - base_of L st name) (msgs L st name))"
    and "unat (u_last s') + 1 = unat (u_first s') + length w" and "0 < unat (u_first s')"
    and "unat (u_last s') \<le> 2 ^ 53" and "u_subject s' = name"
proof -
  from delivery_facts [OF laws(1) name offer] obtain l m cnt where
    facts: "u_subject s' = name" "u_first s' \<le> u_last s'"
      "unat (u_first s') = max (place (receipt L st name (u_consumer s))) (base_of L st name) + 1"
      "unat (u_last s') \<le> base_of L st name + length (msgs L st name)"
    and l: "log_of st' name = Some l" "elog_get_batch L l (u_first s') m = Inr (cnt, u_body s')"
      "unat (u_last s') + 1 = unat (u_first s') + cnt"
    by blast
  obtain st1 a c out e where fb: "find_batch L st (p_default_batch p) s name = (st1, Some (a, c, out, e))"
      and st1: "st' = st1"
    using offer by (auto simp: offer_messages_def Let_def split: prod.splits option.splits)
  have "base_of L st' name = base_of L st name" "msgs L st' name = msgs L st name"
    using find_batchD(6,7) [OF laws(1) fb] by (simp_all add: st1)
  then have vl: "view_base L l = base_of L st name" "view_ents L l = msgs L st name"
    using l(1) by (simp_all add: base_of_def msgs_def)
  let ?w = "take cnt (drop (unat (u_first s') - base_of L st name - 1) (msgs L st name))"
  have len: "length ?w = cnt" using facts(3,4) l(3) by simp
  obtain ts where "length ts = cnt" "bj_decode L (u_body s') = Inr (batch_events (u_first s') ts ?w)"
    using laws(2) l(2) vl exact unfolding batch_law_def by metis
  with len facts l(3) exact show thesis by (intro that [of ts ?w]) simp_all
qed

text \<open>The index an answer carries, when \<open>k\<close> messages of a batch were accepted, and how the engine reads it.\<close>

lemma accepted_index:
  assumes k: "k \<le> n" and window: "unat (u_last s) + 1 = unat (u_first s) + n" "0 < unat (u_first s)" "unat (u_last s) \<le> 2 ^ 53"
  defines "s1 \<equiv> s\<lparr>u_ack_hint := Some (if k = 0 then 0 else u_first s + of_nat k - 1)\<rparr>"
  shows "acked_to s1 = (if k = 0 then 0 else u_first s + of_nat k - 1)" and "exact_int (acked_to s1)"
    and "u_first s \<le> acked_to s1 \<longleftrightarrow> 0 < k"
proof -
  have lt: "unat (u_first s) + k < 2 ^ 64" using k window by simp
  have kw: "unat (of_nat k :: u64) = k" using lt by (simp add: unsigned_of_nat take_bit_nat_eq_self)
  have last_ix: "unat (u_first s + of_nat k - 1) = unat (u_first s) + k - 1"
    using unat_add_u64 [of "u_first s" "of_nat k"] lt kw window(2)
    by (subst unat_pred_u64) (simp_all add: word_less_nat_alt)
  have upto: "unat (u_first s) + k - 1 \<le> unat (u_last s)" if "0 < k" using window(1) k that by linarith
  show hint: "acked_to s1 = (if k = 0 then 0 else u_first s + of_nat k - 1)"
    using upto last_ix by (auto simp: acked_to_def word_less_nat_alt s1_def)
  show "exact_int (acked_to s1)"
    unfolding hint using upto last_ix window(3) by (auto simp: exact_int_def)
  show "u_first s \<le> acked_to s1 \<longleftrightarrow> 0 < k"
    unfolding hint using last_ix window(2) by (auto simp: word_le_nat_alt)
qed

text \<open>What the subscriber made of the batch.\<close>

lemma deliver_answer:
  assumes "authorised (rv_token r) req" and "cb_body req \<noteq> []"
    and "bj_decode (env_lib env) (cb_body req) = Inr (batch_events i ts w)" and "length ts = length w"
    and "h_deliver env r req = (r', res, fed)"
  shows "fed = take (accepted (handled env (rv_exec r)) 0 w + 1) (numbered i w)"
    and "res = text_answer [(''X-Sukkal-Ack'', dec_u64 (let k = accepted (handled env (rv_exec r)) 0 w in
           if k = 0 then 0 else i + of_nat k - 1))] 200 []"
proof -
  let ?d = "fold (dv_step env (rv_exec r)) (batch_events i ts w) delivery_zero"
  have d: "?d = fold (dv_step env (rv_exec r)) (concat (batch_entries i ts w)) delivery_zero"
    by (simp add: batch_events_def bj_array_def)
  have "opened_delivery env (rv_token r) req = Inr (batch_events i ts w)"
    using assms(1-3) by (simp add: opened_delivery_def)
  then have res: "res = text_answer [(''X-Sukkal-Ack'', dec_u64 (d_took ?d))] 200 []" "fed = d_fed ?d"
    using assms(5) by (auto simp: h_deliver_def Let_def)
  show "fed = take (accepted (handled env (rv_exec r)) 0 w + 1) (numbered i w)"
    "res = text_answer [(''X-Sukkal-Ack'', dec_u64 (let k = accepted (handled env (rv_exec r)) 0 w in
       if k = 0 then 0 else i + of_nat k - 1))] 200 []"
    using dv_entries [of delivery_zero ts w _ env "rv_exec r" i] assms(4)
    unfolding res d by (simp_all add: delivery_zero_def Let_def)
qed


end
