(* ===== verification/Loop_Properties.thy ===== *)
theory Loop_Properties
  imports Client_Loops Worker_Properties Client_Properties
begin

text \<open>
  The client's loops: how long a request waits, what a receiver has asked of the broker when it ends,
  and a request and its reply from end to end.
\<close>

section \<open>Waiting\<close>

definition settled :: "('t, 'l) cli_env \<Rightarrow> string \<Rightarrow> string \<Rightarrow> await \<Rightarrow> bool" where
  "settled env token want p \<longleftrightarrow> \<not> aw_ok p \<or> take_in env token want (aw_deliveries p) \<noteq> []"

definition polls_for :: "nat \<Rightarrow> nat" where
  "polls_for ms = (ms + 49) div 50"

lemma polls_for_step: "0 < ms \<Longrightarrow> polls_for ms = Suc (polls_for (ms - 50))"
proof (cases "ms < 50")
  case True
  assume "0 < ms"
  with True have "(ms + 49) div 50 = 1" by (intro div_nat_eqI) simp_all
  with True show ?thesis by (simp add: polls_for_def)
next
  case False
  then obtain k where "ms = 50 + k" using le_Suc_ex [of 50 ms] by auto
  moreover have "(50 + (k + 49)) div 50 = Suc ((k + 49) div 50)" by (subst div_add_self1) simp_all
  ultimately show ?thesis by (simp add: polls_for_def add.assoc)
qed

lemma await_reply_polls:
  assumes "unat timeout_ms \<le> 2 ^ 64 - 50"
  shows "await_reply env token want timeout_ms waited ps =
     (case find (settled env token want) (take (polls_for (unat timeout_ms - unat waited)) ps) of
        None \<Rightarrow> [] | Some p \<Rightarrow> take_in env token want (aw_deliveries p))"
proof (induction ps arbitrary: waited)
  case (Cons p ps)
  show ?case
  proof (cases "waited < timeout_ms")
    case False
    then show ?thesis by (simp add: polls_for_def word_less_nat_alt)
  next
    case True
    then have lt: "unat waited < unat timeout_ms" by (simp add: word_less_nat_alt)
    then have "unat (waited + 50) = unat waited + 50" using assms by (subst unat_add_u64) simp_all
    then have "polls_for (unat timeout_ms - unat waited) = Suc (polls_for (unat timeout_ms - unat (waited + 50)))"
      using polls_for_step [of "unat timeout_ms - unat waited"] lt by simp
    with True Cons.IH [of "waited + 50"] show ?thesis by (simp add: Let_def settled_def)
  qed
qed simp

text \<open>
  C35: A request waits for its reply for a bounded number of polls: the loop ends with the first of
  the first \<open>timeout / 50\<close> polls, rounded up, that brings a reply or fails, and with what that
  poll has brought; if there is none it ends empty-handed, whatever else would come later.
\<close>

theorem request_waits_bounded:
  assumes "unat timeout_ms \<le> 2 ^ 64 - 50"
  shows "await_reply env token want timeout_ms 0 polls =
     (case find (\<lambda>p. \<not> aw_ok p \<or> take_in env token want (aw_deliveries p) \<noteq> [])
             (take ((unat timeout_ms + 49) div 50) polls) of
        None \<Rightarrow> [] | Some p \<Rightarrow> take_in env token want (aw_deliveries p))"
proof -
  have "settled env token want = (\<lambda>p. \<not> aw_ok p \<or> take_in env token want (aw_deliveries p) \<noteq> [])"
    by (simp add: settled_def fun_eq_iff)
  with await_reply_polls [OF assms, of env token want 0 polls] show ?thesis by (simp add: polls_for_def)
qed

section \<open>Leaving\<close>

lemma tell_log: "tell verb url body x turns = (y, r) \<Longrightarrow> snd y = snd x @ [(verb, url, body)]"
  by (auto simp: tell_def split: prod.splits)

lemma put_log:
  "put_registration url x turns = (y, r) \<Longrightarrow>
     snd y = snd x @ (case url of None \<Rightarrow> [] | Some u \<Rightarrow> [(''PUT'', u, [])])"
  by (auto simp: put_registration_def dest: tell_log split: option.splits)

lemma receiver_loop_log:
  "receiver_loop url hb since x bs = (y, r) \<Longrightarrow>
     \<exists>n. snd y = snd x @ replicate n (''PUT'', the url, []) \<and> (url = None \<longrightarrow> n = 0)"
proof (induction url hb since x bs rule: receiver_loop.induct)
  case (2 url hb since x b bs)
  show ?case
  proof (cases "\<not> bt_ok b \<or> hb \<le> 0 \<or> since + 1000 < hb")
    case True
    with 2 show ?thesis by (auto split: if_splits intro: exI [of _ 0])
  next
    case False
    obtain x1 r1 where put: "put_registration url ((fst x)\<lparr>c_waiting := False\<rparr>, snd x) (bt_turns b) = (x1, r1)"
      by (cases "put_registration url ((fst x)\<lparr>c_waiting := False\<rparr>, snd x) (bt_turns b)")
    have log: "snd x1 = snd x @ replicate (if url = None then 0 else 1) (''PUT'', the url, [])"
      using put_log [OF put] by (auto split: option.splits)
    show ?thesis
    proof (cases r1)
      case None
      with "2.prems" False put log show ?thesis by auto
    next
      case (Some v)
      then have "receiver_loop url hb 0 x1 bs = (y, r)" using "2.prems" False put by auto
      from "2.IH"(3) [OF _ _ _ put [symmetric] Some this] False obtain n
        where "snd y = snd x1 @ replicate n (''PUT'', the url, [])" "url = None \<longrightarrow> n = 0" by auto
      with log show ?thesis
        by (intro exI [of _ "(if url = None then 0 else 1) + n"]) (simp add: replicate_add)
    qed
  qed
qed (auto intro: exI [of _ 0])

lemma probe_log:
  "probe_local_ip base ip x turns = (y, r) \<Longrightarrow>
     snd y = snd x @ [(''GET'', Some (fit 1024 (base @ ''/health'')), [])]"
  by (auto simp: probe_local_ip_def dest: tell_log split: prod.splits option.splits)

lemma leave_log:
  "leave base c purge x turns = (y, r) \<Longrightarrow>
     snd y = snd x @ [(''DELETE'', Some (push_unregister base c purge), [])]"
  by (auto simp: leave_def dest: tell_log)

text \<open>From the registration on.\<close>

lemma serving_log:
  assumes put: "put_registration url x turns = (x1, Some (200, turns'))"
    and loop: "receiver_loop url hb 0 x1 bs = (x2, r)"
  shows "\<exists>u n. url = Some u \<and> snd x2 = snd x @ replicate (Suc n) (''PUT'', u, [])"
proof (cases url)
  case None
  with put show ?thesis by (simp add: put_registration_def)
next
  case (Some u)
  then have "snd x1 = snd x @ [(''PUT'', u, [])]" using put_log [OF put] by simp
  moreover obtain n where "snd x2 = snd x1 @ replicate n (''PUT'', u, [])"
    using receiver_loop_log [OF loop] Some by auto
  ultimately show ?thesis using Some by auto
qed

text \<open>What a receiver has asked for when it ends.\<close>

definition tidy ::
    "(string \<Rightarrow> string option) \<Rightarrow> receiver_spec \<Rightarrow> bool \<Rightarrow> (string \<times> string option \<times> bytes) list \<Rightarrow> int \<Rightarrow> bool" where
  "tidy escape sp stopped sent rc \<longleftrightarrow>
     (\<exists>probe u n farewell.
        sent = probe @ replicate n (''PUT'', u, []) @ farewell \<and>
        (probe = [] \<or> probe = [(''GET'', Some (fit 1024 (sp_url_base sp @ ''/health'')), [])]) \<and>
        (n = 0 \<or> (\<exists>ip port. push_register escape sp (self_url sp ip port) = Some u)) \<and>
        (farewell = [] \<or>
         \<not> sp_keep sp \<and>
         farewell = [(''DELETE'', Some (push_unregister (sp_url_base sp) (sp_consumer sp) (sp_ephemeral sp)), [])]) \<and>
        (rc = 0 \<and> \<not> stopped \<and> \<not> sp_keep sp \<longrightarrow> n > 0 \<and> farewell \<noteq> []))"

lemma tidyI:
  assumes "probe = [] \<or> probe = [(''GET'', Some (fit 1024 (sp_url_base sp @ ''/health'')), [])]"
    and "n = 0 \<or> (\<exists>ip port. push_register escape sp (self_url sp ip port) = Some u)"
    and "farewell = [] \<or> \<not> sp_keep sp \<and>
      farewell = [(''DELETE'', Some (push_unregister (sp_url_base sp) (sp_consumer sp) (sp_ephemeral sp)), [])]"
    and "rc = 0 \<and> \<not> stopped \<and> \<not> sp_keep sp \<longrightarrow> n > 0 \<and> farewell \<noteq> []"
  shows "tidy escape sp stopped (probe @ replicate n (''PUT'', u, []) @ farewell) rc"
  unfolding tidy_def using assms by blast

lemma tidy_early:
  assumes "probe = [] \<or> probe = [(''GET'', Some (fit 1024 (sp_url_base sp @ ''/health'')), [])]"
    and "rc = 0 \<longrightarrow> stopped" and "u = None \<or> (\<exists>ip port. u = push_register escape sp (self_url sp ip port))"
  shows "tidy escape sp stopped (probe @ (case u of None \<Rightarrow> [] | Some v \<Rightarrow> [(''PUT'', v, [])])) rc"
proof (cases u)
  case None
  show ?thesis using tidyI [OF assms(1), of 0 escape _ "[]" rc stopped] assms(2) None by simp
next
  case (Some v)
  then have "\<exists>ip port. push_register escape sp (self_url sp ip port) = Some v"
    using assms(3) by (auto dest: sym)
  with tidyI [OF assms(1), of 1 escape v "[]" rc stopped] assms(2) Some show ?thesis by simp
qed

lemma tidy_served:
  assumes "probe = [] \<or> probe = [(''GET'', Some (fit 1024 (sp_url_base sp @ ''/health'')), [])]"
    and "push_register escape sp (self_url sp ip port) = Some u"
  shows "tidy escape sp stopped (probe @ replicate (Suc n) (''PUT'', u, []) @
     (if sp_keep sp then []
      else [(''DELETE'', Some (push_unregister (sp_url_base sp) (sp_consumer sp) (sp_ephemeral sp)), [])])) rc"
  by (rule tidyI [OF assms(1)]) (use assms(2) in auto)

lemma serving_tidy:
  assumes probe: "snd x = [] \<or> snd x = [(''GET'', Some (fit 1024 (sp_url_base sp @ ''/health'')), [])]"
    and url: "url = push_register escape sp (self_url sp ip port)"
    and run: "(case put_registration url x turns of
        (x, None) \<Rightarrow> (snd x, None)
      | (x, Some (status, _)) \<Rightarrow>
          if status \<noteq> 200 then (snd x, Some (if stopped then 0 else 1))
          else
            (case receiver_loop url hb 0 x bs of
               (x, None) \<Rightarrow> (snd x, None)
             | (x, Some rc) \<Rightarrow>
                 if sp_keep sp then (snd x, Some rc)
                 else
                   (case leave (sp_url_base sp) (sp_consumer sp) (sp_ephemeral sp) x ts of
                      (x, r) \<Rightarrow> (snd x, map_option (\<lambda>_. rc) r)))) = (sent, Some (rc :: int))"
  shows "tidy escape sp stopped sent rc"
proof -
  obtain x1 status turns' where put: "put_registration url x turns = (x1, Some (status, turns'))"
    using run by (auto split: prod.splits option.splits)
  show ?thesis
  proof (cases "status = 200")
    case False
    with put run put_log [OF put] tidy_early [OF probe, of rc stopped url escape] url show ?thesis
      by (auto split: if_splits)
  next
    case True
    obtain x2 rc2 where loop: "receiver_loop url hb 0 x1 bs = (x2, Some rc2)"
      using run put True by (auto split: prod.splits option.splits)
    obtain u n where u: "url = Some u" "snd x2 = snd x @ replicate (Suc n) (''PUT'', u, [])"
      using serving_log [OF put [unfolded True] loop] by blast
    obtain x3 r3 where lv: "leave (sp_url_base sp) (sp_consumer sp) (sp_ephemeral sp) x2 ts = (x3, r3)"
      by (cases "leave (sp_url_base sp) (sp_consumer sp) (sp_ephemeral sp) x2 ts")
    have "sent = (if sp_keep sp then snd x2 else snd x3)"
      using run put True loop lv by (auto split: if_splits)
    with tidy_served [OF probe url [symmetric, unfolded u(1)], of stopped n rc] u(2) leave_log [OF lv]
    show ?thesis by (simp split: if_splits)
  qed
qed

text \<open>
  C36: A receiver cleans up after itself. Whatever happens to it, when it ends it has asked the broker
  for nothing but its health, one registration, always the same, as often as its heartbeat asked for
  it, and at the very end its removal, which takes the receipts along exactly when the consumer was a
  throwaway; and a receiver that has served until the user stopped it has asked for its removal, unless
  told to keep the subscription.
\<close>

theorem receiver_unregisters:
  assumes "receiver_run escape sp w = (sent, Some rc)"
  shows "\<exists>probe u n farewell.
           sent = probe @ replicate n (''PUT'', u, []) @ farewell \<and>
           (probe = [] \<or> probe = [(''GET'', Some (fit 1024 (sp_url_base sp @ ''/health'')), [])]) \<and>
           (n = 0 \<or> (\<exists>ip port. push_register escape sp (self_url sp ip port) = Some u)) \<and>
           (farewell = [] \<or>
            \<not> sp_keep sp \<and>
            farewell = [(''DELETE'', Some (push_unregister (sp_url_base sp) (sp_consumer sp) (sp_ephemeral sp)), [])]) \<and>
           (rc = 0 \<and> \<not> rw_stopped w \<and> \<not> sp_keep sp \<longrightarrow> n > 0 \<and> farewell \<noteq> [])"
proof -
  let ?x0 = "(client_init (sp_retry_ms sp), [])"
  let ?probe = "if sp_bind_addr sp = None \<or> sp_callback sp = None
    then probe_local_ip (sp_url_base sp) (rw_ip w) ?x0 (rw_turns w) else (?x0, Some (Some ''127.0.0.1'', rw_turns w))"
  obtain x ipo turns where probe: "?probe = (x, Some (ipo, turns))"
    using assms by (cases ?probe; cases "snd ?probe") (auto simp: receiver_run_def Let_def split: if_splits)
  then have log: "snd x = [] \<or> snd x = [(''GET'', Some (fit 1024 (sp_url_base sp @ ''/health'')), [])]"
    by (auto split: if_splits dest: probe_log)
  note run = assms [unfolded receiver_run_def Let_def probe prod.case option.case]
  have "tidy escape sp (rw_stopped w) sent rc"
  proof (cases ipo)
    case None
    with run tidy_early [OF log, of rc "rw_stopped w" None escape] show ?thesis by (auto split: if_splits)
  next
    case (Some ip)
    show ?thesis
    proof (cases "rw_listen w (case sp_bind_addr sp of Some addr \<Rightarrow> addr | None \<Rightarrow> ip) (sp_port sp)")
      case None
      with run Some tidy_early [OF log, of rc "rw_stopped w" None escape] show ?thesis by auto
    next
      case port: (Some port)
      show ?thesis by (rule serving_tidy [OF log refl]) (use run Some port in auto)
    qed
  qed
  then show ?thesis unfolding tidy_def .
qed

lemma perform_once: "c_retry_ms c \<le> 0 \<Longrightarrow> snd (client_perform c (t # ts)) \<noteq> None"
proof (cases t)
  case (Tried a)
  assume "c_retry_ms c \<le> 0"
  moreover have "c_retry_ms (receive a c) = c_retry_ms c" by (rule receive_retry)
  ultimately show ?thesis by (simp add: client_perform_def Tried Let_def)
qed (simp add: client_perform_def)

lemma leave_once: "\<exists>y v. leave base c purge x (t # ts) = (y, Some v)"
  using perform_once [of "(fst x)\<lparr>c_retry_ms := 0, c_waiting := False\<rparr>" t ts]
  by (auto simp: leave_def tell_def split: prod.splits)

text \<open>
  Leaving never makes a receiver hang: its last request is attempted once, and whatever comes of
  that, it ends when and with the exit code with which it would have ended without it.
\<close>

theorem leaving_never_hangs:
  "snd (receiver_run escape sp (w\<lparr>rw_last := t # ts\<rparr>)) = snd (receiver_run escape (sp\<lparr>sp_keep := True\<rparr>) w)"
proof -
  have same: "self_url (sp\<lparr>sp_keep := True\<rparr>) = self_url sp" "push_register escape (sp\<lparr>sp_keep := True\<rparr>) = push_register escape sp"
    by (simp_all add: fun_eq_iff self_url_def push_register_def split: option.split)
  have leaves: "\<exists>n ts'. r = Some (n, ts')" if "leave base c purge x (t # ts) = (y, r)" for base c purge x y r
    using leave_once [of base c purge x t ts] that by auto
  show ?thesis
    unfolding receiver_run_def Let_def same
    by (auto split: prod.split option.split dest!: leaves)
qed

end
