(* ===== verification/Request_Reply.thy ===== *)
theory Request_Reply
  imports Client_Loops Worker_Properties
begin

text \<open>
  A request and its reply from end to end (\<open>src/src/client.c\<close>): what \<open>request\<close> publishes, what \<open>reply\<close>
  makes of it and publishes in turn, and what the requester finds in the delivery it waits for.
\<close>

section \<open>Envelopes\<close>

text \<open>
  The documented form of an array of an object and a value: both can be cut out of its bytes and read
  on their own.
\<close>

definition envelope_law :: "('t, 'l) cli_env \<Rightarrow> bool" where
  "envelope_law env \<longleftrightarrow>
     (\<forall>hs s b e. bj_build (env_lib env) (bj_array [bj_object hs, [EStr s]]) = (e, Some b) \<longrightarrow>
        list_all (\<lambda>(k, v). exact_evs v) hs \<longrightarrow>
        (\<exists>h m. bjm_envelope_split (env_lib env) (env_array_tag env) b = Some (h, m) \<and>
           bj_decode (env_lib env) h = Inr (bj_object hs) \<and> bj_decode (env_lib env) m = Inr [EStr s]))"

lemma envelope_lawD:
  assumes "envelope_law env" and "bj_build (env_lib env) (bj_array [bj_object hs, [EStr s]]) = (e, Some b)"
    and "list_all (\<lambda>(k, v). exact_evs v) hs"
  obtains h m where "bjm_envelope_split (env_lib env) (env_array_tag env) b = Some (h, m)"
    and "bj_decode (env_lib env) h = Inr (bj_object hs)" and "bj_decode (env_lib env) m = Inr [EStr s]"
  using assms unfolding envelope_law_def by blast

section \<open>Headers\<close>

text \<open>A text that a buffer of this size holds whole.\<close>

definition short_text :: "nat \<Rightarrow> string \<Rightarrow> bool" where
  "short_text n s \<longleftrightarrow> length s < n \<and> CHR 0x00 \<notin> set s"

lemma grab_whole: "short_text n s \<Longrightarrow> grab_key n s = s"
  by (auto simp: short_text_def grab_key_def c_str_id)

lemma header_names: "grab_key 64 ''reply_to'' = ''reply_to''" "grab_key 64 ''correlation'' = ''correlation''"
  by code_simp+

lemma header_reply_to:
  assumes "bj_decode L h = Inr (bj_object [(''reply_to'', [EStr r]), (''correlation'', [EStr c])])"
    and "short_text (BJM_SUBJECT_MAX + 1) r"
  shows "header_value L h ''reply_to'' (BJM_SUBJECT_MAX + 1) = Some r"
  using assms grab_whole [OF assms(2)]
  by (simp add: header_value_def bj_object_def header_names short_text_def)

lemma header_correlation:
  assumes "short_text 64 c" and "64 \<le> n"
  shows "bj_decode L h = Inr (bj_object [(''reply_to'', [EStr r]), (''correlation'', [EStr c])]) \<Longrightarrow>
      header_value L h ''correlation'' n = Some c"
    and "bj_decode L h = Inr (bj_object [(''correlation'', [EStr c])]) \<Longrightarrow>
      header_value L h ''correlation'' n = Some c"
proof -
  have "short_text (BJM_SUBJECT_MAX + 1) c" using assms(1) by (simp add: short_text_def BJM_SUBJECT_MAX_def)
  note whole = grab_whole [OF this]
  have cut: "take (n - 1) c = c" using assms by (auto simp: short_text_def)
  show "bj_decode L h = Inr (bj_object [(''reply_to'', [EStr r]), (''correlation'', [EStr c])]) \<Longrightarrow>
      header_value L h ''correlation'' n = Some c"
    "bj_decode L h = Inr (bj_object [(''correlation'', [EStr c])]) \<Longrightarrow> header_value L h ''correlation'' n = Some c"
    using whole cut by (simp_all add: header_value_def bj_object_def header_names)
qed

section \<open>The reply\<close>

lemma rr_job: "fold rr_step (bj_array [job_event (i, a, x, ty, p)]) rr_msg_zero =
    rr_msg_zero\<lparr>rr_key := ''payload'', rr_index := i, rr_type := ty, rr_payload := Some p\<rparr>"
  by (simp add: bj_array_def bj_object_def batch_keys rr_msg_zero_def)

text \<open>What the replier publishes for a request.\<close>

lemma reply_published:
  assumes laws: "bj_laws (env_lib env)" and env: "envelope_law env"
    and built: "bj_build (env_lib env) (request_events reply_to corr txt) = (e, Some b)"
    and names: "short_text (BJM_SUBJECT_MAX + 1) reply_to" "reply_to \<noteq> []" "short_text 64 corr" "corr \<noteq> []"
    and body: "cb_body req \<noteq> []"
      "bj_decode (env_lib env) (cb_body req) = Inr (bj_array [job_event (i, a, x, word_of_int BJM_ENTRY_ENVELOPE, b)])"
    and auth: "authorised token req"
    and ran: "\<And>m. bj_decode (env_lib env) m = Inr [EStr txt] \<Longrightarrow> run_filter (feed_for env False m) = (0, out)"
    and reply: "h_reply env token url_base run_filter send req = (ans, Some (url, b'))"
  shows "url = fit 1024 (url_base @ ''/pub/'' @ reply_to @ ''?headers=1&id=reply.'' @ corr)"
    and "\<exists>e. bj_build (env_lib env)
           (bj_array [bj_object [(''correlation'', [EStr corr])], [EStr (from_bytes (chomp out))]]) = (e, Some b')"
proof -
  obtain h m where split: "bjm_envelope_split (env_lib env) (env_array_tag env) b = Some (h, m)"
    and h: "bj_decode (env_lib env) h = Inr (bj_object [(''reply_to'', [EStr reply_to]), (''correlation'', [EStr corr])])"
    and m: "bj_decode (env_lib env) m = Inr [EStr txt]"
    using envelope_lawD [OF env built [unfolded request_events_def]] by auto
  have opened: "opened_delivery env token req = Inr (bj_array [job_event (i, a, x, word_of_int BJM_ENTRY_ENVELOPE, b)])"
    using auth body by (simp add: opened_delivery_def)
  note got = header_reply_to [OF h names(1)] header_correlation(1) [OF names(3) order_refl h] ran [OF m]
  let ?msg = "bj_build (env_lib env) [EStr (from_bytes (chomp out))]"
  obtain e1 b1 where msg: "?msg = (e1, Some b1)"
    using reply names opened split got
    by (cases ?msg; cases "snd ?msg") (auto simp: h_reply_def rr_job Let_def simp del: job_event.simps)
  have "value_events (env_lib env) b1 = Some [EStr (from_bytes (chomp out))]"
    using decode_build [OF laws msg] by (simp add: value_events_def)
  then have "publish_reply (env_lib env) url_base reply_to corr b1 = Some (url, b')"
    using reply names opened split got msg
    by (auto simp: h_reply_def rr_job Let_def simp del: job_event.simps split: option.splits)
  with \<open>value_events (env_lib env) b1 = _\<close>
  show "url = fit 1024 (url_base @ ''/pub/'' @ reply_to @ ''?headers=1&id=reply.'' @ corr)"
    "\<exists>e. bj_build (env_lib env)
       (bj_array [bj_object [(''correlation'', [EStr corr])], [EStr (from_bytes (chomp out))]]) = (e, Some b')"
    by (auto simp: publish_reply_def) (metis prod.collapse)+
qed

section \<open>The requester\<close>

text \<open>What the requester finds in a batch: the first message it takes for its reply.\<close>

definition reply_in :: "('t, 'l) cli_env \<Rightarrow> string \<Rightarrow> int \<times> bytes \<Rightarrow> bytes option" where
  "reply_in env want m = correlated env want (word_of_int (fst m)) (Some (snd m))"

lemma cs_object:
  "cs_printed (fold (cs_step env want)
       (bj_object [(''index'', [EInt i]), (''term'', [EInt t]), (''type'', [EInt (word_of_int ty)]), (''payload'', [EBin b])]) s) =
     (if cs_printed s = None then reply_in env want (ty, b) else cs_printed s)"
  by (cases "cs_printed s") (simp_all add: bj_object_def batch_keys reply_in_def Let_def)

lemma cs_entries:
  "length ts = length es \<Longrightarrow>
     cs_printed (fold (cs_step env want) (concat (batch_entries i ts es)) s) =
     (if cs_printed s = None
      then (case find (\<lambda>m. reply_in env want m \<noteq> None) es of None \<Rightarrow> None | Some m \<Rightarrow> reply_in env want m)
      else cs_printed s)"
proof (induction i ts es arbitrary: s rule: batch_entries.induct)
  case (1 i t ts ty b es)
  then show ?case by (simp add: cs_object del: cs_step.simps)
qed auto

lemma awaited:
  assumes "authorised token dl" and "cb_body dl \<noteq> []" and "length ts = length es"
    and "bj_decode (env_lib env) (cb_body dl) = Inr (batch_events i ts es)"
  shows "snd (h_awaited env token want dl) =
     (case find (\<lambda>m. reply_in env want m \<noteq> None) es of None \<Rightarrow> None | Some m \<Rightarrow> reply_in env want m)"
  using assms cs_entries [OF assms(3), of env want i corr_scan_zero]
  by (simp add: h_awaited_def batch_events_def bj_array_def corr_scan_zero_def)

lemma reply_found:
  assumes "envelope_law env" and "short_text 64 corr"
    and "bj_build (env_lib env) (bj_array [bj_object [(''correlation'', [EStr corr])], [EStr txt]]) = (e, Some b)"
  shows "\<exists>m. reply_in env corr (BJM_ENTRY_ENVELOPE, b) = Some m \<and> bj_decode (env_lib env) m = Inr [EStr txt]"
proof -
  obtain h m where "bjm_envelope_split (env_lib env) (env_array_tag env) b = Some (h, m)"
    "bj_decode (env_lib env) h = Inr (bj_object [(''correlation'', [EStr corr])])"
    "bj_decode (env_lib env) m = Inr [EStr txt]"
    using envelope_lawD [OF assms(1,3)] by auto
  with header_correlation(2) [OF assms(2), of 96 "env_lib env" h] show ?thesis
    by (simp add: reply_in_def correlated_def)
qed


end
