(* ===== verification/Registration.thy ===== *)
theory Registration
  imports Answers Handlers
begin

text \<open>
  A registration from the client's URL (\<open>push_register_at\<close> in \<open>src/src/client.c\<close>) to the record the
  broker keeps (\<open>h_push_put\<close> in \<open>src/src/server.c\<close>): what is written is what is read.
\<close>

section \<open>The parameters\<close>

definition reg_params ::
    "string \<Rightarrow> string \<Rightarrow> string option \<Rightarrow> string \<Rightarrow> u64 \<Rightarrow> u64 \<Rightarrow> bool \<Rightarrow> u64 \<Rightarrow> (string \<times> string) list" where
  "reg_params consumer callback grp token batch max_jobs at_end from =
     [(''consumer'', consumer), (''callback'', callback)] @
     (if grp \<noteq> None \<and> grp \<noteq> Some [] then [(''group'', the grp)] else []) @
     (if max_jobs \<noteq> 0 then [(''max'', dec_u64 max_jobs)] else []) @
     (if token \<noteq> [] then [(''token'', token)] else []) @
     (if batch \<noteq> 0 then [(''batch'', dec_u64 batch)] else []) @
     (if at_end then [(''start'', ''last'')] else []) @
     (if \<not> at_end \<and> from > 1 then [(''from'', dec_u64 from)] else [])"

text \<open>Text that needs no escape, so that writing it as it is writes its escape.\<close>

definition harmless :: "string \<Rightarrow> bool" where
  "harmless s \<longleftrightarrow> list_all unreserved s"

lemma harmless_encode: "harmless s \<Longrightarrow> url_encode s = s"
  by (induction s) (simp_all add: harmless_def url_encode_def percent_def)

lemma name_harmless: "name_valid s n \<Longrightarrow> harmless s \<and> length s \<le> n \<and> s \<noteq> []"
  using name_loop_chars [of s]
  by (auto simp: name_valid_def harmless_def Let_def unreserved_def name_char_def list_all_iff split: if_splits)

lemma digit_harmless: "is_digit c \<Longrightarrow> unreserved c"
  by (simp add: is_digit_def unreserved_def token_char_def)

lemma dec_harmless: "harmless (dec_u64 v)"
  using dec_digits [of "uint v"] digit_harmless by (simp add: harmless_def dec_u64_def list_all_iff)

lemma look:
  "map_of (kvs @ kvs') key = (case map_of kvs key of None \<Rightarrow> map_of kvs' key | Some v \<Rightarrow> Some v)"
  "map_of (if c then [(k, v)] else []) key = (if c \<and> k = key then Some v else None)"
  "map_of ((k, v) # kvs) key = (if k = key then Some v else map_of kvs key)"
  by (simp_all add: map_add_def split: option.split)

lemma reg_lookup:
  fixes consumer callback grp token batch max_jobs at_end "from"
  defines "p \<equiv> map_of (reg_params consumer callback grp token batch max_jobs at_end from)"
  shows "p ''consumer'' = Some consumer" and "p ''callback'' = Some callback"
    and "p ''group'' = (if grp \<noteq> None \<and> grp \<noteq> Some [] then Some (the grp) else None)"
    and "p ''max'' = (if max_jobs \<noteq> 0 then Some (dec_u64 max_jobs) else None)"
    and "p ''token'' = (if token \<noteq> [] then Some token else None)"
    and "p ''batch'' = (if batch \<noteq> 0 then Some (dec_u64 batch) else None)"
    and "p ''start'' = (if at_end then Some ''last'' else None)"
    and "p ''from'' = (if \<not> at_end \<and> from > 1 then Some (dec_u64 from) else None)"
  unfolding p_def reg_params_def by (cases grp; simp add: look del: map_of_append map_of.simps)+

section \<open>Writing\<close>

lemma query_string_snoc:
  "kvs \<noteq> [] \<Longrightarrow> query_string (kvs @ [(k, v)]) = query_string kvs @ CHR ''&'' # k @ CHR ''='' # url_encode v"
  by (induction kvs rule: query_string.induct) simp_all

definition written :: "string \<Rightarrow> (string \<times> string) list \<Rightarrow> string option \<Rightarrow> bool" where
  "written pre kvs u \<longleftrightarrow> kvs \<noteq> [] \<and> (\<forall>s. u = Some s \<longrightarrow> s = pre @ query_string kvs)"

lemma written_put:
  assumes "written pre kvs u" and "c \<Longrightarrow> harmless v"
  shows "written pre (kvs @ (if c then [(k, v)] else []))
           (if c then url_put cap (CHR ''&'' # k @ CHR ''='' # v) u else u)"
  using assms harmless_encode [of v]
  by (auto simp: written_def url_put_def query_string_snoc split: option.splits if_splits)

lemma push_url:
  assumes "push_register_at (\<lambda>s. Some (url_encode s)) base pattern consumer grp callback token batch max_jobs at_end from =
             Some (Some url)"
    and "length url < 2047"
    and "harmless consumer" and "\<And>g. grp = Some g \<Longrightarrow> harmless g" and "harmless token"
  shows "url = base @ ''/push/'' @ pattern @ ''?'' @
           query_string (reg_params consumer callback grp token batch max_jobs at_end from)"
proof -
  define pre where "pre = base @ ''/push/'' @ pattern @ ''?''"
  define u0 where "u0 = Some (base @ ''/push/'' @ pattern @ ''?consumer='' @ consumer @ ''&callback='' @ url_encode callback)"
  define u1 where "u1 = (if grp \<noteq> None \<and> grp \<noteq> Some [] then url_put 2048 (CHR ''&'' # ''group'' @ CHR ''='' # the grp) u0 else u0)"
  define u2 where "u2 = (if max_jobs \<noteq> 0 then url_put 2048 (CHR ''&'' # ''max'' @ CHR ''='' # dec_u64 max_jobs) u1 else u1)"
  define u3 where "u3 = (if token \<noteq> [] then url_put 2048 (CHR ''&'' # ''token'' @ CHR ''='' # token) u2 else u2)"
  define u4 where "u4 = (if batch \<noteq> 0 then url_put 2048 (CHR ''&'' # ''batch'' @ CHR ''='' # dec_u64 batch) u3 else u3)"
  define u5 where "u5 = (if at_end then url_put 2048 (CHR ''&'' # ''start'' @ CHR ''='' # ''last'') u4 else u4)"
  define u6 where "u6 = (if \<not> at_end \<and> from > 1 then url_put 2048 (CHR ''&'' # ''from'' @ CHR ''='' # dec_u64 from) u5 else u5)"
  have w0: "written pre [(''consumer'', consumer), (''callback'', callback)] u0"
    using harmless_encode [OF assms(3)] by (simp add: written_def u0_def pre_def)
  have word: "harmless ''last''" unfolding harmless_def by code_simp
  have g: "grp \<noteq> None \<and> grp \<noteq> Some [] \<Longrightarrow> harmless (the grp)" using assms(4) by auto
  note w1 = written_put [where c = "grp \<noteq> None \<and> grp \<noteq> Some []" and k = "''group''" and cap = 2048, OF w0 g, folded u1_def]
  note w2 = written_put [where c = "max_jobs \<noteq> 0" and k = "''max''" and cap = 2048, OF w1 dec_harmless [of max_jobs], folded u2_def]
  note w3 = written_put [where c = "token \<noteq> []" and k = "''token''" and cap = 2048, OF w2 assms(5), folded u3_def]
  note w4 = written_put [where c = "batch \<noteq> 0" and k = "''batch''" and cap = 2048, OF w3 dec_harmless [of batch], folded u4_def]
  note w5 = written_put [where c = at_end and k = "''start''" and cap = 2048, OF w4 word, folded u5_def]
  note w6 = written_put [where c = "\<not> at_end \<and> from > 1" and k = "''from''" and cap = 2048, OF w5 dec_harmless [of "from"], folded u6_def]
  have u6: "map_option (fit 2048) u6 = Some url"
    using assms(1) unfolding u6_def u5_def u4_def u3_def u2_def u1_def u0_def push_register_at_def
    by (simp add: Let_def split: if_splits option.splits)
  then obtain s where s: "u6 = Some s" "fit 2048 s = url" by auto
  then have "length s < 2047" using assms(2) by (auto simp: fit_def min_def split: if_splits)
  then have "s = url" using s(2) by (simp add: fit_def)
  moreover have "s = pre @ query_string (reg_params consumer callback grp token batch max_jobs at_end from)"
    using w6 s(1) unfolding written_def reg_params_def by simp
  ultimately show ?thesis by (simp add: pre_def)
qed

section \<open>Reading\<close>

lemma found_param:
  fixes req :: sukkal_req
  assumes "rq_query req = sukkal_query_from_string (Some (query_string kvs))" and "list_all plain_key (map fst kvs)"
  shows "map_of kvs key = None \<Longrightarrow> rq_query req key n = Missing"
    and "map_of kvs key = Some v \<Longrightarrow> length v < n \<Longrightarrow> CHR 0x00 \<notin> set v \<Longrightarrow> rq_query req key n = Found v"
  using assms
  by (simp_all add: sukkal_query_from_string_def seek_query decode_encode c_str_id)

lemma harmless_no_nul: "harmless s \<Longrightarrow> CHR 0x00 \<notin> set s"
proof -
  have "\<not> unreserved (CHR 0x00)" by code_simp
  then show "harmless s \<Longrightarrow> CHR 0x00 \<notin> set s" by (auto simp: harmless_def list_all_iff)
qed

lemma visible_no_nul: "list_all visible_char s \<Longrightarrow> CHR 0x00 \<notin> set s"
proof -
  have "\<not> visible_char (CHR 0x00)" by code_simp
  then show "list_all visible_char s \<Longrightarrow> CHR 0x00 \<notin> set s" by (auto simp: list_all_iff)
qed

lemma dec_fits: "length (dec_u64 v) < 32"
proof -
  have "uint v < 10 ^ Suc 19" using uint_lt2p [of v] by simp
  from dec_length [OF uint_ge_0 this] show ?thesis by (simp add: dec_u64_def)
qed

text \<open>A request that carries these parameters, and each of the broker's readers on it.\<close>

definition asks :: "sukkal_req \<Rightarrow> (string \<times> string) list \<Rightarrow> bool" where
  "asks req kvs \<longleftrightarrow>
     rq_query req = sukkal_query_from_string (Some (query_string kvs)) \<and> list_all plain_key (map fst kvs)"

lemma asks_found:
  assumes "asks req kvs"
  shows "map_of kvs key = None \<Longrightarrow> rq_query req key n = Missing"
    and "map_of kvs key = Some v \<Longrightarrow> length v < n \<Longrightarrow> CHR 0x00 \<notin> set v \<Longrightarrow> rq_query req key n = Found v"
  using found_param [of req kvs] assms by (simp_all add: asks_def)

lemma read_number:
  assumes "asks req kvs" and "map_of kvs key = (if v \<noteq> 0 then Some (dec_u64 v) else None)"
  shows "query_u64 req key 0 = v"
  using assms(2) query_number [of req key v 0] asks_found(1) [OF assms(1), of key 32]
    asks_found(2) [OF assms(1), of key "dec_u64 v" 32] dec_fits harmless_no_nul [OF dec_harmless]
  by (cases "v = 0") (simp_all add: query_u64_def)

lemma read_consumer:
  assumes "asks req kvs" and "map_of kvs ''consumer'' = Some c" and "bjm_consumer_valid c"
  shows "query_consumer req = Inr (Some c)"
proof -
  have "harmless c" "length c < BJM_CONSUMER_MAX + 1"
    using name_harmless [of c] assms(3) by (fastforce simp: bjm_consumer_valid_def)+
  then have "rq_query req ''consumer'' (BJM_CONSUMER_MAX + 1) = Found c"
    by (intro asks_found(2) [OF assms(1,2)] harmless_no_nul)
  with assms(3) show ?thesis by (simp add: query_consumer_def)
qed

lemma read_callback:
  assumes "asks req kvs" and "map_of kvs ''callback'' = Some cb" and "bjm_callback_valid cb"
  shows "callback_of req = Inr cb"
proof -
  have "length cb < BJM_CALLBACK_MAX + 1" "CHR 0x00 \<notin> set cb"
    using assms(3) visible_no_nul [of cb] by (auto simp: bjm_callback_valid_def Let_def split: if_splits)
  from asks_found(2) [OF assms(1,2) this] assms(3) show ?thesis by (simp add: callback_of_def)
qed

lemma read_token:
  assumes "asks req kvs" and "map_of kvs ''token'' = (if t \<noteq> [] then Some t else None)"
    and "bjm_token_valid t" and "harmless t"
  shows "token_of req = Inr t"
proof (cases "t = []")
  case True
  then have "rq_query req ''token'' (BJM_TOKEN_MAX + 1) = Missing"
    using assms(2) by (intro asks_found(1) [OF assms(1)]) simp
  then show ?thesis using True by (simp add: token_of_def)
next
  case False
  have "length t < BJM_TOKEN_MAX + 1" using assms(3) by (auto simp: bjm_token_valid_def split: if_splits)
  then have "rq_query req ''token'' (BJM_TOKEN_MAX + 1) = Found t"
    using False assms(2) harmless_no_nul [OF assms(4)] by (intro asks_found(2) [OF assms(1)]) simp_all
  then show ?thesis using assms(3) by (simp add: token_of_def)
qed

lemma read_group:
  assumes "asks req kvs" and "map_of kvs ''group'' = (if grp \<noteq> None \<and> grp \<noteq> Some [] then Some (the grp) else None)"
    and "grp = None \<or> bjm_group_valid (the grp)"
  shows "query_group req = Inr grp"
proof (cases grp)
  case None
  then have "rq_query req ''group'' (BJM_GROUP_MAX + 1) = Missing"
    using assms(2) by (intro asks_found(1) [OF assms(1)]) simp
  then show ?thesis using None by (simp add: query_group_def)
next
  case (Some g)
  have "harmless g" "length g < BJM_GROUP_MAX + 1" "g \<noteq> []"
    using name_harmless [of g] assms(3) Some by (fastforce simp: bjm_group_valid_def)+
  then have "rq_query req ''group'' (BJM_GROUP_MAX + 1) = Found g"
    using Some assms(2) by (intro asks_found(2) [OF assms(1)] harmless_no_nul) simp_all
  then show ?thesis using Some assms(3) by (simp add: query_group_def)
qed

text \<open>
  C33: A registration is read as it was written. When the URL fits its buffer, and the names and the
  token hold nothing that would have to be escaped, the broker's readers give back the pattern, the
  consumer, the callback whatever is in it, the group, the token, the batch size, the job count up
  to its limit, and where delivery begins; nothing else is in it.
\<close>

theorem registration_roundtrip:
  assumes put: "push_register_at (\<lambda>s. Some (url_encode s)) base pattern consumer grp callback token batch max_jobs at_end from =
             Some (Some url)"
    and fits: "length url < 2047"
    and valid: "if bjm_pattern_is pattern then bjm_pattern_valid pattern else bjm_subject_valid pattern"
      "bjm_consumer_valid consumer" "grp = None \<or> bjm_group_valid (the grp)" "bjm_callback_valid callback"
      "bjm_token_valid token" "harmless token"
  shows "\<exists>q. url = base @ ''/push/'' @ pattern @ ''?'' @ q \<and>
           (\<forall>req. rq_path req = ''/push/'' @ pattern \<longrightarrow> rq_query req = sukkal_query_from_string (Some q) \<longrightarrow>
              pattern_of req ''/push/'' = Inr pattern \<and> query_consumer req = Inr (Some consumer) \<and>
              push_config req pattern =
                Inr \<lparr>ps_pattern = pattern, ps_callback = callback, ps_token = token, ps_batch_bytes = batch,
                     ps_group = (case grp of None \<Rightarrow> [] | Some g \<Rightarrow> g), ps_max_jobs = min max_jobs 64\<rparr> \<and>
              (rq_query req ''start'' 8 = Found ''last'' \<longleftrightarrow> at_end) \<and>
              query_u64 req ''from'' 0 = (if at_end \<or> from \<le> 1 then 0 else from))"
proof -
  let ?kvs = "reg_params consumer callback grp token batch max_jobs at_end from"
  have h: "harmless consumer" "\<And>g. grp = Some g \<Longrightarrow> harmless g"
    using name_harmless [of consumer] name_harmless valid(2,3)
    by (fastforce simp: bjm_consumer_valid_def bjm_group_valid_def)+
  have url: "url = base @ ''/push/'' @ pattern @ ''?'' @ query_string ?kvs"
    by (rule push_url [OF put fits h valid(6)])
  have pat: "take BJM_SUBJECT_MAX pattern = pattern"
    using valid(1) by (auto simp: bjm_pattern_valid_def bjm_subject_valid_def name_valid_def Let_def split: if_splits)
  show ?thesis
  proof (intro exI [of _ "query_string ?kvs"] conjI allI impI, rule url)
    fix req :: sukkal_req
    assume path: "rq_path req = ''/push/'' @ pattern" and q: "rq_query req = sukkal_query_from_string (Some (query_string ?kvs))"
    have a: "asks req ?kvs" using q by (simp add: asks_def reg_params_def plain_key_def)
    note num = read_number [OF a]
    show "pattern_of req ''/push/'' = Inr pattern" using valid(1) path by (simp add: pattern_of_def)
    show "query_consumer req = Inr (Some consumer)" by (rule read_consumer [OF a reg_lookup(1) valid(2)])
    note read = read_callback [OF a reg_lookup(2) valid(4)] read_token [OF a reg_lookup(5) valid(5,6)]
      read_group [OF a _ valid(3)]
    have "query_u64 req ''batch'' 0 = batch" "query_u64 req ''max'' 0 = max_jobs"
      by (rule num, simp add: reg_lookup)+
    then show "push_config req pattern =
        Inr \<lparr>ps_pattern = pattern, ps_callback = callback, ps_token = token, ps_batch_bytes = batch,
             ps_group = (case grp of None \<Rightarrow> [] | Some g \<Rightarrow> g), ps_max_jobs = min max_jobs 64\<rparr>"
      using pat by (auto simp: push_config_def read reg_lookup(3) Let_def min_def BJM_PUSH_JOBS_MAX_def)
    show "rq_query req ''start'' 8 = Found ''last'' \<longleftrightarrow> at_end"
      using asks_found(1) [OF a, of "''start''" 8] asks_found(2) [OF a, of "''start''" "''last''" 8]
      by (cases at_end) (simp_all add: reg_lookup)
    show "query_u64 req ''from'' 0 = (if at_end \<or> from \<le> 1 then 0 else from)"
      by (rule num) (auto simp: reg_lookup)
  qed
qed

end
