(* ===== verification/Pipe_Properties.thy ===== *)
theory Pipe_Properties
  imports Answers
begin

text \<open>
  A pipeline stage (\<open>pipe_one\<close> and \<open>h_pipe\<close> in \<open>src/src/client.c\<close>): what an acknowledgement of its
  input says about its output, and the ids under which it publishes.
\<close>

section \<open>Ids\<close>

lemma dec_inj: "0 \<le> a \<Longrightarrow> 0 \<le> b \<Longrightarrow> dec a = dec b \<Longrightarrow> a = b"
  using digits_value_dec by metis

lemma dec_no_sign: "0 \<le> n \<Longrightarrow> dec n \<noteq> CHR ''-'' # r"
proof
  assume "0 \<le> n" "dec n = CHR ''-'' # r"
  then have "is_digit (CHR ''-'')" using dec_digits [of n] by simp
  then show False using digit_not_sign by blast
qed

lemma dec_signed_inj: "dec_signed a = dec_signed b \<Longrightarrow> a = b"
proof -
  assume eq: "dec_signed a = dec_signed b"
  have ab: "dec a \<noteq> CHR ''-'' # dec (- b)" if "0 \<le> a" using dec_no_sign [OF that] by blast
  have ba: "dec b \<noteq> CHR ''-'' # dec (- a)" if "0 \<le> b" using dec_no_sign [OF that] by blast
  show "a = b"
    using eq ab ba dec_inj [of a b] dec_inj [of "- a" "- b"]
    by (cases "a < 0"; cases "b < 0") (auto simp: dec_signed_def)
qed

lemma index_inj: "dec_signed (sint (i :: u64)) = dec_signed (sint j) \<longleftrightarrow> i = j"
  using dec_signed_inj signed_word_eqI by metis

text \<open>
  C38: The ids of a stage tell its messages apart only while they fit. With names short enough for any
  index, two messages share an id exactly when they have the same index; with names that alone fill
  the id, all messages share one, so that after the first the broker takes every later one for a
  repetition.
\<close>

theorem pipe_ids_apart:
  "(length consumer + length subject + 2 + max (length (dec_signed (sint i))) (length (dec_signed (sint j))) \<le> BJM_DEDUP_ID_MAX
      \<longrightarrow> (pipe_id consumer subject i = pipe_id consumer subject j \<longleftrightarrow> i = j)) \<and>
   (BJM_DEDUP_ID_MAX \<le> length consumer + length subject + 2 \<longrightarrow> pipe_id consumer subject i = pipe_id consumer subject j)"
proof (intro conjI impI)
  assume "length consumer + length subject + 2 + max (length (dec_signed (sint i))) (length (dec_signed (sint j))) \<le> BJM_DEDUP_ID_MAX"
  then have "pipe_id consumer subject x = consumer @ ''.'' @ subject @ ''.'' @ dec_signed (sint x)"
    if "x = i \<or> x = j" for x
    using that by (auto simp: pipe_id_def fit_def)
  then show "pipe_id consumer subject i = pipe_id consumer subject j \<longleftrightarrow> i = j"
    using index_inj [of i j] by auto
next
  assume "BJM_DEDUP_ID_MAX \<le> length consumer + length subject + 2"
  then have "BJM_DEDUP_ID_MAX \<le> length (consumer @ ''.'' @ subject @ ''.'')" by simp
  then have "take BJM_DEDUP_ID_MAX ((consumer @ ''.'' @ subject @ ''.'') @ d) =
      take BJM_DEDUP_ID_MAX (consumer @ ''.'' @ subject @ ''.'')" for d
    using take_append [of BJM_DEDUP_ID_MAX "consumer @ ''.'' @ subject @ ''.''" d]
    by (simp only: diff_is_0_eq [THEN iffD2] take_0 append_Nil2)
  from this [of "dec_signed (sint i)"] this [of "dec_signed (sint j)"]
  show "pipe_id consumer subject i = pipe_id consumer subject j"
    unfolding pipe_id_def fit_def by (simp only: append_assoc add_diff_cancel_right')
qed

section \<open>Acknowledgements\<close>

text \<open>
  A message is through when the filter dropped it, with exit code 0 and no output, or when a request
  of the stage published its output under its id and was answered 200.
\<close>

definition through ::
    "query_opts \<Rightarrow> int \<times> bytes \<Rightarrow> (nat \<Rightarrow> string \<times> bytes \<Rightarrow> int) \<Rightarrow> (string \<times> bytes) list \<Rightarrow> u64 \<Rightarrow> bool" where
  "through q filtered send sent ix \<longleftrightarrow>
     fst filtered = 0 \<and>
     (snd filtered = [] \<or> (\<exists>j body. j < length sent \<and> sent ! j = (pipe_url q ix, body) \<and> send j (sent ! j) = 200))"

lemma through_more: "through q filtered send sent ix \<Longrightarrow> through q filtered send (sent @ extra) ix"
proof -
  have "\<exists>j body. j < length (sent @ extra) \<and> (sent @ extra) ! j = x body \<and> send j ((sent @ extra) ! j) = 200"
    if "\<exists>j body. j < length sent \<and> sent ! j = x body \<and> send j (sent ! j) = 200"
    for x :: "bytes \<Rightarrow> string \<times> bytes"
  proof -
    from that obtain j body where "j < length sent \<and> sent ! j = x body \<and> send j (sent ! j) = 200" by blast
    then show ?thesis by (intro exI [of _ j] exI [of _ body]) (auto simp: nth_append)
  qed
  then show "through q filtered send sent ix \<Longrightarrow> through q filtered send (sent @ extra) ix"
    unfolding through_def by blast
qed

lemma pipe_one_through:
  assumes "pipe_one env q filtered (send (length sent)) ix = (True, r)"
  shows "through q filtered send (sent @ (case r of Some x \<Rightarrow> [x] | None \<Rightarrow> [])) ix"
proof -
  obtain st out where f: "filtered = (st, out)" by (cases filtered)
  show ?thesis
    using assms unfolding f
    by (auto simp: pipe_one_def through_def Let_def nth_append split: if_splits option.splits)
qed

lemma pipe_one_refused: "pipe_one env q (0, []) send ix = (True, None)"
  by (simp add: pipe_one_def)

definition pp_next ::
    "('t, 'l) cli_env \<Rightarrow> query_opts \<Rightarrow> (nat \<Rightarrow> u64 \<Rightarrow> bytes \<Rightarrow> int \<times> bytes) \<Rightarrow> (nat \<Rightarrow> string \<times> bytes \<Rightarrow> int)
      \<Rightarrow> u64 \<Rightarrow> bytes \<Rightarrow> piper \<Rightarrow> piper" where
  "pp_next env q run send ix b p = pp_step env q run send (EBin b) (p\<lparr>pp_index := ix, pp_key := ''payload''\<rparr>)"

lemma pp_entry:
  "fold (pp_step env q run send) (concat (batch_entries i (t # ts) ((ty, b) # es))) p =
     fold (pp_step env q run send) (concat (batch_entries (i + 1) ts es)) (pp_next env q run send i b p)"
  by (simp add: pp_next_def bj_object_def batch_keys del: pp_step.simps(3))

lemma pp_stopped_stays:
  "pp_stopped p \<Longrightarrow> length ts = length es \<Longrightarrow>
     pp_took (fold (pp_step env q run send) (concat (batch_entries i ts es)) p) = pp_took p \<and>
     pp_sent (fold (pp_step env q run send) (concat (batch_entries i ts es)) p) = pp_sent p"
proof (induction i ts es arbitrary: p rule: batch_entries.induct)
  case (1 i t ts ty b es)
  then show ?case unfolding pp_entry by (simp add: pp_next_def)
qed simp_all

lemma pp_entries:
  "\<not> pp_stopped p \<Longrightarrow> length ts = length es \<Longrightarrow>
     \<exists>k extra. k \<le> length es \<and>
       pp_took (fold (pp_step env q run send) (concat (batch_entries i ts es)) p) =
         (if k = 0 then pp_took p else i + of_nat k - 1) \<and>
       pp_sent (fold (pp_step env q run send) (concat (batch_entries i ts es)) p) = pp_sent p @ extra \<and>
       (\<forall>m < k. through q (run (pp_runs p + m) (i + of_nat m) (feed_for env (o_raw q) (snd (es ! m)))) send
                  (pp_sent p @ extra) (i + of_nat m))"
proof (induction i ts es arbitrary: p rule: batch_entries.induct)
  case (1 i t ts ty b es)
  obtain ok r where one: "pipe_one env q (run (pp_runs p) i (feed_for env (o_raw q) b)) (send (length (pp_sent p))) i = (ok, r)"
    by (cases "pipe_one env q (run (pp_runs p) i (feed_for env (o_raw q) b)) (send (length (pp_sent p))) i")
  define new where "new = (case r of Some x \<Rightarrow> [x] | None \<Rightarrow> [])"
  let ?p = "pp_next env q run send i b p"
  show ?case
  proof (cases ok)
    case False
    have p: "pp_stopped ?p" "pp_took ?p = pp_took p" "pp_sent ?p = pp_sent p @ new"
      using 1(2) one False by (simp_all add: pp_next_def Let_def new_def)
    show ?thesis
      unfolding pp_entry using pp_stopped_stays [OF p(1), of ts es] 1(3) p(2,3)
      by (intro exI [of _ "0 :: nat"] exI [of _ new]) simp
  next
    case True
    have p: "\<not> pp_stopped ?p" "pp_took ?p = i" "pp_sent ?p = pp_sent p @ new" "pp_runs ?p = Suc (pp_runs p)"
      using 1(2) one True by (simp_all add: pp_next_def Let_def new_def)
    have len: "length ts = length es" using 1(3) by simp
    from "1.IH" [OF p(1) len] obtain k extra where k: "k \<le> length es"
      "pp_took (fold (pp_step env q run send) (concat (batch_entries (i + 1) ts es)) ?p) =
         (if k = 0 then i else i + 1 + of_nat k - 1)"
      "pp_sent (fold (pp_step env q run send) (concat (batch_entries (i + 1) ts es)) ?p) = pp_sent p @ new @ extra"
      and th: "\<forall>m < k. through q (run (Suc (pp_runs p) + m) (i + 1 + of_nat m) (feed_for env (o_raw q) (snd (es ! m)))) send
                  (pp_sent p @ new @ extra) (i + 1 + of_nat m)"
      unfolding p(2-4) by (metis append_assoc)
    have first: "through q (run (pp_runs p) i (feed_for env (o_raw q) b)) send (pp_sent p @ new @ extra) i"
      using through_more [OF pipe_one_through [of env q _ send "pp_sent p" i r], of _ extra] one True
      by (simp add: new_def)
    have all: "through q (run (pp_runs p + m) (i + of_nat m) (feed_for env (o_raw q) (snd (((ty, b) # es) ! m)))) send
                  (pp_sent p @ new @ extra) (i + of_nat m)" if "m < Suc k" for m
    proof (cases m)
      case (Suc l)
      then show ?thesis using th that by (simp add: add.assoc)
    qed (use first in simp)
    show ?thesis
      unfolding pp_entry
      by (rule exI [of _ "Suc k"], rule exI [of _ "new @ extra"]) (use k all in \<open>simp add: ac_simps\<close>)
  qed
qed auto


end
