(* ===== verification/Client_Runs.thy ===== *)
theory Client_Runs
  imports Client_Properties Worker_Properties Registration Pipe_Properties Push_Runs
begin

text \<open>
  Concrete runs of the client against the broker: each property of the client applied where its
  hypotheses hold.
\<close>

definition ref_env :: "(rtree, rlog) cli_env" where
  "ref_env = \<lparr>env_lib = ref_lib, env_float = (\<lambda>v. ''0''), env_string_tag = 2, env_array_tag = 9, env_front = (\<lambda>b. [])\<rparr>"

section \<open>Text and options\<close>

theorem render_is_text_witness:
  "bjm_render ref_lib (\<lambda>v. ''0'') (put_evs (val_events (Obj [(''a'', Arr [Scalar (EInt 7), Scalar ENull]), (''b'', Scalar (EStr ''x''))]))) =
     Inr (''{'' @ [CHR 0x22] @ ''a'' @ [CHR 0x22] @ '':[7,null],'' @ [CHR 0x22] @ ''b'' @ [CHR 0x22] @ '':'' @
            [CHR 0x22] @ ''x'' @ [CHR 0x22] @ ''}'')"
proof -
  let ?v = "Obj [(''a'', Arr [Scalar (EInt 7), Scalar ENull]), (''b'', Scalar (EStr ''x''))]"
  have dec: "bj_decode ref_lib (put_evs (val_events ?v)) = Inr (val_events ?v)"
    by (simp add: ref_lib_def get_put_evs)
  have "proper_val ?v" "val_depth ?v \<le> 64" by (simp_all add: is_scalar_def)
  from render_is_text [OF dec this, of "\<lambda>v. ''0''"]
  show ?thesis unfolding \<open>bj_decode ref_lib _ = _\<close>
    by (rule trans) code_simp
qed

definition refused :: transfer where
  "refused = \<lparr>x_rc = CURLE_COULDNT_CONNECT, x_headers = [], x_body = [], x_status = 0\<rparr>"

definition answered :: transfer where
  "answered = \<lparr>x_rc = CURLE_OK, x_headers = [], x_body = [], x_status = 200\<rparr>"

theorem only_harmless_repeats_witness:
  "\<exists>fails. list_all (\<lambda>t. never_arrived (x_rc t)) fails \<and>
     [Tried refused, Tried answered] = map Tried fails @ [Tried answered]"
proof -
  obtain c' out where run: "client_perform_ex False (client_init 1000) [Tried refused, Tried answered] = (c', out)"
    by (rule prod.exhaust)
  from only_harmless_repeats [OF run] obtain fails where
    "list_all (\<lambda>t. never_arrived (x_rc t) \<or> False \<and> broke_midway (x_rc t)) fails"
    "case out of None \<Rightarrow> [Tried refused, Tried answered] = map Tried fails
       | Some (status, rest) \<Rightarrow>
           [Tried refused, Tried answered] = map Tried fails @ Stopped # rest \<and> status = - 1 \<or>
           (\<exists>t. [Tried refused, Tried answered] = map Tried fails @ Tried t # rest \<and>
              (if x_rc t = CURLE_OK then status = x_status t
               else status = - 1 \<and> (c_retry_ms (client_init 1000) \<le> 0 \<or>
                      \<not> never_arrived (x_rc t) \<and> \<not> (False \<and> broke_midway (x_rc t)))))"
    by (elim exE conjE)
  moreover have "map_option fst (snd (client_perform_ex False (client_init 1000) [Tried refused, Tried answered])) = Some 200"
    "snd (the (snd (client_perform_ex False (client_init 1000) [Tried refused, Tried answered]))) = []" by code_simp+
  then have "out = Some (200, [])" using run by auto
  ultimately show ?thesis by (auto simp: Cons_eq_append_conv append_eq_Cons_conv)
qed

section \<open>A subscriber that refuses its second message\<close>

definition sub_found :: "(rtree, rlog) store \<times> (u64 \<times> nat \<times> bytes \<times> u64) option" where
  "sub_found = find_batch ref_lib push_store (p_default_batch plain_pusher) a_psub ''a''"

definition sub_body :: bytes where
  "sub_body = put_evs (batch_events 1 [0, 0] [(1, [7]), (1, [8])])"

lemma sub_found: "snd sub_found = Some (0, 2, sub_body, 2)"
  by code_simp

lemma sub_body: "sub_body \<noteq> []" "bj_decode ref_lib sub_body = Inr (batch_events 1 [0, 0] [(1, [7]), (1, [8])])"
proof -
  show "bj_decode ref_lib sub_body = Inr (batch_events 1 [0, 0] [(1, [7]), (1, [8])])"
    by (simp add: ref_lib_def sub_body_def get_put_evs)
  show "sub_body \<noteq> []" by (simp add: sub_body_def put_evs_def batch_events_def bj_array_def)
qed

definition sub_receiver :: receiver where
  "sub_receiver = \<lparr>rv_token = [], rv_exec = Some (\<lambda>n b. n < 1), rv_messages = 0, rv_deliveries = 0\<rparr>"

definition sub_request :: callback_req where
  "sub_request = \<lparr>cb_auth = None, cb_subject = Some ''a'', cb_body = sub_body\<rparr>"


section \<open>A worker whose command fails on its first job\<close>

definition work_psub :: psub where
  "work_psub =
     psub_zero\<lparr>u_consumer := ''w'', u_cfg := a_sub\<lparr>ps_group := ''g'', ps_max_jobs := 2\<rparr>, u_conn := Some 1\<rparr>"

definition work_taken :: "(rtree, rlog) store \<times> psub \<times> (nat \<times> bytes) option" where
  "work_taken = take_batch ref_lib queue_run1 work_psub ''a''"

definition work_body :: bytes where
  "work_body = put_evs (bj_array (map job_event [(1, 1, 130, 1, [7]), (2, 1, 130, 1, [8])]))"

definition work_s :: psub where
  "work_s = fst (snd (snd (offer_jobs ref_lib queue_run1 plain_pusher work_psub ''a'' 0)))"

definition work_run :: job_command where
  "work_run n i a b \<longleftrightarrow> i = 2"

definition work_answer :: sukkal_res where
  "work_answer = h_job ref_env [] work_run \<lparr>cb_auth = None, cb_subject = Some ''a'', cb_body = work_body\<rparr>"

lemma ref_built: "bj_build ref_lib evs = (None, Some b) \<Longrightarrow> bj_decode ref_lib b = Inr evs"
  by (auto simp: ref_lib_def get_put_evs)

lemma work_taken: "snd (snd work_taken) = Some (2, work_body)" "u_jobs (fst (snd work_taken)) = [1, 2]"
  by code_simp+

lemma work_record:
  "group_rec ref_lib (fst work_taken) ''a'' ''g'' =
     Some \<lparr>q_next = 3, q_lease_ms = 30, q_max_attempts = 1, q_backoff_ms = 1000, q_max_backoff_ms = 300000,
       q_fl = [\<lparr>l_index = 1, l_expires = 130, l_attempts = 1\<rparr>, \<lparr>l_index = 2, l_expires = 130, l_attempts = 1\<rparr>],
       q_dead_total = 0, q_dead = []\<rparr>"
  and work_now: "now_ms (fst work_taken) = 100"
  by code_simp+

lemma work_succeeded: "set (succeeded ref_env work_run n fs) \<subseteq> {2}"
proof -
  have only: "set (succeeded env run n fs) \<subseteq> {2}" if "\<forall>n i a b. run n i a b \<longrightarrow> i = 2"
    for env :: "('a, 'b) cli_env" and run n fs
    using that
  proof (induction env run n fs rule: succeeded.induct)
    case (2 env run n i a x ty p fs)
    then have "run n i a (feed_for env False p) \<Longrightarrow> i = 2" by metis
    moreover have "set (succeeded env run (Suc n) fs) \<subseteq> {2}" using 2 by blast
    ultimately show ?case by (cases "run n i a (feed_for env False p)") simp_all
  qed simp
  show ?thesis by (rule only) (simp add: work_run_def)
qed

theorem worker_end_to_end_witness:
  "\<exists>q' F. group_rec ref_lib
       (fst (finish_jobs ref_lib (fst work_taken) (heard_response work_s work_answer) True (rs_status work_answer) None 100))
       ''a'' ''g'' = Some q' \<and> l_index ` set (q_fl q') = {1, 2} - F \<and> F \<subseteq> {2}"
proof -
  have env: "env_lib ref_env = ref_lib" by (simp add: ref_env_def)
  obtain st' p' s' r where run: "offer_jobs ref_lib queue_run1 plain_pusher work_psub ''a'' 0 = (st', p', s', r)"
    by (rule prod_cases4)
  have taken: "take_batch ref_lib queue_run1 work_psub ''a'' = (fst work_taken, fst (snd work_taken), Some (2, work_body))"
    using work_taken(1) by (simp add: work_taken_def prod_eq_iff)
  have conn: "p_xfer plain_pusher = open_transport" "u_conn work_psub \<noteq> None" by (simp_all add: plain_pusher_def work_psub_def)
  have r: "r = Some True" and body: "u_body s' = work_body" and jobs: "u_jobs s' = [1, 2]"
    using offer_jobs_started [OF run conn taken] work_taken(2) by simp_all
  have s: "work_s = s'" using run by (simp add: work_s_def)
  have g: "ps_group (u_cfg work_psub) = ''g''" by (simp add: work_psub_def)
  obtain st3 s3 again where fin: "finish_jobs ref_lib (fst work_taken) (heard_response s' work_answer) True (rs_status work_answer) None 100 =
      (st3, s3, again)"
    by (rule prod_cases3)
  have dec: "bj_decode ref_lib work_body = Inr (bj_array (map job_event [(1, 1, 130, 1, [7]), (2, 1, 130, 1, [8])]))"
    by (simp add: ref_lib_def work_body_def get_put_evs)
  have exact: "\<forall>evs. bj_build ref_lib evs = (None, Some (u_body s')) \<longrightarrow> exact_evs evs"
  proof (intro allI impI)
    fix evs
    assume "bj_build ref_lib evs = (None, Some (u_body s'))"
    from ref_built [OF this] dec have "evs = bj_array (map job_event [(1, 1, 130, 1, [7]), (2, 1, 130, 1, [8])])"
      by (simp only: body sum.inject)
    then show "exact_evs evs" by (simp add: exact_int_def)
  qed
  have below: "\<forall>j \<in> set (u_jobs s'). unat j < 10 ^ 15" by (simp add: jobs)
  have name: "length ''a'' \<le> BJM_SUBJECT_MAX" by simp
  let ?req = "\<lparr>cb_auth = None, cb_subject = Some ''a'', cb_body = work_body\<rparr>"
  have auth: "authorised [] ?req" by (simp add: authorised_def)
  have req: "cb_body ?req = u_body s'" "u_body s' \<noteq> []"
    by (simp_all add: body) (simp add: work_body_def put_evs_def bj_array_def)
  let ?q = "\<lparr>q_next = 3, q_lease_ms = 30, q_max_attempts = 1, q_backoff_ms = 1000, q_max_backoff_ms = 300000,
       q_fl = [\<lparr>l_index = 1, l_expires = 130, l_attempts = 1\<rparr>, \<lparr>l_index = 2, l_expires = 130, l_attempts = 1\<rparr>],
       q_dead_total = 0, q_dead = []\<rparr>"
  have ok: "queue_inv ?q" "qrec_wf ?q" "q_max_backoff_ms ?q \<noteq> 0" "unat (now_ms (fst work_taken)) + unat (q_max_backoff_ms ?q) \<le> 2 ^ 53"
    by (simp_all add: work_now queue_inv_def qrec_wf_def lease_exact_def exact_int_def BJM_INFLIGHT_MAX_def BJM_DEAD_MAX_def)
  from worker_end_to_end [where env = ref_env, unfolded env, OF ref_lib_laws name run [unfolded r] exact below req auth
      work_answer_def [symmetric] work_record [folded g] ok fin]
  obtain fs q' F where f: "u_jobs s' = map fst fs" "group_rec ref_lib st3 ''a'' (ps_group (u_cfg work_psub)) = Some q'"
      "l_index ` set (q_fl q') = l_index ` set (q_fl ?q) - F" "F \<subseteq> set (succeeded ref_env work_run 0 fs)"
    by (elim exE conjE)
  have "F \<subseteq> {2}" using f(4) work_succeeded by (rule order_trans)
  then show ?thesis
    using f(2,3) by (intro exI [of _ q'] exI [of _ F]) (simp add: s g fin)
qed

section \<open>A registration\<close>

theorem registration_roundtrip_witness:
  "\<exists>url q. push_register_at (\<lambda>s. Some (url_encode s)) ''http://b'' ''a.*'' ''c'' None ''http://h/?x=1&y'' ''t'' 0 0 False 7 =
       Some (Some url) \<and> url = ''http://b/push/a.*?'' @ q"
proof -
  let ?url = "''http://b/push/a.*?consumer=c&callback=http%3A%2F%2Fh%2F%3Fx%3D1%26y&token=t&from=7''"
  have put: "push_register_at (\<lambda>s. Some (url_encode s)) ''http://b'' ''a.*'' ''c'' None ''http://h/?x=1&y'' ''t'' 0 0 False 7 =
      Some (Some ?url)" by code_simp
  have fits: "length ?url < 2047" by simp
  have "if bjm_pattern_is ''a.*'' then bjm_pattern_valid ''a.*'' else bjm_subject_valid ''a.*''"
      "bjm_consumer_valid ''c''" "bjm_callback_valid ''http://h/?x=1&y''" "bjm_token_valid ''t''" "harmless ''t''"
    by code_simp+
  from registration_roundtrip [OF put fits this(1,2) _ this(3-5)] put show ?thesis by auto
qed

section \<open>A pipeline stage\<close>

theorem pipe_ids_apart_witness:
  "pipe_id ''c'' ''a'' 1 \<noteq> pipe_id ''c'' ''a'' 2 \<and>
   pipe_id (replicate 64 (CHR ''c'')) (replicate 64 (CHR ''a'')) 1 = pipe_id (replicate 64 (CHR ''c'')) (replicate 64 (CHR ''a'')) 2"
proof -
  have "length ''c'' + length ''a'' + 2 + max (length (dec_signed (sint (1 :: u64)))) (length (dec_signed (sint (2 :: u64)))) \<le> BJM_DEDUP_ID_MAX"
    by code_simp
  moreover have "BJM_DEDUP_ID_MAX \<le> length (replicate 64 (CHR ''c'')) + length (replicate 64 (CHR ''a'')) + 2" by simp
  moreover have "(1 :: u64) \<noteq> 2" by simp
  ultimately show ?thesis
    using pipe_ids_apart [of "''c''" "''a''" 1 2]
      pipe_ids_apart [of "replicate 64 (CHR ''c'')" "replicate 64 (CHR ''a'')" 1 2] by blast
qed

definition stage :: query_opts where
  "stage = query_opts_zero\<lparr>o_subject := Some ''a'', o_consumer := Some ''c'', o_to := Some ''b''\<rparr>"

text \<open>The filter fails on its second message.\<close>

definition stage_filter :: "nat \<Rightarrow> u64 \<Rightarrow> bytes \<Rightarrow> int \<times> bytes" where
  "stage_filter n i b = (if n = 0 then (0, [65, 10]) else (1, []))"


end
