(* ===== verification/Loop_Runs.thy ===== *)
theory Loop_Runs
  imports Loop_Properties Request_Reply Client_Runs
begin

text \<open>
  Concrete runs of the client's loops: each property of theories Loop_Properties and Request_Reply
  applied where its hypotheses hold.
\<close>

section \<open>Waiting and leaving\<close>

theorem request_waits_bounded_witness:
  "await_reply ref_env ''t'' ''x'' 120 0 (replicate 9 \<lparr>aw_ok = True, aw_deliveries = []\<rparr>) = []"
proof -
  have le: "unat (120 :: u64) \<le> 2 ^ 64 - 50" by simp
  show ?thesis
    unfolding request_waits_bounded [OF le]
    by (auto simp: find_Some_iff take_in_def dest!: nth_mem in_set_takeD split: option.split)
qed

definition serving :: receiver_spec where
  "serving =
     \<lparr>sp_url_base = ''http://h'', sp_pattern = ''a'', sp_consumer = ''c'', sp_group = None,
      sp_bind_addr = None, sp_callback = None, sp_token = ''t'', sp_path = ''/d'', sp_batch = 0,
      sp_max_jobs = 0, sp_from = 0, sp_retry_ms = 0, sp_heartbeat_ms = 2000, sp_port = 0,
      sp_tail = False, sp_keep = False, sp_ephemeral = False\<rparr>"

definition ok_turn :: turn where
  "ok_turn = Tried \<lparr>x_rc = CURLE_OK, x_headers = [], x_body = [], x_status = 200\<rparr>"

definition quiet_world :: receiver_world where
  "quiet_world =
     \<lparr>rw_turns = [ok_turn, ok_turn], rw_ip = Some ''::1'', rw_listen = (\<lambda>addr port. Some 4000), rw_stopped = False,
      rw_beats = replicate 3 \<lparr>bt_ok = True, bt_turns = [ok_turn]\<rparr>, rw_last = [ok_turn]\<rparr>"

theorem receiver_unregisters_witness:
  "\<exists>sent. receiver_run Some serving quiet_world = (sent, Some 0) \<and> length sent = 4 \<and>
     last sent = (''DELETE'', Some (push_unregister ''http://h'' ''c'' False), [])"
proof -
  obtain sent r where run: "receiver_run Some serving quiet_world = (sent, r)"
    by (cases "receiver_run Some serving quiet_world")
  have "snd (receiver_run Some serving quiet_world) = Some 0" "length (fst (receiver_run Some serving quiet_world)) = 4"
    by code_simp+
  with run have r: "r = Some 0" and four: "length sent = 4" by simp_all
  have facts: "\<not> rw_stopped quiet_world" "\<not> sp_keep serving" "sp_url_base serving = ''http://h''"
    "sp_consumer serving = ''c''" "\<not> sp_ephemeral serving"
    by (simp_all add: quiet_world_def serving_def)
  from receiver_unregisters [OF run [unfolded r]] facts
  have "\<exists>xs. sent = xs @ [(''DELETE'', Some (push_unregister ''http://h'' ''c'' False), [])]" by auto
  then show ?thesis using run r four by auto
qed

section \<open>A request and its reply\<close>

text \<open>The reference library with the documented form of a pair: a tag, two counts, and the two values.\<close>

definition cut_put :: "ev list \<Rightarrow> bytes" where
  "cut_put evs =
     (if 3 \<le> length evs \<and> hd evs = EArr 2 \<and> last evs = EArrEnd
      then [9, 0, 0, 0, 0, 0, 0, 0, 0] @ put_seq (put_evs (butlast (butlast (tl evs)))) @ put_seq (put_evs [last (butlast evs)])
      else put_seq (put_evs evs))"

definition cut_value :: "bytes \<Rightarrow> ev list res" where
  "cut_value b = (case get_evs (length b) b of None \<Rightarrow> Inl BJ_ERR_VERIFY | Some evs \<Rightarrow> Inr evs)"

definition cut_decode :: "bytes \<Rightarrow> ev list res" where
  "cut_decode b =
     (if b \<noteq> [] \<and> hd b = 9
      then (case get_seq (drop 9 b) of
              None \<Rightarrow> Inl BJ_ERR_VERIFY
            | Some (p, r) \<Rightarrow>
                (case get_seq r of
                   None \<Rightarrow> Inl BJ_ERR_VERIFY
                 | Some (q, _) \<Rightarrow>
                     (case (cut_value p, cut_value q) of
                        (Inr x, Inr y) \<Rightarrow> Inr (EArr 2 # x @ y @ [EArrEnd])
                      | _ \<Rightarrow> Inl BJ_ERR_VERIFY)))
      else (case get_seq b of None \<Rightarrow> Inl BJ_ERR_VERIFY | Some (p, _) \<Rightarrow> cut_value p))"

definition cut_size :: "bytes \<Rightarrow> nat res" where
  "cut_size b = (case get_seq b of None \<Rightarrow> Inl BJ_ERR_VERIFY | Some (p, r) \<Rightarrow> Inr (length b - length r))"

definition cut_env :: "(rtree, rlog) cli_env" where
  "cut_env = ref_env\<lparr>env_lib := ref_lib\<lparr>bj_build := \<lambda>evs. (None, Some (cut_put evs)),
     bj_decode := cut_decode, bj_value_size := cut_size\<rparr>\<rparr>"

lemma cut_value_put [simp]: "cut_value (put_evs evs) = Inr evs"
  by (simp add: cut_value_def get_put_evs)

lemma get_put_seq_end [simp]: "get_seq (put_seq bs) = Some (bs, [])"
  using get_put_seq [of bs "[]"] by simp

lemma put_seq_start: "put_seq bs \<noteq> []" "hd (put_seq bs) \<noteq> 9"
  by (cases bs; simp)+

lemma cut_seq [simp]: "cut_decode (put_seq (put_evs evs)) = Inr evs"
  using put_seq_start by (simp add: cut_decode_def)

lemma cut_round: "cut_decode (cut_put evs) = Inr evs"
proof (cases "3 \<le> length evs \<and> hd evs = EArr 2 \<and> last evs = EArrEnd")
  case True
  then obtain e1 xs where evs: "evs = e1 # xs" and xs: "2 \<le> length xs" by (cases evs) auto
  from xs obtain ys e3 where ys: "xs = ys @ [e3]" by (cases xs rule: rev_cases) auto
  with xs obtain mid e2 where mid: "ys = mid @ [e2]" by (cases ys rule: rev_cases) auto
  have r: "xs = mid @ [e2, e3]" using ys mid by simp
  from True show ?thesis
    by (simp add: cut_put_def cut_decode_def evs r get_put_seq butlast_append)
next
  case False
  then show ?thesis unfolding cut_put_def by (simp only: if_False cut_seq)
qed

lemma cut_laws: "bj_laws (env_lib cut_env)"
  by (simp add: bj_laws_def cut_env_def cut_round)

lemma split_parts:
  assumes p: "length p = 9" "p ! 0 = tag" and x: "bj_value_size L (x @ y) = Inr (length x)"
    and y: "bj_value_size L y = Inr (length y)" "y \<noteq> []"
  shows "bjm_envelope_split L tag (p @ x @ y) = Some (x, y)"
proof -
  have "drop 9 (p @ x @ y) = x @ y" "drop (9 + length x) (p @ x @ y) = y" "(p @ x @ y) ! 0 = tag"
    using p by (simp_all add: nth_append)
  with assms show ?thesis by (simp add: bjm_envelope_split_def Let_def)
qed

lemma cut_envelope: "envelope_law cut_env"
  unfolding envelope_law_def
proof (intro allI impI)
  fix hs s b e
  assume "bj_build (env_lib cut_env) (bj_array [bj_object hs, [EStr s]]) = (e, Some b)"
  then have b: "b = [9, 0, 0, 0, 0, 0, 0, 0, 0] @ put_seq (put_evs (bj_object hs)) @ put_seq (put_evs [EStr s])"
    by (simp add: cut_env_def cut_put_def bj_array_def butlast_append)
  have "bjm_envelope_split (env_lib cut_env) (env_array_tag cut_env) b =
      Some (put_seq (put_evs (bj_object hs)), put_seq (put_evs [EStr s]))"
    unfolding b
    by (rule split_parts) (simp_all add: cut_env_def ref_env_def cut_size_def get_put_seq put_seq_start)
  then show "\<exists>h m. bjm_envelope_split (env_lib cut_env) (env_array_tag cut_env) b = Some (h, m) \<and>
      bj_decode (env_lib cut_env) h = Inr (bj_object hs) \<and> bj_decode (env_lib cut_env) m = Inr [EStr s]"
    by (simp add: cut_env_def)
qed

definition the_request :: bytes where
  "the_request = cut_put (request_events ''_reply'' ''c1'' ''6*7'')"

definition the_job :: callback_req where
  "the_job = \<lparr>cb_auth = None, cb_subject = None,
     cb_body = cut_put (bj_array [job_event (1, 1, 0, word_of_int BJM_ENTRY_ENVELOPE, the_request)])\<rparr>"

definition the_reply :: "sukkal_res \<times> (string \<times> bytes) option" where
  "the_reply = h_reply cut_env [] ''http://h'' (\<lambda>b. (0, [52, 50, 10])) (\<lambda>r. 200) the_job"


end
