(* ===== verification/Host.thy ===== *)
theory Host
  imports Handlers Client_Requests
begin

text \<open>
  The native host: the files behind the store (\<open>src/src/store_posix.c\<close>), libcurl behind the delivery
  engine (\<open>src/src/push_posix.c\<close>), the server and its main loop (\<open>src/src/server_posix.c\<close>), and the
  program's subcommands (\<open>src/src/main.c\<close>). What the system and the libraries do is an argument or an
  event: the clock, the directory, what libcurl reports, the requests that arrive.
\<close>

section \<open>The store over a directory\<close>

text \<open>\<open>rename\<close> is whether \<open>renameat\<close> succeeds.\<close>

definition posix_adopt :: "(string \<Rightarrow> string \<Rightarrow> bool) \<Rightarrow> string \<Rightarrow> string \<Rightarrow> bool" where
  "posix_adopt rename from_name to_name \<longleftrightarrow>
     length from_name < BJM_SUBJECT_MAX + 32 \<and> length to_name < BJM_SUBJECT_MAX + 32 \<and> rename from_name to_name"

text \<open>The entries of the directory, or \<open>None\<close> when it cannot be opened.\<close>

definition bjm_dir_listing :: "string list option \<Rightarrow> string res" where
  "bjm_dir_listing entries =
     (case entries of
        None \<Rightarrow> Inl BJ_ERR_STATE
      | Some es \<Rightarrow> Inr (concat (map (\<lambda>e. e @ [CHR 0x00]) es)))"

definition posix_listing :: "string list option \<Rightarrow> string res" where
  "posix_listing entries = bjm_dir_listing entries"

text \<open>The directory is there or can be made, and opens as a namespace; else there is no store.\<close>

definition bjm_store_open ::
    "bool \<Rightarrow> (string \<Rightarrow> 'l ns_file) \<Rightarrow> (string \<Rightarrow> 't ns_file) \<Rightarrow> u64 \<Rightarrow> string list option \<Rightarrow> (string \<Rightarrow> string \<Rightarrow> bool)
      \<Rightarrow> ('t, 'l) store option" where
  "bjm_store_open dir_opens logs trees clock entries rename =
     (if \<not> dir_opens then None
      else
        Some (bjm_store_set_adopt
               (bjm_store_set_listing
                 (bjm_store_set_clock (bjm_store_open_ns logs trees) (Some clock))
                 (Some (posix_listing entries)))
               (Some (posix_adopt rename))))"

section \<open>Deliveries over libcurl\<close>

text \<open>
  \<open>easy\<close> is the handle a new connection gets, \<open>add\<close> whether the multi handle takes a transfer. A
  subscription without a connection cannot be sent to.
\<close>

definition t_send :: "(string \<Rightarrow> string list \<Rightarrow> bytes \<Rightarrow> bool) \<Rightarrow> nat option \<Rightarrow> string \<Rightarrow> string list \<Rightarrow> bytes \<Rightarrow> bool" where
  "t_send add conn url hdrs body = (case conn of None \<Rightarrow> False | Some _ \<Rightarrow> add url hdrs body)"

definition curl_transport :: "nat option \<Rightarrow> (string \<Rightarrow> string list \<Rightarrow> bytes \<Rightarrow> bool) \<Rightarrow> transport" where
  "curl_transport easy add = \<lparr>x_open = easy, x_close = True, x_send = Some (t_send add)\<rparr>"

definition bjm_push_curl_new ::
    "bool \<Rightarrow> nat option \<Rightarrow> (string \<Rightarrow> string list \<Rightarrow> bytes \<Rightarrow> bool) \<Rightarrow> pusher \<Rightarrow> pusher option" where
  "bjm_push_curl_new multi easy add p =
     (if \<not> multi then None else Some (bjm_pusher_set_transport p (curl_transport easy add)))"

text \<open>What libcurl calls back with, and what it reports as done, for the subscription of a connection.\<close>

datatype curl_event =
    Curl_header nat string
  | Curl_body nat string
  | Curl_done nat curl_code int string

fun curl_step ::
    "('t, 'l) lib \<Rightarrow> u64 \<Rightarrow> curl_event \<Rightarrow> ('t, 'l) store \<times> pusher \<Rightarrow> ('t, 'l) store \<times> pusher" where
  "curl_step L now (Curl_header sub line) (st, p) = (st, bjm_pusher_on_header p sub line)"
| "curl_step L now (Curl_body sub d) (st, p) = (st, bjm_pusher_on_body p sub d)"
| "curl_step L now (Curl_done sub rc status err) (st, p) =
     bjm_pusher_delivered L st p sub (rc = CURLE_OK) (if rc = CURLE_OK then status else 0)
       (if rc = CURLE_OK then None else Some err) now"

section \<open>Requests from sockets\<close>

text \<open>
  A request as http11c has parsed it: the content type as it fits a buffer, if there is one, and a
  query parameter as it fits one.
\<close>

record http_request =
  hr_method :: string
  hr_path :: string
  hr_body :: bytes
  hr_content_type :: "nat \<Rightarrow> string option"
  hr_query_get :: "string \<Rightarrow> nat \<Rightarrow> query_answer"

definition request_of :: "http_request \<Rightarrow> sukkal_req" where
  "request_of req =
     \<lparr>rq_method = hr_method req, rq_path = hr_path req, rq_body = hr_body req,
      rq_content_type = hr_content_type req 64, rq_query = hr_query_get req\<rparr>"

definition on_request ::
    "('t, 'l) lib \<Rightarrow> http_request \<Rightarrow> ('t, 'l) sukkal_app \<Rightarrow> ('t, 'l) sukkal_app \<times> sukkal_res" where
  "on_request L req a = sukkal_dispatch L a (request_of req)"

section \<open>The main loop\<close>

text \<open>
  What happens to the broker, one thing at a time. \<open>Sense\<close> is what the clock and the directory answer
  from then on.
\<close>

datatype broker_event =
    Sense u64 "string list option"
  | Pump u64
  | Curl u64 curl_event
  | Call http_request
  | Sweep u64

fun serve_event ::
    "('t, 'l) lib \<Rightarrow> broker_event \<Rightarrow> ('t, 'l) sukkal_app \<times> sukkal_res list \<Rightarrow> ('t, 'l) sukkal_app \<times> sukkal_res list" where
  "serve_event L (Sense clock entries) (a, rs) =
     (a\<lparr>a_store := bjm_store_set_listing (bjm_store_set_clock (a_store a) (Some clock)) (Some (posix_listing entries))\<rparr>,
      rs)"
| "serve_event L (Pump tick) (a, rs) =
     (case bjm_pusher_pump L (a_store a) (a_push a) tick of
        (st, p, _) \<Rightarrow> (a\<lparr>a_store := st, a_push := p\<rparr>, rs))"
| "serve_event L (Curl tick e) (a, rs) =
     (case curl_step L tick e (a_store a, a_push a) of (st, p) \<Rightarrow> (a\<lparr>a_store := st, a_push := p\<rparr>, rs))"
| "serve_event L (Call req) (a, rs) = (case on_request L req a of (a, r) \<Rightarrow> (a, rs @ [r]))"
| "serve_event L (Sweep now) (a, rs) = (fst (on_store a (bjm_retention_run L (a_store a) now)), rs)"

definition serve_run ::
    "('t, 'l) lib \<Rightarrow> broker_event list \<Rightarrow> ('t, 'l) sukkal_app \<times> sukkal_res list \<Rightarrow> ('t, 'l) sukkal_app \<times> sukkal_res list" where
  "serve_run L evs x = fold (serve_event L) evs x"

text \<open>
  One turn: the pump, the transfers, one poll of the sockets with the requests it handles, and every
  ten seconds a retention pass. A poll that fails ends the loop.
\<close>

definition RETENTION_SWEEP_SECS :: int where "RETENTION_SWEEP_SECS = 10"

record serve_turn =
  tn_clock :: u64
  tn_entries :: "string list option"
  tn_tick :: u64
  tn_curl :: "curl_event list"
  tn_calls :: "(u64 \<times> string list option \<times> http_request) list"
  tn_poll_ok :: bool
  tn_now :: int

definition sweep_due :: "int \<Rightarrow> serve_turn \<Rightarrow> bool" where
  "sweep_due last_sweep t \<longleftrightarrow> tn_poll_ok t \<and> \<not> tn_now t - last_sweep < RETENTION_SWEEP_SECS"

definition turn_events :: "int \<Rightarrow> serve_turn \<Rightarrow> broker_event list" where
  "turn_events last_sweep t =
     Sense (tn_clock t) (tn_entries t) # Pump (tn_tick t) # map (Curl (tn_tick t)) (tn_curl t) @
     concat (map (\<lambda>(clock, entries, req). [Sense clock entries, Call req]) (tn_calls t)) @
     (if sweep_due last_sweep t then [Sweep (word_of_int (tn_now t))] else [])"

fun serve_loop ::
    "('t, 'l) lib \<Rightarrow> int \<Rightarrow> serve_turn list \<Rightarrow> ('t, 'l) sukkal_app \<times> sukkal_res list
      \<Rightarrow> ('t, 'l) sukkal_app \<times> sukkal_res list \<times> int" where
  "serve_loop L last_sweep [] (a, rs) = (a, rs, 0)"
| "serve_loop L last_sweep (t # ts) (a, rs) =
     (case serve_run L (turn_events last_sweep t) (a, rs) of
        (a, rs) \<Rightarrow>
          if \<not> tn_poll_ok t then (a, rs, 1)
          else serve_loop L (if sweep_due last_sweep t then tn_now t else last_sweep) ts (a, rs))"

text \<open>
  The broker as it starts: the engine loads the registrations, then gets its transport, then hears of
  publishes. \<open>None\<close> when a part cannot be set up.
\<close>

definition serve_start ::
    "('t, 'l) lib \<Rightarrow> ('t, 'l) store option \<Rightarrow> u64 \<Rightarrow> u64 \<Rightarrow> bool \<times> nat option \<times> (string \<Rightarrow> string list \<Rightarrow> bytes \<Rightarrow> bool)
      \<Rightarrow> string option \<Rightarrow> int option \<Rightarrow> ('t, 'l) sukkal_app option" where
  "serve_start L opened dedup_window_ms started_s curl backend conns =
     (case opened of
        None \<Rightarrow> None
      | Some st \<Rightarrow>
          let st = (if dedup_window_ms \<noteq> 0 then bjm_dedup_set_window st dedup_window_ms else st) in
          (case bjm_pusher_new L st SUKKAL_DEFAULT_BATCH of
             (st, None) \<Rightarrow> None
           | (st, Some p) \<Rightarrow>
               (case curl of
                  (multi, easy, add) \<Rightarrow>
                    (case bjm_push_curl_new multi easy add p of
                       None \<Rightarrow> None
                     | Some p \<Rightarrow>
                         Some \<lparr>a_store = bjm_store_on_publish st True, a_push = p, a_started_s = started_s,
                               a_backend = backend, a_conns = conns\<rparr>))))"

text \<open>The whole program: the exit code, the answers it gave, and the broker when it has stopped.\<close>

definition bjm_serve ::
    "('t, 'l) lib \<Rightarrow> ('t, 'l) store option \<Rightarrow> u64 \<Rightarrow> u64 \<Rightarrow> bool \<times> nat option \<times> (string \<Rightarrow> string list \<Rightarrow> bytes \<Rightarrow> bool)
      \<Rightarrow> string option \<Rightarrow> int option \<Rightarrow> bool \<Rightarrow> int \<Rightarrow> serve_turn list
      \<Rightarrow> int \<times> sukkal_res list \<times> ('t, 'l) sukkal_app option" where
  "bjm_serve L opened dedup_window_ms started_s curl backend conns listens t0 turns =
     (case serve_start L opened dedup_window_ms started_s curl backend conns of
        None \<Rightarrow> (1, [], None)
      | Some a \<Rightarrow>
          (case (if listens then serve_loop L t0 turns (a, []) else (a, [], 1)) of
             (a, rs, rc) \<Rightarrow>
               (rc, rs, Some (a\<lparr>a_store := bjm_store_on_publish (a_store a) False,
                                a_push := bjm_pusher_free (a_push a)\<rparr>))))"

section \<open>The subcommands\<close>

definition DEFAULT_HOST :: string where "DEFAULT_HOST = ''127.0.0.1''"
definition DEFAULT_PORT :: int where "DEFAULT_PORT = 8080"
definition DEFAULT_DIR :: string where "DEFAULT_DIR = ''./sukkal-data''"

record serve_opts =
  sv_host :: string
  sv_port :: int
  sv_dir :: string
  sv_window_s :: int

definition serve_value :: "string \<Rightarrow> (string \<Rightarrow> serve_opts \<Rightarrow> serve_opts) option" where
  "serve_value a =
     (if a = ''--host'' then Some (\<lambda>v q. q\<lparr>sv_host := v\<rparr>)
      else if a = ''--port'' then Some (\<lambda>v q. q\<lparr>sv_port := atoi v\<rparr>)
      else if a = ''--dir'' then Some (\<lambda>v q. q\<lparr>sv_dir := v\<rparr>)
      else if a = ''--dedup-window'' then Some (\<lambda>v q. q\<lparr>sv_window_s := strtol v\<rparr>)
      else None)"

fun serve_args :: "string list \<Rightarrow> serve_opts \<Rightarrow> int + serve_opts" where
  "serve_args [] q = Inr q"
| "serve_args (a # argv) q =
     (case (serve_value a, argv) of
        (Some set_value, v # argv') \<Rightarrow> serve_args argv' (set_value v q)
      | _ \<Rightarrow> if a = ''-h'' \<or> a = ''--help'' then Inl 0 else Inl 2)"

text \<open>The exit code, or what \<open>bjm_serve\<close> is called with: host, port, directory and window.\<close>

definition cmd_serve :: "string list \<Rightarrow> int + string \<times> int \<times> string \<times> u64" where
  "cmd_serve argv =
     (case serve_args argv
             \<lparr>sv_host = DEFAULT_HOST, sv_port = DEFAULT_PORT, sv_dir = DEFAULT_DIR, sv_window_s = 0\<rparr> of
        Inl rc \<Rightarrow> Inl rc
      | Inr q \<Rightarrow> Inr (sv_host q, sv_port q, sv_dir q, word_of_int (sv_window_s q) * 1000))"

definition CLIENTS :: "string list" where
  "CLIENTS =
     [''pub'', ''sub'', ''push'', ''health'', ''subjects'', ''info'', ''consumers'', ''unsubscribe'', ''trim'',
      ''seek'', ''policy'', ''queue'', ''take'', ''done'', ''fail'', ''work'', ''dead'', ''requeue'', ''pipe'',
      ''request'', ''reply'']"

text \<open>The exit code, or the subcommand that is run and its arguments.\<close>

definition main :: "bool \<Rightarrow> string list \<Rightarrow> int + string \<times> string list" where
  "main curl_starts argv =
     (case argv of
        [] \<Rightarrow> Inl 2
      | [_] \<Rightarrow> Inl 2
      | _ # cmd # rest_argv \<Rightarrow>
          if cmd = ''-h'' \<or> cmd = ''--help'' \<or> cmd = ''help'' then Inl 0
          else if \<not> curl_starts then Inl 1
          else if cmd = ''serve'' \<or> cmd \<in> set CLIENTS then Inr (cmd, rest_argv)
          else Inl 2)"

end
