(* ===== verification/History.thy ===== *)
theory History
  imports Server_Store Push_Properties
begin

text \<open>
  What no part of the broker does to a log or a receipt: the operations of the store and of the
  delivery engine, and the requests, as steps of a relation between the stores before and after.
\<close>

section \<open>Runs\<close>

text \<open>
  The relations below relate a state to itself and to what several steps make of it. What one step
  keeps, under a condition on the step and the state it meets, a run keeps.
\<close>

fun all_along :: "('e \<Rightarrow> 's \<Rightarrow> bool) \<Rightarrow> ('e \<Rightarrow> 's \<Rightarrow> 's) \<Rightarrow> 'e list \<Rightarrow> 's \<Rightarrow> bool" where
  "all_along ok f [] x \<longleftrightarrow> True"
| "all_along ok f (e # es) x \<longleftrightarrow> ok e x \<and> all_along ok f es (f e x)"

lemma all_along_true: "(\<And>e x. ok e x) \<Longrightarrow> all_along ok f es x"
  by (induction es arbitrary: x) simp_all

locale history =
  fixes rel :: "'a \<Rightarrow> 'a \<Rightarrow> bool"
  assumes rel_refl: "rel x x" and rel_trans: "rel x y \<Longrightarrow> rel y z \<Longrightarrow> rel x z"
begin

lemma run:
  assumes "\<And>e x. ok e x \<Longrightarrow> rel (g x) (g (f e x))"
  shows "all_along ok f es x \<Longrightarrow> rel (g x) (g (fold f es x))"
proof (induction es arbitrary: x)
  case (Cons e es)
  then show ?case using rel_trans [OF assms [of e x] Cons.IH [of "f e x"]] by simp
qed (simp add: rel_refl)

lemma run_free: "(\<And>e x. rel (g x) (g (f e x))) \<Longrightarrow> rel (g x) (g (fold f es x))"
  using run [of "\<lambda>_ _. True" g f es x] all_along_true [of "\<lambda>_ _. True" f es x] by simp

end

text \<open>An invariant is such a relation.\<close>

interpretation invariants: history "\<lambda>x y. inv x \<longrightarrow> inv y" for inv :: "'a \<Rightarrow> bool"
  by unfold_locales auto

section \<open>Appending\<close>

text \<open>
  Every log keeps its base and gets messages at its end at most, and the receipts that \<open>P\<close> picks
  out stay and never move back.
\<close>

definition appends ::
    "('t, 'l) lib \<Rightarrow> (string \<Rightarrow> string \<Rightarrow> bool) \<Rightarrow> ('t, 'l) store \<Rightarrow> ('t, 'l) store \<Rightarrow> bool" where
  "appends L P st st' \<longleftrightarrow>
     (\<forall>n. base_of L st' n = base_of L st n \<and> (\<exists>extra. msgs L st' n = msgs L st n @ extra)) \<and>
     (\<forall>n c j. P n c \<longrightarrow> receipt L st n c = Some j \<longrightarrow> (\<exists>j'. receipt L st' n c = Some j' \<and> j \<le> j'))"

text \<open>An index that can be recorded, as far as anyone looks at it.\<close>

definition safe_index :: "(string \<Rightarrow> string \<Rightarrow> bool) \<Rightarrow> u64 \<Rightarrow> bool" where
  "safe_index P i \<longleftrightarrow> exact_int i \<or> (\<forall>n c. \<not> P n c)"

lemma appends_refl [simp]: "appends L P st st"
  by (simp add: appends_def)

lemma appends_trans:
  assumes ab: "appends L P a b" and bc: "appends L P b c"
  shows "appends L P a c"
  unfolding appends_def
proof (intro conjI allI impI)
  fix n
  show "base_of L c n = base_of L a n" using ab bc by (simp add: appends_def)
  obtain x y where "msgs L b n = msgs L a n @ x" "msgs L c n = msgs L b n @ y"
    using ab bc unfolding appends_def by meson
  then show "\<exists>extra. msgs L c n = msgs L a n @ extra" by simp
next
  fix n d j assume "P n d" "receipt L a n d = Some j"
  moreover obtain j1 where "receipt L b n d = Some j1" "j \<le> j1"
    using ab calculation unfolding appends_def by meson
  moreover obtain j2 where "receipt L c n d = Some j2" "j1 \<le> j2"
    using bc calculation unfolding appends_def by meson
  ultimately show "\<exists>j'. receipt L c n d = Some j' \<and> j \<le> j'" by (meson order_trans)
qed

interpretation appends_history: history "appends L P" for L :: "('t, 'l) lib" and P
  by unfold_locales (rule appends_refl, rule appends_trans)

lemma appends_same:
  assumes "\<And>n. base_of L st' n = base_of L st n" and "\<And>n. msgs L st' n = msgs L st n"
    and "receipt L st' = receipt L st"
  shows "appends L P st st'"
  using assms by (simp add: appends_def)

lemma appends_cong:
  assumes "st_subs st2 = st_subs st1" and "st_files st2 = st_files st1"
    and "slot_view L (st_cursors st2) = slot_view L (st_cursors st1)"
  shows "appends L P st st2 = appends L P st st1"
  using view_cong [OF assms(1,2)] receipt_cong [OF assms(3)] by (simp add: appends_def)

lemma appends_fields [simp]:
  "appends L P st (st1\<lparr>st_queues := x1\<rparr>) = appends L P st st1"
  "appends L P st (st1\<lparr>st_push := x2\<rparr>) = appends L P st st1"
  "appends L P st (st1\<lparr>st_policy := x3\<rparr>) = appends L P st st1"
  "appends L P st (st1\<lparr>st_clock := x4\<rparr>) = appends L P st st1"
  "appends L P st (st1\<lparr>st_listing := x5\<rparr>) = appends L P st st1"
  by (rule appends_cong; simp)+

lemma appends_same_data: "same_data L st st' \<Longrightarrow> appends L P st st'"
  by (intro appends_same receipt_cong) (simp_all add: same_data_def)

text \<open>Changes of the receipts alone.\<close>

lemma appends_cursors:
  assumes "\<And>n c j. P n c \<Longrightarrow> receipt L st n c = Some j \<Longrightarrow>
      \<exists>j'. receipt L (st\<lparr>st_cursors := x\<rparr>) n c = Some j' \<and> j \<le> j'"
  shows "appends L P st (st\<lparr>st_cursors := x\<rparr>)"
  unfolding appends_def
  using assms view_cong [of "st\<lparr>st_cursors := x\<rparr>" st L] by simp

lemma appends_elsewhere:
  assumes "\<And>n c. P n c \<Longrightarrow> slot_view L x (n @ ''/'' @ c) = slot_view L (st_cursors st) (n @ ''/'' @ c)"
  shows "appends L P st (st\<lparr>st_cursors := x\<rparr>)"
  using assms by (intro appends_cursors) (simp add: receipt_def)

section \<open>Operations of the store\<close>

lemma appends_get: "elog_laws L \<Longrightarrow> subject_get L st n c = (st', r) \<Longrightarrow> appends L P st st'"
proof -
  assume laws: "elog_laws L" and get: "subject_get L st n c = (st', r)"
  obtain x y where "st' = st\<lparr>st_subs := x, st_files := y\<rparr>" using subject_get_frame [OF get] by blast
  then have "receipt L st' = receipt L st" by (intro receipt_cong) simp
  with subject_get_log [OF laws get] show "appends L P st st'" by (rule appends_same)
qed

lemma appends_opens:
  assumes "bpt_laws L"
  shows "cursors_open L st = (st', r1) \<Longrightarrow> appends L P st st'"
    and "policy_open L st = (st', r2) \<Longrightarrow> appends L P st st'"
    and "queues_open L st = (st', r3) \<Longrightarrow> appends L P st st'"
    and "push_open L st = (st', r4) \<Longrightarrow> appends L P st st'"
  using same_opens [OF assms, THEN appends_same_data]
  by (auto simp: push_open_def split: prod.splits)

lemma appends_queries:
  assumes "bpt_laws L" "elog_laws L"
  shows "bjm_read L st n f m = (st', r1) \<Longrightarrow> appends L P st st'"
    and "bjm_last_index L st n = (st', r2) \<Longrightarrow> appends L P st st'"
    and "bjm_subject_info L st n = (st', r3) \<Longrightarrow> appends L P st st'"
    and "bjm_consumers L st n = (st', r4) \<Longrightarrow> appends L P st st'"
    and "consumer_count L st n = (st', r5) \<Longrightarrow> appends L P st st'"
    and "bjm_queues L st n = (st', r6) \<Longrightarrow> appends L P st st'"
    and "bjm_policy_get L st n = (st', r7) \<Longrightarrow> appends L P st st'"
    and "bjm_policy_list L st = (st', r8) \<Longrightarrow> appends L P st st'"
    and "bjm_cursor_get L st n c = (st', r9) \<Longrightarrow> appends L P st st'"
  by (rule appends_same_data,
      erule same_reads [OF assms(2)] same_listings [OF assms] same_cursor_get [OF assms(1)])+

lemma appends_cursor_set:
  assumes laws: "bj_laws L" "bpt_laws L" and ex: "safe_index P i"
    and set: "bjm_cursor_set L st s c i = (st', r)"
  shows "appends L P st st'"
proof -
  obtain x where st': "st' = st\<lparr>st_cursors := x\<rparr>" using cursor_set_frame [OF laws(2) set] by blast
  show ?thesis
    unfolding st'
  proof (rule appends_cursors)
    fix n d j assume "P n d" and j: "receipt L st n d = Some j"
    then have "exact_int i" using ex by (auto simp: safe_index_def)
    from cursor_set_tree [OF laws this set] j
    show "\<exists>j'. receipt L (st\<lparr>st_cursors := x\<rparr>) n d = Some j' \<and> j \<le> j'"
      by (cases "n @ ''/'' @ d = s @ ''/'' @ c") (auto simp: st' receipt_def)
  qed
qed

lemma cursor_set_logs:
  assumes "bpt_laws L" and "bjm_cursor_set L st s c i = (st', r)"
  shows "base_of L st' n = base_of L st n" and "msgs L st' n = msgs L st n"
proof -
  obtain x where "st' = st\<lparr>st_cursors := x\<rparr>" using cursor_set_frame [OF assms] by blast
  then show "base_of L st' n = base_of L st n" "msgs L st' n = msgs L st n"
    using view_cong [of st' st L n] by simp_all
qed

lemma appends_cursor_sync: "bpt_laws L \<Longrightarrow> bjm_cursor_sync L st = (st', r) \<Longrightarrow> appends L P st st'"
  using cursor_sync_receipts [of L st st' r]
  by (cases st; cases st') (auto intro!: appends_same receipt_cong view_cong)

lemma appends_cursor_delete:
  assumes laws: "bpt_laws L" and other: "\<And>n d. P n d \<Longrightarrow> n @ ''/'' @ d \<noteq> s @ ''/'' @ c"
    and del: "bjm_cursor_delete L st s c = (st', r)"
  shows "appends L P st st'"
proof -
  obtain st1 r1 where op: "cursors_open L st = (st1, r1)" by (cases "cursors_open L st")
  note o = tree_openD(1) [OF laws op]
  note base = appends_opens(1) [OF laws op]
  have "appends L P st1 st'"
  proof (cases "st' = st1")
    case False
    then have "\<exists>t key t1 r2 t2. r1 = Inr t \<and> cursor_key s c = Inr key \<and> bpt_delete L t key = (t1, r2) \<and>
        st' = st1\<lparr>st_cursors := Opened t2\<rparr> \<and> view_tree L t2 = view_tree L t1"
      using del op
      by (auto simp: bjm_cursor_delete_def dest: bpt_syncD [OF laws] split: sum.splits option.splits prod.splits)
    then obtain t key t1 r2 t2 where t: "r1 = Inr t" and key: "cursor_key s c = Inr key"
      and d: "bpt_delete L t key = (t1, r2)"
      and t2: "st' = st1\<lparr>st_cursors := Opened t2\<rparr>" "view_tree L t2 = view_tree L t1"
      by blast
    have "view_tree L t1 k = view_tree L t k" if "k \<noteq> key" for k
      using bpt_deleteD [OF laws d] that by simp
    then show ?thesis
      unfolding t2(1) using o t other cursor_keyD [OF key] t2(2) by (intro appends_elsewhere) auto
  qed simp
  with base show ?thesis by (rule appends_trans)
qed

lemma delete_keys_view:
  assumes "bpt_laws L"
  shows "k \<notin> set ks \<Longrightarrow> view_tree L (fst (delete_keys L t ks n)) k = view_tree L t k"
proof (induction ks arbitrary: t n)
  case (Cons k' ks)
  obtain t' r where d: "bpt_delete L t k' = (t', r)" by (cases "bpt_delete L t k'")
  have "view_tree L t' k = view_tree L t k" using bpt_deleteD [OF assms d] Cons.prems by simp
  with Cons d show ?case by simp
qed simp

lemma appends_purge:
  assumes laws: "bpt_laws L" and other: "\<And>n d. P n d \<Longrightarrow> \<not> consumer_tail c (n @ ''/'' @ d)"
    and del: "bjm_cursor_delete_consumer L st c = (st', r)"
  shows "appends L P st st'"
proof -
  obtain st1 r1 where op: "cursors_open L st = (st1, r1)" by (cases "cursors_open L st")
  note o = tree_openD(1) [OF laws op]
  have "appends L P st1 st'"
  proof (cases "st' = st1")
    case False
    then obtain t es where t: "r1 = Inr t" and es: "bpt_cursor L t None None = Some (es, None)"
      using del op by (auto simp: bjm_cursor_delete_consumer_def split: sum.splits option.splits)
    let ?t1 = "fst (delete_keys L t (filter (consumer_tail c) (map fst es)) 0)"
    have "\<exists>t2. st' = st1\<lparr>st_cursors := Opened t2\<rparr> \<and> view_tree L t2 = view_tree L ?t1"
      using del op t es
      by (auto simp: bjm_cursor_delete_consumer_def dest: bpt_syncD [OF laws]
          split: prod.splits sum.splits if_splits)
    then obtain t2 where t2: "st' = st1\<lparr>st_cursors := Opened t2\<rparr>" "view_tree L t2 = view_tree L ?t1" by blast
    have "view_tree L ?t1 (n @ ''/'' @ d) = view_tree L t (n @ ''/'' @ d)" if "P n d" for n d
      using other [OF that] by (intro delete_keys_view [OF laws]) simp
    then show ?thesis
      unfolding t2(1) using o t t2(2) by (intro appends_elsewhere) simp
  qed simp
  with appends_opens(1) [OF laws op] show ?thesis by (rule appends_trans)
qed

lemma appends_publish:
  assumes laws: "elog_laws L" "bpt_laws L" and pub: "bjm_publish L st n ty b = (st', r)"
  shows "appends L P st st'"
proof -
  obtain x y z w where "st' = st\<lparr>st_subs := x, st_files := y, st_policy := z, st_pubs := w\<rparr>"
    using publish_frame [OF laws(2) pub] by blast
  then have rec: "receipt L st' = receipt L st" by (intro receipt_cong) simp
  have "\<exists>extra. msgs L st' m = msgs L st m @ extra" for m
    using publish_logs(2,5) [OF laws pub] by (cases "m = n") auto
  with publish_logs(1) [OF laws pub] rec show ?thesis by (simp add: appends_def)
qed

lemma appends_dead_letters:
  assumes laws: "elog_laws L" "bpt_laws L"
  shows "appends L P st (dead_letters L st s g d now ds)"
proof (induction ds arbitrary: st)
  case (Cons j ds)
  obtain i a where j: "j = (i, a)" by (cases j)
  obtain st1 r where get: "subject_get L st s False = (st1, r)" by (cases "subject_get L st s False")
  note g = appends_get [OF laws(1) get]
  have pub: "appends L P st (dead_letters L (fst (bjm_publish L st1 d BJM_ENTRY_PLAIN dv)) s g d now ds)" for dv
    using appends_trans [OF appends_trans [OF g appends_publish [OF laws surjective_pairing]] Cons.IH] .
  show ?case
    using g appends_trans [OF g Cons.IH] pub get
    by (simp add: j split: sum.split prod.split option.split)
qed simp

lemma appends_route_dead: "elog_laws L \<Longrightarrow> bpt_laws L \<Longrightarrow> appends L P st (route_dead L st s g now ds)"
  by (simp add: route_dead_def appends_dead_letters split: option.split)

lemma appends_queue:
  assumes laws: "bj_laws L" "bpt_laws L" "elog_laws L"
  shows "queue_load L st s g = (st', r1) \<Longrightarrow> appends L P st st'"
    and "queue_store L st s g q = (st', r2) \<Longrightarrow> appends L P st st'"
proof -
  assume load: "queue_load L st s g = (st', r1)"
  obtain x y where "st' = st\<lparr>st_subs := x, st_files := y\<rparr>" using queue_loadD(1) [OF laws(3,2) load] by blast
  then have "receipt L st' = receipt L st" by (intro receipt_cong) simp
  with queue_loadD(2,3) [OF laws(3,2) load] show "appends L P st st'" by (rule appends_same)
next
  assume "queue_store L st s g q = (st', r2)"
  then obtain x where "st' = st\<lparr>st_queues := x\<rparr>" using queue_storeD(1) [OF laws(1,2)] by blast
  then show "appends L P st st'" by simp
qed

lemma appends_take:
  assumes laws: "lib_laws L" and take: "bjm_take L st s g n ms = (st', r)"
  shows "appends L P st st'"
proof -
  note ll = lib_lawsD [OF laws]
  obtain st1 r1 where op: "queues_open L st = (st1, r1)" by (cases "queues_open L st")
  obtain st2 r2 where get: "subject_get L st1 s False = (st2, r2)" by (cases "subject_get L st1 s False")
  obtain st3 r3 where load: "queue_load L st2 s g = (st3, r3)" by (cases "queue_load L st2 s g")
  have s1: "appends L P st st1" by (rule appends_opens(3) [OF ll(2) op])
  have s2: "appends L P st st2" by (rule appends_trans [OF s1 appends_get [OF ll(3) get]])
  have s3: "appends L P st st3" by (rule appends_trans [OF s2 appends_queue(1) [OF ll load]])
  have s4: "queue_store L st3 s g q = (st4, r4) \<Longrightarrow> appends L P st st4" for q st4 r4
    by (rule appends_trans [OF s3 appends_queue(2) [OF ll]])
  have s5: "queue_store L st3 s g q = (st4, r4) \<Longrightarrow> appends L P st (route_dead L st4 s g now ds)" for q st4 r4 now ds
    by (rule appends_trans [OF s4 appends_route_dead [OF ll(3,2)]])
  show ?thesis
    using take op get load s1 s2 s3 s4 s5
    by (auto simp: bjm_take_def Let_def split: sum.splits prod.splits option.splits)
qed

lemma appends_requeue:
  assumes laws: "elog_laws L" "bpt_laws L" and rq: "bjm_requeue L st s i = (st', r)"
  shows "appends L P st st'"
  using rq
  by (auto simp: bjm_requeue_def Let_def split: prod.splits sum.splits option.splits if_splits
      dest!: appends_get [OF laws(1), where P = P] appends_publish [OF laws, where P = P] intro: appends_trans)

lemma appends_release:
  assumes laws: "lib_laws L" and rel: "queue_release L st s g i drop_it ms = (st', r)"
  shows "appends L P st st'"
  using rel
  by (auto simp: queue_release_def split: prod.splits sum.splits option.splits if_splits
      dest!: appends_opens(3) [OF lib_lawsD(2) [OF laws], where P = P]
        appends_queue [OF lib_lawsD [OF laws], where P = P] intro: appends_trans)

lemma appends_queue_ops:
  assumes laws: "lib_laws L"
  shows "bjm_done L st s g i = (st', r1) \<Longrightarrow> appends L P st st'"
    and "bjm_fail L st s g i ms = (st', r2) \<Longrightarrow> appends L P st st'"
    and "bjm_queue_config L st s g l m b x = (st', r3) \<Longrightarrow> appends L P st st'"
    and "bjm_queue_delete L st s g = (st', r4) \<Longrightarrow> appends L P st st'"
    and "bjm_queue_next_due L st s g = (st', r5) \<Longrightarrow> appends L P st st'"
proof -
  note ll = lib_lawsD [OF laws]
  note steps = appends_opens(3) [OF ll(2), where P = P] appends_queue [OF ll, where P = P]
  show "bjm_done L st s g i = (st', r1) \<Longrightarrow> appends L P st st'"
    "bjm_fail L st s g i ms = (st', r2) \<Longrightarrow> appends L P st st'"
    by (auto simp: bjm_done_def bjm_fail_def dest: appends_release [OF laws, where P = P]
        split: prod.splits sum.splits)
  show "bjm_queue_config L st s g l m b x = (st', r3) \<Longrightarrow> appends L P st st'"
    by (auto simp: bjm_queue_config_def split: prod.splits sum.splits dest!: steps intro: appends_trans)
  show "bjm_queue_delete L st s g = (st', r4) \<Longrightarrow> appends L P st st'"
    by (auto simp: bjm_queue_delete_def split: prod.splits sum.splits option.splits dest!: steps)
  show "bjm_queue_next_due L st s g = (st', r5) \<Longrightarrow> appends L P st st'"
    by (auto simp: bjm_queue_next_due_def split: prod.splits sum.splits dest!: steps intro: appends_trans)
qed

lemma appends_uncache [simp]: "appends L P st (policy_uncache st1 n) = appends L P st st1"
proof -
  have "log_of (policy_uncache st1 n) m = log_of st1 m" for m
    unfolding policy_uncache_def by (rule same_logs_log_of) (simp add: same_logs_upd)
  moreover have "st_cursors (policy_uncache st1 n) = st_cursors st1" by (simp add: policy_uncache_def upd_sub_def)
  ultimately show ?thesis
    using receipt_cong [of L "policy_uncache st1 n" st1] by (simp add: appends_def base_of_def msgs_def)
qed

lemma appends_policy_ops:
  assumes "bpt_laws L"
  shows "bjm_policy_set L st n p = (st', r1) \<Longrightarrow> appends L P st st'"
    and "bjm_policy_clear L st n = (st', r2) \<Longrightarrow> appends L P st st'"
  by (auto simp: bjm_policy_set_def bjm_policy_clear_def Let_def split: prod.splits sum.splits option.splits
      dest!: appends_opens(2) [OF assms, where P = P])

lemma appends_push_ops:
  assumes "bpt_laws L"
  shows "bjm_push_get L st c = (st', r1) \<Longrightarrow> appends L P st st'"
    and "bjm_push_set L st c cfg = (st', r2) \<Longrightarrow> appends L P st st'"
    and "bjm_push_delete L st c = (st', r3) \<Longrightarrow> appends L P st st'"
  by (auto simp: bjm_push_get_def bjm_push_set_def bjm_push_delete_def split: prod.splits sum.splits option.splits
      dest!: appends_opens(4) [OF assms, where P = P])

lemma appends_dedup:
  shows "bjm_dedup_lookup L st s d = (st', r1) \<Longrightarrow> appends L P st st'"
    and "bjm_dedup_record L st s d i = (st', r2) \<Longrightarrow> appends L P st st'"
  by (rule appends_cong [THEN iffD2, OF _ _ _ appends_refl]; simp add: dedup_frame(1))
    (rule appends_cong [THEN iffD2, OF _ _ _ appends_refl]; simp add: dedup_frame(2))

section \<open>Keeping\<close>

text \<open>
  Logs may also lose messages at their front; when they do, what is lost had been acknowledged under
  every receipt that \<open>P\<close> picks out.
\<close>

definition keeps ::
    "('t, 'l) lib \<Rightarrow> (string \<Rightarrow> string \<Rightarrow> bool) \<Rightarrow> ('t, 'l) store \<Rightarrow> ('t, 'l) store \<Rightarrow> bool" where
  "keeps L P st st' \<longleftrightarrow>
     (\<forall>n. \<exists>k extra. k \<le> length (msgs L st n @ extra) \<and> msgs L st' n = drop k (msgs L st n @ extra) \<and>
        base_of L st' n = base_of L st n + k \<and>
        (\<forall>c j. P n c \<longrightarrow> receipt L st n c = Some j \<longrightarrow>
           (\<exists>j'. receipt L st' n c = Some j' \<and> j \<le> j' \<and> (k > 0 \<longrightarrow> base_of L st' n \<le> unat j'))))"

lemma keeps_appends: "appends L P st st' \<Longrightarrow> keeps L P st st'"
  unfolding appends_def keeps_def
  by (intro allI exI [of _ "0 :: nat"]) auto

lemma keeps_refl [simp]: "keeps L P st st"
  by (rule keeps_appends) simp

lemma keeps_trans:
  assumes ab: "keeps L P a b" and bc: "keeps L P b c"
  shows "keeps L P a c"
  unfolding keeps_def
proof
  fix n
  obtain k1 e1 where 1: "k1 \<le> length (msgs L a n @ e1)" "msgs L b n = drop k1 (msgs L a n @ e1)"
      "base_of L b n = base_of L a n + k1"
      "\<forall>c j. P n c \<longrightarrow> receipt L a n c = Some j \<longrightarrow>
         (\<exists>j'. receipt L b n c = Some j' \<and> j \<le> j' \<and> (k1 > 0 \<longrightarrow> base_of L b n \<le> unat j'))"
    using ab unfolding keeps_def by meson
  obtain k2 e2 where 2: "k2 \<le> length (msgs L b n @ e2)" "msgs L c n = drop k2 (msgs L b n @ e2)"
      "base_of L c n = base_of L b n + k2"
      "\<forall>d j. P n d \<longrightarrow> receipt L b n d = Some j \<longrightarrow>
         (\<exists>j'. receipt L c n d = Some j' \<and> j \<le> j' \<and> (k2 > 0 \<longrightarrow> base_of L c n \<le> unat j'))"
    using bc unfolding keeps_def by meson
  have "drop k1 (msgs L a n @ e1) @ e2 = drop k1 ((msgs L a n @ e1) @ e2)"
    using 1(1) by (subst drop_append) simp
  then have m: "msgs L c n = drop (k1 + k2) (msgs L a n @ e1 @ e2)"
    unfolding 2(2) 1(2) by (simp only: drop_drop add.commute append_assoc)
  have len: "k1 + k2 \<le> length (msgs L a n @ e1 @ e2)" using 1(1,2) 2(1) by simp
  have r: "\<exists>j'. receipt L c n d = Some j' \<and> j \<le> j' \<and> (k1 + k2 > 0 \<longrightarrow> base_of L c n \<le> unat j')"
    if p: "P n d" and j: "receipt L a n d = Some j" for d j
  proof -
    obtain j1 where j1: "receipt L b n d = Some j1" "j \<le> j1" "k1 > 0 \<longrightarrow> base_of L b n \<le> unat j1"
      using 1(4) p j by meson
    obtain j2 where j2: "receipt L c n d = Some j2" "j1 \<le> j2" "k2 > 0 \<longrightarrow> base_of L c n \<le> unat j2"
      using 2(4) p j1(1) by meson
    have "base_of L c n \<le> unat j2" if "k1 + k2 > 0"
      using that j1(3) j2 2(3) by (cases "k2 > 0") (auto simp: word_le_nat_alt)
    then show ?thesis using j1(2) j2(1,2) by (auto intro: order_trans)
  qed
  show "\<exists>k extra. k \<le> length (msgs L a n @ extra) \<and> msgs L c n = drop k (msgs L a n @ extra) \<and>
      base_of L c n = base_of L a n + k \<and>
      (\<forall>d j. P n d \<longrightarrow> receipt L a n d = Some j \<longrightarrow>
         (\<exists>j'. receipt L c n d = Some j' \<and> j \<le> j' \<and> (k > 0 \<longrightarrow> base_of L c n \<le> unat j')))"
    by (rule exI [of _ "k1 + k2"], rule exI [of _ "e1 @ e2"]) (use m len r 1(3) 2(3) in simp)
qed

interpretation keeps_history: history "keeps L P" for L :: "('t, 'l) lib" and P
  by unfold_locales (rule keeps_refl, rule keeps_trans)

lemma keeps_trim:
  assumes laws: "elog_laws L" "bpt_laws L" and trim: "bjm_trim L st s b force = (st', r)"
    and spared: "\<And>c. force \<Longrightarrow> \<not> P s c"
  shows "keeps L P st st'"
proof -
  obtain k where k: "trimmed_by L st s b force st' r k" using trimD [OF laws trim] .
  show ?thesis
    unfolding keeps_def
  proof
    fix n
    let ?k = "if n = s then k else 0"
    have "?k \<le> length (msgs L st n @ [])" "msgs L st' n = drop ?k (msgs L st n @ [])"
      "base_of L st' n = base_of L st n + ?k"
      using k by (simp_all add: trimmed_by_def)
    moreover have "receipt L st' n c = Some j \<and> (?k > 0 \<longrightarrow> base_of L st' n \<le> unat j)"
      if "P n c" "receipt L st n c = Some j" for c j
      using k that spared by (cases force) (auto simp: trimmed_by_def)
    ultimately show "\<exists>k extra. k \<le> length (msgs L st n @ extra) \<and> msgs L st' n = drop k (msgs L st n @ extra) \<and>
        base_of L st' n = base_of L st n + k \<and>
        (\<forall>c j. P n c \<longrightarrow> receipt L st n c = Some j \<longrightarrow>
           (\<exists>j'. receipt L st' n c = Some j' \<and> j \<le> j' \<and> (k > 0 \<longrightarrow> base_of L st' n \<le> unat j')))"
      by (intro exI [of _ ?k] exI [of _ "[]"]) auto
  qed
qed

lemma keeps_retention:
  assumes laws: "elog_laws L" "bpt_laws L" and run: "bjm_retention_run L st now = (st', r)"
    and spared: "\<And>n p c. policy_of L st n = Some p \<Longrightarrow> p_ignore_consumers p \<Longrightarrow> \<not> P n c"
  shows "keeps L P st st'"
  unfolding keeps_def
proof
  fix n
  have kept: "kept L st st'" by (rule retention_kept [OF laws run])
  then obtain k where k: "k \<le> length (msgs L st n)" "base_of L st' n = base_of L st n + k"
      "msgs L st' n = drop k (msgs L st n)"
      "k > 0 \<Longrightarrow> \<exists>p. policy_of L st n = Some p \<and> (\<not> p_ignore_consumers p \<longrightarrow> owed_above L st n (base_of L st n + k))"
    unfolding kept_def by meson
  have "receipt L st' n c = Some j \<and> (k > 0 \<longrightarrow> base_of L st' n \<le> unat j)"
    if "P n c" "receipt L st n c = Some j" for c j
    using kept k(2,4) that spared by (auto simp: kept_def owed_above_def)
  with k show "\<exists>k extra. k \<le> length (msgs L st n @ extra) \<and> msgs L st' n = drop k (msgs L st n @ extra) \<and>
      base_of L st' n = base_of L st n + k \<and>
      (\<forall>c j. P n c \<longrightarrow> receipt L st n c = Some j \<longrightarrow>
         (\<exists>j'. receipt L st' n c = Some j' \<and> j \<le> j' \<and> (k > 0 \<longrightarrow> base_of L st' n \<le> unat j')))"
    by (intro exI [of _ k] exI [of _ "[]"]) auto
qed

end
