(* ===== verification/Engine_History.thy ===== *)
theory Engine_History
  imports History
begin

text \<open>
  The delivery engine as steps of the relations of theory History: what it does to the logs and the
  receipts when it looks for batches, sends them and settles what comes back.
\<close>

section \<open>Indices that can be recorded\<close>

definition low :: "('t, 'l) lib \<Rightarrow> (string \<Rightarrow> string \<Rightarrow> bool) \<Rightarrow> ('t, 'l) store \<Rightarrow> bool" where
  "low L P st \<longleftrightarrow> (\<forall>n. base_of L st n \<le> 2 ^ 53) \<or> (\<forall>n c. \<not> P n c)"

definition short :: "('t, 'l) lib \<Rightarrow> (string \<Rightarrow> string \<Rightarrow> bool) \<Rightarrow> ('t, 'l) store \<Rightarrow> bool" where
  "short L P st \<longleftrightarrow> (\<forall>n. base_of L st n + length (msgs L st n) \<le> 2 ^ 53) \<or> (\<forall>n c. \<not> P n c)"

lemma short_low: "short L P st \<Longrightarrow> low L P st"
  unfolding short_def low_def by (meson le_add1 order_trans)

lemma low_appends: "appends L P st st' \<Longrightarrow> low L P st \<Longrightarrow> low L P st'"
  by (simp add: appends_def low_def)

lemma safe_zero [simp]: "safe_index P 0"
  by (simp add: safe_index_def exact_int_def)

lemma safe_le: "safe_index P i \<Longrightarrow> j \<le> i \<Longrightarrow> safe_index P j"
  by (auto simp: safe_index_def exact_int_def word_le_nat_alt)

lemma info_base:
  assumes "elog_laws L" and "bjm_subject_info L st n = (st', Inr (b, l, x))"
  shows "unat b = base_of L st n"
proof -
  obtain s where get: "subject_get L st n False = (st', Inr s)" and b: "b = elog_base_index L (s_log s)"
    using assms(2) by (auto simp: bjm_subject_info_def split: prod.splits sum.splits)
  show ?thesis
    using subject_get_view(1) [OF assms(1) get] elog_indexD(1) [OF assms(1), of "s_log s"] b by simp
qed

lemma low_safe: "elog_laws L \<Longrightarrow> low L P st \<Longrightarrow> bjm_subject_info L st n = (st', Inr (b, l, x)) \<Longrightarrow> safe_index P b"
  using info_base [of L st n st' b l x] by (auto simp: low_def safe_index_def exact_int_def)

lemma short_safe: "elog_laws L \<Longrightarrow> short L P st \<Longrightarrow> bjm_last_index L st n = (st', i) \<Longrightarrow> safe_index P i"
  using last_index_le [of L st n st' i] by (auto simp: short_def safe_index_def exact_int_def intro: order_trans)

section \<open>Sending\<close>

lemma appends_find_batch:
  assumes laws: "lib_laws L" and low: "low L P st" and find: "find_batch L st d s name = (st', r)"
  shows "appends L P st st'"
proof -
  note ll = lib_lawsD [OF laws]
  obtain st1 r1 where info: "bjm_subject_info L st name = (st1, r1)" by (cases "bjm_subject_info L st name")
  note s1 = appends_queries(3) [OF ll(2,3) info, of P]
  obtain st2 r2 where get: "bjm_cursor_get L st1 name (u_consumer s) = (st2, r2)"
    by (cases "bjm_cursor_get L st1 name (u_consumer s)")
  note s2 = appends_trans [OF s1 appends_queries(9) [OF ll(2,3) get]]
  show ?thesis
  proof (cases r1)
    case (Inl e)
    then show ?thesis using find info s1 by (simp add: find_batch_def)
  next
    case (Inr x)
    obtain b l y where x: "x = (b, l, y)" by (cases x)
    note safe = low_safe [OF ll(3) low info [unfolded Inr x]]
    show ?thesis
    proof (cases r2)
      case (Inl e)
      then show ?thesis using find info get Inr x s2 by (simp add: find_batch_def \<open>r1 = Inr x\<close>)
    next
      case found: (Inr f)
      let ?a = "case f of Some a \<Rightarrow> a | None \<Rightarrow> 0"
      obtain st3 r3 where res: "resume_at L st2 name (u_consumer s) b l ?a = (st3, r3)"
        by (cases "resume_at L st2 name (u_consumer s) b l ?a")
      have "appends L P st2 st3"
        using res appends_cursor_set [OF ll(1,2) safe surjective_pairing]
        by (auto simp: resume_at_def split: if_splits)
      from appends_trans [OF s2 this] show ?thesis
        using find info get Inr x found res
        by (auto simp: find_batch_def Let_def split: option.splits prod.splits sum.splits
            dest!: appends_queries(1) [OF ll(2,3), where P = P] intro: appends_trans)
    qed
  qed
qed

lemma appends_offer:
  assumes laws: "lib_laws L" and low: "low L P st" and offer: "offer L st p s name i = (st', p', s', r)"
  shows "appends L P st st'"
proof -
  have m: "offer_messages L st p s name i = (st', p', s', r) \<Longrightarrow> appends L P st st'"
    by (auto simp: offer_messages_def Let_def split: prod.splits option.splits
        dest!: appends_find_batch [OF laws low])
  have j: "offer_jobs L st p s name i = (st', p', s', r) \<Longrightarrow> appends L P st st'"
    by (auto simp: offer_jobs_def take_batch_def Let_def
        split: prod.splits option.splits sum.splits if_splits
        dest!: appends_take [OF laws, where P = P] appends_queue_ops(5) [OF laws, where P = P] intro: appends_trans)
  show ?thesis using offer m j by (auto simp: offer_def split: if_splits)
qed

lemma appends_start_loop:
  assumes laws: "lib_laws L"
  shows "low L P st \<Longrightarrow> start_loop L st p s n = (st', p', s', ok) \<Longrightarrow> appends L P st st'"
  using laws
proof (induction L st p s n arbitrary: st' p' s' ok rule: start_loop.induct)
  case (1 L st p s n)
  show ?case
  proof (cases "n < length (p_names p)")
    case False
    with 1(3) show ?thesis by (subst (asm) start_loop.simps) simp
  next
    case True
    define i where "i = (u_rr s + n) mod length (p_names p)"
    obtain st1 p1 s1 r where o: "offer L st p s (p_names p ! i) i = (st1, p1, s1, r)"
      by (cases "offer L st p s (p_names p ! i) i")
    note a = appends_offer [OF 1(4,2) o]
    show ?thesis
    proof (cases r)
      case None
      with 1(3) True o have "start_loop L st1 p1 s1 (n + 1) = (st', p', s', ok)"
        by (subst (asm) start_loop.simps) (simp add: i_def Let_def)
      from 1(1) [OF True i_def o [symmetric] refl refl _ low_appends [OF a 1(2)] this 1(4)] None
      show ?thesis by (auto intro: appends_trans [OF a])
    next
      case (Some b)
      with 1(3) True o have "st' = st1"
        by (subst (asm) start_loop.simps) (simp add: i_def Let_def)
      with a show ?thesis by simp
    qed
  qed
qed

lemma appends_pump:
  assumes laws: "lib_laws L" and low: "low L P st" and pump: "bjm_pusher_pump L st p now = (st', p', t)"
  shows "appends L P st st'"
proof -
  have one: "appends L P (fst x) (fst (pump_one L now i x))" if "low L P (fst x)" for i x
    using that
    by (cases x) (auto simp: pump_one_def Let_def start_delivery_def dest: appends_start_loop [OF laws] split: prod.split)
  have all: "appends L P (fst x) (fst (fold (pump_one L now) ks x))" if "low L P (fst x)" for x ks
    using that
  proof (induction ks arbitrary: x)
    case (Cons i ks)
    note a = one [OF Cons.prems, of i]
    show ?case using appends_trans [OF a Cons.IH [OF low_appends [OF a Cons.prems]]] by simp
  qed simp
  show ?thesis
    using pump all [of "(st, p, False, False, 0)" "[0..<length (p_subs p)]"] low
    by (auto simp: bjm_pusher_pump_def pump_pass_def split: prod.splits if_splits)
qed

section \<open>Settling\<close>

lemma appends_settle_all:
  assumes laws: "lib_laws L"
  shows "appends L P (fst x) (fst (fold (settle_job L s ok) js x))"
proof (rule appends_history.run_free)
  show "appends L P (fst x) (fst (settle_job L s ok j x))" for j x
    using appends_queue_ops(1,2) [OF laws surjective_pairing]
    by (cases x) (simp add: settle_job_def Let_def)
qed

lemma appends_finish:
  assumes laws: "lib_laws L" and safe: "safe_index P (u_last (p_subs p ! i))"
    and fin: "finish L st p i reached status err now = (st', p')"
  shows "appends L P st st'"
proof -
  note ll = lib_lawsD [OF laws]
  let ?s = "(p_subs p ! i)\<lparr>u_inflight := False\<rparr>"
  have jobs: "finish_jobs L st ?s reached status err now = (st1, s1, b) \<Longrightarrow> appends L P st st1" for st1 s1 b
    using appends_settle_all [OF laws, of P "(st, u_delivered ?s)"]
    by (auto simp: finish_jobs_def Let_def split: if_splits prod.splits)
      (metis fst_conv)+
  have "acked_to ?s \<le> u_last (p_subs p ! i)" by (auto simp: acked_to_def not_less split: option.split)
  note ack = safe_le [OF safe this]
  have batch: "finish_batch L st ?s reached status err now = (st1, s1, b) \<Longrightarrow> appends L P st st1" for st1 s1 b
    using appends_trans [OF appends_cursor_set [OF ll(1,2) ack surjective_pairing]
        appends_cursor_sync [OF ll(2) surjective_pairing]]
    by (auto simp: finish_batch_def Let_def split: if_splits)
  show ?thesis
    using fin jobs batch by (auto simp: finish_def Let_def split: if_splits prod.splits)
qed

lemma appends_delivered:
  assumes laws: "lib_laws L" and safe: "\<forall>s \<in> set (p_subs p). safe_index P (u_last s)"
    and del: "bjm_pusher_delivered L st p u reached status err now = (st', p')"
  shows "appends L P st st'"
proof (cases "position (\<lambda>s. u_id s = u) (p_subs p)")
  case None
  with del show ?thesis by (simp add: bjm_pusher_delivered_def)
next
  case (Some i)
  then have "safe_index P (u_last (p_subs p ! i))" using position_less [OF Some] safe by simp
  from appends_finish [OF laws this] del Some show ?thesis by (simp add: bjm_pusher_delivered_def)
qed

section \<open>Seeding\<close>

lemma seed_one_still:
  assumes laws: "lib_laws L" and short: "short L P st" and start: "safe_index P from"
  shows "appends L P st (seed_one L c pat e from n st) \<and> short L P (seed_one L c pat e from n st)"
proof -
  note ll = lib_lawsD [OF laws]
  obtain st1 r1 where get: "bjm_cursor_get L st n c = (st1, r1)" by (cases "bjm_cursor_get L st n c")
  have still: "short L P st' = short L P st"
    if "\<And>m. base_of L st' m = base_of L st m" "\<And>m. msgs L st' m = msgs L st m" for st'
    using that by (simp add: short_def)
  have d1: "same_data L st st1" by (rule same_cursor_get [OF ll(2) get])
  then have short1: "short L P st1" using short by (simp add: same_data_def short_def)
  have a1: "appends L P st st1" by (rule appends_same_data [OF d1])
  obtain st2 i where last: "(if e then bjm_last_index L st1 n else (st1, if from > 1 then from - 1 else 0)) = (st2, i)"
    by (cases "if e then bjm_last_index L st1 n else (st1, if from > 1 then from - 1 else 0)")
  have safe: "safe_index P i"
  proof (cases e)
    case True
    then show ?thesis using last short_safe [OF ll(3) short1] by simp
  next
    case False
    have "1 < from \<Longrightarrow> from - 1 \<le> from"
      by (simp add: word_le_nat_alt word_less_nat_alt unat_sub_u64)
    then show ?thesis using last False safe_le [OF start] by (auto split: if_splits)
  qed
  have d2: "same_data L st1 st2"
    using last same_reads(2) [OF ll(3), of st1 n st2 i] by (auto split: if_splits)
  have short2: "short L P st2" using short1 d2 by (simp add: same_data_def short_def)
  obtain st3 r3 where set: "bjm_cursor_set L st2 n c i = (st3, r3)" by (cases "bjm_cursor_set L st2 n c i")
  have short3: "short L P st3" using short2 cursor_set_logs [OF ll(2) set] by (simp add: short_def)
  have a3: "appends L P st st3"
    using appends_trans [OF a1 appends_trans [OF appends_same_data [OF d2] appends_cursor_set [OF ll(1,2) safe set]]] .
  show ?thesis
    using get last set a1 short1 a3 short3 short
    by (auto simp: seed_one_def split: sum.split option.split)
qed

lemma appends_seed:
  assumes laws: "lib_laws L" and short: "short L P st" and start: "safe_index P from"
    and seed: "bjm_pusher_seed L st p c pat e from = (st', p')"
  shows "appends L P st st'"
proof -
  note one = seed_one_still [OF laws _ start]
  have all: "short L P st \<Longrightarrow> appends L P st (fold (seed_one L c q e from) ns st)" for q ns st
  proof (induction ns arbitrary: st)
    case (Cons n ns)
    then show ?case using one [OF Cons.prems, of c q e n] by (auto intro: appends_trans)
  qed simp
  let ?st = "fold (seed_one L c (take BJM_SUBJECT_MAX pat) e from) (p_names p) st"
  have "st' = fst (bjm_cursor_sync L ?st)" using seed by (simp add: bjm_pusher_seed_def Let_def)
  with appends_trans [OF all [OF short] appends_cursor_sync [OF lib_lawsD(2) [OF laws] surjective_pairing]]
  show ?thesis by simp
qed

end
