(* ===== verification/Request_History.thy ===== *)
theory Request_History
  imports Engine_History
begin

text \<open>
  Requests as steps of the relations of theory History: what a request can do to a log or a receipt,
  and which requests take something away on purpose.
\<close>

section \<open>Calls on the store\<close>

abbreviation app_appends ::
    "('t, 'l) lib \<Rightarrow> (string \<Rightarrow> string \<Rightarrow> bool) \<Rightarrow> ('t, 'l) sukkal_app \<Rightarrow> ('t, 'l) sukkal_app \<Rightarrow> bool" where
  "app_appends L P a a' \<equiv> appends L P (a_store a) (a_store a')"

lemma on_appends: "appends L P (a_store a) (fst x) \<Longrightarrow> on_store a x = (a', v) \<Longrightarrow> app_appends L P a a'"
  by (cases x) (auto simp: on_store_def)

lemma op_appends:
  assumes "lib_laws L"
  shows "on_store a (bjm_read L (a_store a) n f m) = (a', v1) \<Longrightarrow> app_appends L P a a'"
    and "on_store a (bjm_last_index L (a_store a) n) = (a', v2) \<Longrightarrow> app_appends L P a a'"
    and "on_store a (bjm_subject_info L (a_store a) n) = (a', v3) \<Longrightarrow> app_appends L P a a'"
    and "on_store a (bjm_consumers L (a_store a) n) = (a', v4) \<Longrightarrow> app_appends L P a a'"
    and "on_store a (consumer_count L (a_store a) n) = (a', v5) \<Longrightarrow> app_appends L P a a'"
    and "on_store a (bjm_queues L (a_store a) n) = (a', v6) \<Longrightarrow> app_appends L P a a'"
    and "on_store a (bjm_policy_get L (a_store a) n) = (a', v7) \<Longrightarrow> app_appends L P a a'"
    and "on_store a (bjm_policy_list L (a_store a)) = (a', v8) \<Longrightarrow> app_appends L P a a'"
    and "on_store a (bjm_cursor_get L (a_store a) n c) = (a', v9) \<Longrightarrow> app_appends L P a a'"
    and "on_store a (bjm_cursor_sync L (a_store a)) = (a', v10) \<Longrightarrow> app_appends L P a a'"
    and "on_store a (bjm_publish L (a_store a) n ty b) = (a', v11) \<Longrightarrow> app_appends L P a a'"
    and "on_store a (bjm_requeue L (a_store a) n i) = (a', v12) \<Longrightarrow> app_appends L P a a'"
    and "on_store a (bjm_take L (a_store a) n g k ms) = (a', v13) \<Longrightarrow> app_appends L P a a'"
    and "on_store a (bjm_done L (a_store a) n g i) = (a', v14) \<Longrightarrow> app_appends L P a a'"
    and "on_store a (bjm_fail L (a_store a) n g i ms) = (a', v15) \<Longrightarrow> app_appends L P a a'"
    and "on_store a (bjm_queue_config L (a_store a) n g lm ma bm mb) = (a', v16) \<Longrightarrow> app_appends L P a a'"
    and "on_store a (bjm_queue_delete L (a_store a) n g) = (a', v17) \<Longrightarrow> app_appends L P a a'"
    and "on_store a (bjm_policy_set L (a_store a) n p) = (a', v18) \<Longrightarrow> app_appends L P a a'"
    and "on_store a (bjm_policy_clear L (a_store a) n) = (a', v19) \<Longrightarrow> app_appends L P a a'"
    and "on_store a (bjm_push_get L (a_store a) c) = (a', v20) \<Longrightarrow> app_appends L P a a'"
    and "on_store a (bjm_push_set L (a_store a) c cfg) = (a', v21) \<Longrightarrow> app_appends L P a a'"
    and "on_store a (bjm_push_delete L (a_store a) c) = (a', v22) \<Longrightarrow> app_appends L P a a'"
    and "on_store a (bjm_dedup_lookup L (a_store a) n d) = (a', v23) \<Longrightarrow> app_appends L P a a'"
    and "on_store a (bjm_dedup_record L (a_store a) n d i) = (a', v24) \<Longrightarrow> app_appends L P a a'"
proof -
  note ll = lib_lawsD [OF assms]
  note ops = appends_queries [OF ll(2,3) surjective_pairing] appends_cursor_sync [OF ll(2) surjective_pairing]
    appends_publish [OF ll(3,2) surjective_pairing] appends_requeue [OF ll(3,2) surjective_pairing]
    appends_take [OF assms surjective_pairing] appends_queue_ops [OF assms surjective_pairing]
    appends_policy_ops [OF ll(2) surjective_pairing] appends_push_ops [OF ll(2) surjective_pairing]
    appends_dedup [OF surjective_pairing]
  show "on_store a (bjm_read L (a_store a) n f m) = (a', v1) \<Longrightarrow> app_appends L P a a'"
    "on_store a (bjm_last_index L (a_store a) n) = (a', v2) \<Longrightarrow> app_appends L P a a'"
    "on_store a (bjm_subject_info L (a_store a) n) = (a', v3) \<Longrightarrow> app_appends L P a a'"
    "on_store a (bjm_consumers L (a_store a) n) = (a', v4) \<Longrightarrow> app_appends L P a a'"
    "on_store a (consumer_count L (a_store a) n) = (a', v5) \<Longrightarrow> app_appends L P a a'"
    "on_store a (bjm_queues L (a_store a) n) = (a', v6) \<Longrightarrow> app_appends L P a a'"
    "on_store a (bjm_policy_get L (a_store a) n) = (a', v7) \<Longrightarrow> app_appends L P a a'"
    "on_store a (bjm_policy_list L (a_store a)) = (a', v8) \<Longrightarrow> app_appends L P a a'"
    "on_store a (bjm_cursor_get L (a_store a) n c) = (a', v9) \<Longrightarrow> app_appends L P a a'"
    "on_store a (bjm_cursor_sync L (a_store a)) = (a', v10) \<Longrightarrow> app_appends L P a a'"
    "on_store a (bjm_publish L (a_store a) n ty b) = (a', v11) \<Longrightarrow> app_appends L P a a'"
    "on_store a (bjm_requeue L (a_store a) n i) = (a', v12) \<Longrightarrow> app_appends L P a a'"
    by (erule on_appends [rotated], rule ops)+
  show "on_store a (bjm_take L (a_store a) n g k ms) = (a', v13) \<Longrightarrow> app_appends L P a a'"
    "on_store a (bjm_done L (a_store a) n g i) = (a', v14) \<Longrightarrow> app_appends L P a a'"
    "on_store a (bjm_fail L (a_store a) n g i ms) = (a', v15) \<Longrightarrow> app_appends L P a a'"
    "on_store a (bjm_queue_config L (a_store a) n g lm ma bm mb) = (a', v16) \<Longrightarrow> app_appends L P a a'"
    "on_store a (bjm_queue_delete L (a_store a) n g) = (a', v17) \<Longrightarrow> app_appends L P a a'"
    "on_store a (bjm_policy_set L (a_store a) n p) = (a', v18) \<Longrightarrow> app_appends L P a a'"
    "on_store a (bjm_policy_clear L (a_store a) n) = (a', v19) \<Longrightarrow> app_appends L P a a'"
    "on_store a (bjm_push_get L (a_store a) c) = (a', v20) \<Longrightarrow> app_appends L P a a'"
    "on_store a (bjm_push_set L (a_store a) c cfg) = (a', v21) \<Longrightarrow> app_appends L P a a'"
    "on_store a (bjm_push_delete L (a_store a) c) = (a', v22) \<Longrightarrow> app_appends L P a a'"
    "on_store a (bjm_dedup_lookup L (a_store a) n d) = (a', v23) \<Longrightarrow> app_appends L P a a'"
    "on_store a (bjm_dedup_record L (a_store a) n d i) = (a', v24) \<Longrightarrow> app_appends L P a a'"
    by (erule on_appends [rotated], rule ops)+
qed

lemma op_cursor_set:
  "lib_laws L \<Longrightarrow> safe_index P i \<Longrightarrow> on_store a (bjm_cursor_set L (a_store a) n c i) = (a', v) \<Longrightarrow> app_appends L P a a'"
  by (erule on_appends [rotated], rule appends_cursor_set [OF lib_lawsD(1,2) _ surjective_pairing]; assumption)

lemma attempt_appends:
  assumes "\<And>a1 v. on_store a x = (a1, v) \<Longrightarrow> app_appends L P a a1" and "\<And>a1 v. app_appends L P a1 (fst (k a1 v))"
  shows "app_appends L P a (fst (attempt a x msg k))"
proof -
  obtain a1 v where x: "on_store a x = (a1, v)" by (cases "on_store a x")
  show ?thesis
    using assms(1) [OF x] appends_trans [OF assms(1) [OF x] assms(2)] x
    by (cases v) (simp_all add: attempt_def)
qed

lemma listing_appends:
  "(\<And>a1 v. on_store a x = (a1, v) \<Longrightarrow> app_appends L P a a1) \<Longrightarrow> app_appends L P a (fst (listing_reply a x))"
  unfolding listing_reply_def by (rule attempt_appends) simp_all

section \<open>Requests that take nothing away\<close>

text \<open>The indices a request brings along are recorded as receipts.\<close>

definition plain_indices :: "(string \<Rightarrow> string \<Rightarrow> bool) \<Rightarrow> sukkal_req \<Rightarrow> bool" where
  "plain_indices P req \<longleftrightarrow>
     list_all (\<lambda>k. safe_index P (query_u64 req k 0)) [''ack'', ''ack_index'', ''index'', ''from'']"

lemma append_once_appends:
  assumes laws: "lib_laws L" and ap: "append_once L a s ty b d = (a', r)"
  shows "app_appends L P a a'"
proof -
  let ?look = "case d of None \<Rightarrow> (a, Inr None) | Some i \<Rightarrow> on_store a (bjm_dedup_lookup L (a_store a) s i)"
  obtain a1 v where look: "?look = (a1, v)" by (cases ?look)
  have s1: "app_appends L P a a1" using look by (auto split: option.split_asm dest: op_appends(23) [OF laws])
  obtain a2 w where pub: "on_store a1 (bjm_publish L (a_store a1) s ty b) = (a2, w)"
    by (cases "on_store a1 (bjm_publish L (a_store a1) s ty b)")
  have s2: "app_appends L P a a2" by (rule appends_trans [OF s1 op_appends(11) [OF laws pub]])
  have s3: "app_appends L P a2 (case d of None \<Rightarrow> a2 | Some i \<Rightarrow> fst (on_store a2 (bjm_dedup_record L (a_store a2) s i j)))" for j
    by (cases d) (auto intro: op_appends(24) [OF laws surjective_pairing])
  from ap look pub show ?thesis
    using s1 s2 appends_trans [OF s2 s3]
    by (auto simp: append_once_def split: sum.split_asm option.split_asm)
qed

lemma ack_input_appends:
  assumes laws: "lib_laws L" and plain: "plain_indices P req" and ack: "ack_input L a req = (a', r)"
  shows "app_appends L P a a'"
proof -
  have safe: "safe_index P (query_u64 req ''ack_index'' 0)" using plain by (simp add: plain_indices_def)
  show ?thesis
    using ack
    by (auto simp: ack_input_def Let_def dest: op_cursor_set [OF laws safe]
        intro: appends_trans [OF op_cursor_set [OF laws safe] op_appends(10) [OF laws surjective_pairing]]
        split: query_answer.split_asm if_split_asm prod.split_asm sum.split_asm)
qed

lemma publish_appends_only:
  assumes laws: "lib_laws L" and plain: "plain_indices P req"
  shows "app_appends L P a (fst (h_publish L a req))"
  by (auto simp: h_publish_def dest: append_once_appends [OF laws, where P = P] ack_input_appends [OF laws plain]
      intro: appends_trans split: sum.split prod.split)

lemma place_appends:
  assumes laws: "lib_laws L" and plain: "plain_indices P req" and short: "short L P (a_store a)"
    and place: "consumer_place L a req s c = (a', r)"
  shows "app_appends L P a a'"
proof -
  note ll = lib_lawsD [OF laws]
  let ?ack = "query_u64 req ''ack'' 0"
  have safe: "safe_index P ?ack" using plain by (simp add: plain_indices_def)
  obtain a1 v1 where one: "(if ?ack \<noteq> 0 then on_store a (bjm_cursor_set L (a_store a) s c ?ack) else (a, Inr ())) = (a1, v1)"
    by (cases "if ?ack \<noteq> 0 then on_store a (bjm_cursor_set L (a_store a) s c ?ack) else (a, Inr ())")
  have s1: "app_appends L P a a1" using one by (auto split: if_split_asm dest: op_cursor_set [OF laws safe])
  have still: "base_of L (a_store a1) n = base_of L (a_store a) n \<and> msgs L (a_store a1) n = msgs L (a_store a) n" for n
    using one cursor_set_logs [OF ll(2), of "a_store a" s c ?ack]
    by (cases "?ack = 0") (auto simp: on_store_def split: prod.splits)
  obtain a2 v2 where two: "on_store a1 (bjm_cursor_get L (a_store a1) s c) = (a2, v2)"
    by (cases "on_store a1 (bjm_cursor_get L (a_store a1) s c)")
  have s2: "app_appends L P a a2" by (rule appends_trans [OF s1 op_appends(9) [OF laws two]])
  have "same_data L (a_store a1) (a_store a2)"
    using two same_cursor_get [OF ll(2), of "a_store a1" s c] by (auto simp: on_store_def split: prod.splits)
  then have short2: "short L P (a_store a2)" using short still by (simp add: short_def same_data_def)
  let ?start = "rq_query req ''start'' 8 = Found ''last''"
  obtain a3 j where three: "(if ?start then on_store a2 (bjm_last_index L (a_store a2) s) else (a2, 0)) = (a3, j)"
    by (cases "if ?start then on_store a2 (bjm_last_index L (a_store a2) s) else (a2, 0)")
  have s3: "app_appends L P a a3"
    using three s2 by (auto split: if_split_asm dest: op_appends(2) [OF laws] intro: appends_trans)
  have safe3: "safe_index P j"
    using three short_safe [OF ll(3) short2, of s]
    by (auto simp: on_store_def split: if_split_asm prod.splits)
  obtain a4 v4 where four: "on_store a3 (bjm_cursor_set L (a_store a3) s c j) = (a4, v4)"
    by (cases "on_store a3 (bjm_cursor_set L (a_store a3) s c j)")
  have s4: "app_appends L P a a4" by (rule appends_trans [OF s3 op_cursor_set [OF laws safe3 four]])
  from place one two three four s1 s2 s4 show ?thesis
    by (auto simp: consumer_place_def Let_def split: sum.split_asm option.split_asm)
qed

lemma read_appends: "lib_laws L \<Longrightarrow> app_appends L P a (fst (read_from L a req s base acked))"
proof -
  have step: "app_appends L P a (fst (case x of (a', Inl e) \<Rightarrow> (a', f e) | (a', Inr got) \<Rightarrow> (a', g got)))"
    if "\<And>a' v. x = (a', v) \<Longrightarrow> app_appends L P a a'" for x :: "('c, 'd) sukkal_app \<times> ('f + 'e)" and f g a L
    using that by (cases x; cases "snd x") auto
  assume "lib_laws L"
  then show ?thesis unfolding read_from_def Let_def by (intro step) (rule op_appends)
qed

lemma subscribe_appends:
  assumes laws: "lib_laws L" and plain: "plain_indices P req" and short: "short L P (a_store a)"
  shows "app_appends L P a (fst (h_subscribe L a req))"
proof (cases "subject_of req ''/sub/''")
  case (Inr s)
  obtain a1 v1 where info: "on_store a (bjm_subject_info L (a_store a) s) = (a1, v1)"
    by (cases "on_store a (bjm_subject_info L (a_store a) s)")
  note s1 = op_appends(3) [OF laws info, of P]
  have "same_data L (a_store a) (a_store a1)"
    using undisturbed_ops(2) [OF lib_lawsD(2,3) [OF laws] info] by (simp add: undisturbed_def)
  then have "short L P (a_store a1)" using short by (simp add: short_def same_data_def)
  note place = place_appends [OF laws plain this]
  show ?thesis
    using Inr info s1
    by (auto simp: h_subscribe_def dest: place intro: appends_trans [OF s1] appends_trans [OF _ read_appends [OF laws]]
        split: sum.split prod.split option.split)
qed (simp add: h_subscribe_def)

lemma ack_appends:
  assumes laws: "lib_laws L" and plain: "plain_indices P req"
  shows "app_appends L P a (fst (h_ack L a req))"
proof -
  have safe: "safe_index P (query_u64 req ''index'' 0)" using plain by (simp add: plain_indices_def)
  have tail: "app_appends L P a (fst (case on_store (fst (on_store a (bjm_cursor_sync L (a_store a))))
      (bjm_cursor_get L (a_store (fst (on_store a (bjm_cursor_sync L (a_store a))))) s c) of (a, v) \<Rightarrow> (a, g v)))" for a s c g
    using appends_trans [OF op_appends(10) [OF laws surjective_pairing] op_appends(9) [OF laws surjective_pairing]]
    by (simp add: case_prod_beta)
  show ?thesis
    unfolding h_ack_def Let_def
    by (auto split: sum.split option.split intro!: attempt_appends tail dest: op_cursor_set [OF laws safe])
qed

lemma simple_appends:
  assumes laws: "lib_laws L"
  shows "app_appends L P a (fst (h_take L a req))" "app_appends L P a (fst (h_job_end L a req b))"
    and "app_appends L P a (fst (h_policy_get L a req))" "app_appends L P a (fst (h_policy_delete L a req))"
    and "app_appends L P a (fst (h_queue_delete L a req))" "app_appends L P a (fst (h_dead L a req))"
    and "app_appends L P a (fst (h_requeue L a req))" "app_appends L P a (fst (h_info L a req))"
    and "app_appends L P a (fst (h_consumers L a req))" "app_appends L P a (fst (h_queues L a req))"
    and "app_appends L P a (fst (h_policies L a req))"
  by (auto simp: h_take_def h_job_end_def h_policy_get_def h_policy_delete_def h_queue_delete_def h_info_def
      h_consumers_def h_queues_def h_policies_def h_dead_def h_requeue_def Let_def dest: op_appends [OF laws]
      intro!: attempt_appends listing_appends split: sum.split prod.split option.split)

lemma config_appends:
  assumes laws: "lib_laws L"
  shows "app_appends L P a (fst (h_queue_config L a req))" and "app_appends L P a (fst (h_policy_put L a req))"
  unfolding h_queue_config_def h_policy_put_def Let_def
  by (auto split: sum.split prod.split intro!: attempt_appends simple_appends [OF laws] dest: op_appends [OF laws])

section \<open>Requests that take something away\<close>

text \<open>
  A forced trim ignores what is owed, an unsubscription discards one receipt, and the removal of a
  registration with \<open>purge\<close> all receipts of its consumer.
\<close>

fun harms :: "route \<Rightarrow> sukkal_req \<Rightarrow> string \<Rightarrow> string \<Rightarrow> bool" where
  "harms h_trim_route req n c \<longleftrightarrow> subject_of req ''/trim/'' = Inr n \<and> query_u64 req ''force'' 0 \<noteq> 0"
| "harms h_unsubscribe_route req n c \<longleftrightarrow>
     subject_of req ''/consumers/'' = Inr n \<and> query_consumer req = Inr (Some c)"
| "harms h_push_delete_route req n c \<longleftrightarrow> query_consumer req = Inr (Some c) \<and> query_u64 req ''purge'' 0 \<noteq> 0"
| "harms h req n c \<longleftrightarrow> False"

definition spares :: "(string \<Rightarrow> string \<Rightarrow> bool) \<Rightarrow> sukkal_req \<Rightarrow> bool" where
  "spares P req \<longleftrightarrow> plain_indices P req \<and>
     (\<forall>h n c. fst (route_lookup (rq_method req) (rq_path req)) = Some h \<longrightarrow> P n c \<longrightarrow> \<not> harms h req n c)"

lemma subject_of_valid: "subject_of req p = Inr s \<Longrightarrow> bjm_subject_valid s"
  by (simp add: subject_of_def Let_def split: if_splits)

lemma query_consumer_valid: "query_consumer req = Inr (Some c) \<Longrightarrow> bjm_consumer_valid c"
  by (auto simp: query_consumer_def split: query_answer.splits if_splits)

lemma unsubscribe_appends:
  assumes laws: "lib_laws L" and names: "\<And>n d. P n d \<Longrightarrow> bjm_subject_valid n"
    and spared: "\<And>n d. P n d \<Longrightarrow> \<not> harms h_unsubscribe_route req n d"
  shows "app_appends L P a (fst (h_unsubscribe L a req))"
proof (cases "subject_of req ''/consumers/''")
  case (Inr s)
  have key: "n @ ''/'' @ d \<noteq> s @ ''/'' @ c" if "P n d" "query_consumer req = Inr (Some c)" for n d c
    using spared [OF that(1)] names [OF that(1)] subject_of_valid [OF Inr] that(2) Inr
      key_inj [of n BJM_SUBJECT_MAX s d c] by (auto simp: bjm_subject_valid_def)
  have "app_appends L P a a1"
    if "query_consumer req = Inr (Some c)" "on_store a (bjm_cursor_delete L (a_store a) s c) = (a1, v)" for c a1 v
    by (rule on_appends [OF appends_cursor_delete [OF lib_lawsD(2) [OF laws] _ surjective_pairing] that(2)])
      (use key that in blast)
  with Inr show ?thesis
    by (auto simp: h_unsubscribe_def intro!: attempt_appends split: sum.split option.split)
qed (simp add: h_unsubscribe_def)

lemma tail_other:
  assumes "bjm_consumer_valid c" and "bjm_consumer_valid d" and "consumer_tail c (n @ ''/'' @ d)"
  shows "d = c"
proof -
  let ?k = "n @ ''/'' @ d" let ?i = "length ?k - length c - 1"
  have len: "length c + 1 < length ?k" and sl: "?k ! ?i = CHR ''/''" and dr: "drop (length ?k - length c) ?k = c"
    using assms(3) by (simp_all add: consumer_tail_def Let_def not_le split: if_splits)
  have "?k = take ?i ?k @ ?k ! ?i # drop (Suc ?i) ?k" using len by (intro id_take_nth_drop) simp
  moreover have "Suc ?i = length ?k - length c" using len by simp
  ultimately have "?k = take ?i ?k @ CHR ''/'' # c" by (simp only: sl dr)
  then obtain x where "n @ ''/'' @ d = x @ CHR ''/'' # c" by blast
  then have "rev (n @ ''/'' @ d) = rev (x @ CHR ''/'' # c)" by (rule arg_cong)
  then have "rev d @ CHR ''/'' # rev n = rev c @ CHR ''/'' # rev x" by simp
  moreover have "CHR ''/'' \<notin> set (rev d)" "CHR ''/'' \<notin> set (rev c)"
    using assms(1,2) name_valid_no_special(1) by (auto simp: bjm_consumer_valid_def)
  ultimately show ?thesis using append_sep_inj [of "CHR ''/''" "rev d" "rev c" "rev n" "rev x"] by simp
qed

lemma unregister_appends:
  assumes laws: "lib_laws L" and names: "\<And>n d. P n d \<Longrightarrow> bjm_consumer_valid d"
    and spared: "\<And>n d. P n d \<Longrightarrow> \<not> harms h_push_delete_route req n d"
  shows "app_appends L P a (fst (h_push_delete L a req))"
proof -
  have purge: "app_appends L P a (fst (attempt a
      (if query_u64 req ''purge'' 0 \<noteq> 0 then bjm_cursor_delete_consumer L (a_store a) c else (a_store a, Inr 0)) m
      (\<lambda>a v. (a, g v))))"
    if c: "query_consumer req = Inr (Some c)" for a c m and g :: "nat \<Rightarrow> sukkal_res"
  proof (rule attempt_appends)
    fix a1 v
    assume on: "on_store a (if query_u64 req ''purge'' 0 \<noteq> 0 then bjm_cursor_delete_consumer L (a_store a) c
        else (a_store a, Inr 0)) = (a1, v)"
    have "\<not> consumer_tail c (n @ ''/'' @ d)" if "P n d" "query_u64 req ''purge'' 0 \<noteq> 0" for n d
      using tail_other [OF query_consumer_valid [OF c] names [OF that(1)]] spared [OF that(1)] that(2) c by auto
    then have "appends L P (a_store a) (fst (if query_u64 req ''purge'' 0 \<noteq> 0
        then bjm_cursor_delete_consumer L (a_store a) c else (a_store a, Inr 0)))"
      using appends_purge [OF lib_lawsD(2) [OF laws] _ surjective_pairing] by simp
    from on_appends [OF this on] show "app_appends L P a a1" .
  qed simp
  have step: "app_appends L P a1 (fst (let a = a1\<lparr>a_push := q\<rparr> in attempt a
      (if query_u64 req ''purge'' 0 \<noteq> 0 then bjm_cursor_delete_consumer L (a_store a) c else (a_store a, Inr 0)) m
      (\<lambda>a v. (a, g v))))"
    if "query_consumer req = Inr (Some c)" for a1 q c m and g :: "nat \<Rightarrow> sukkal_res"
    using purge [OF that, of "a1\<lparr>a_push := q\<rparr>" m g] by (simp add: Let_def)
  show ?thesis
    unfolding h_push_delete_def
    by (auto split: sum.split option.split prod.split dest: op_appends(22) [OF laws]
        intro: appends_trans [OF op_appends(22) [OF laws] step] simp del: Let_def)
qed

lemma seed_appends:
  assumes laws: "lib_laws L" and plain: "plain_indices P req" and short: "short L P (a_store a)"
  shows "app_appends L P a (seed_app L a c pat e (query_u64 req ''from'' 0))"
proof -
  have safe: "safe_index P (query_u64 req ''from'' 0)" using plain by (simp add: plain_indices_def)
  show ?thesis
    using appends_seed [OF laws short safe]
    by (auto simp: seed_app_def split: prod.split)
qed

lemma push_put_appends:
  assumes laws: "lib_laws L" and plain: "plain_indices P req" and short: "short L P (a_store a)"
  shows "app_appends L P a (fst (h_push_put L a req))"
proof -
  have put: "app_appends L P a (fst (attempt a (bjm_push_set L (a_store a) c cfg) m
      (\<lambda>a v. (a\<lparr>a_push := bjm_pusher_add (a_push a) c cfg\<rparr>, r))))" for a c cfg m r
    by (rule attempt_appends) (auto dest: op_appends(21) [OF laws])
  have tail: "app_appends L P a1 (fst (let a = (if b then seed_app L a1 c pat e (query_u64 req ''from'' 0) else a1) in
      attempt a (bjm_push_set L (a_store a) c cfg) m
        (\<lambda>a v. (a\<lparr>a_push := bjm_pusher_add (a_push a) c cfg\<rparr>, r))))"
    if "short L P (a_store a1)" for a1 b c pat e cfg m r
    using put appends_trans [OF seed_appends [OF laws plain that] put] by (cases b) (simp_all add: Let_def)
  have get: "app_appends L P a a1 \<and> short L P (a_store a1)" if "on_store a (bjm_push_get L (a_store a) c) = (a1, v)" for c a1 v
  proof
    show "app_appends L P a a1" by (rule op_appends(20) [OF laws that])
    obtain st1 r1 where pg: "bjm_push_get L (a_store a) c = (st1, r1)" by (cases "bjm_push_get L (a_store a) c")
    obtain x where "st1 = (a_store a)\<lparr>st_push := x\<rparr>" using push_getD(1) [OF lib_lawsD(2) [OF laws] pg] by blast
    then have "a_store a1 = (a_store a)\<lparr>st_push := x\<rparr>" using that pg by (auto simp: on_store_def)
    then show "short L P (a_store a1)" using short view_cong [of "a_store a1" "a_store a" L] by (simp add: short_def)
  qed
  have top: "app_appends L P a (fst (attempt a (bjm_push_get L (a_store a) c) m k))"
    if "\<And>a1 v. short L P (a_store a1) \<Longrightarrow> app_appends L P a1 (fst (k a1 v))" for c m k
  proof -
    obtain a1 v where on: "on_store a (bjm_push_get L (a_store a) c) = (a1, v)"
      by (cases "on_store a (bjm_push_get L (a_store a) c)")
    note g = get [OF on]
    show ?thesis
      using on g appends_trans [OF conjunct1 [OF g] that [OF conjunct2 [OF g]]]
      by (cases v) (simp_all add: attempt_def)
  qed
  show ?thesis
    unfolding h_push_put_def
    by (simp split: sum.split option.split) (intro allI impI top tail; assumption)
qed

lemma trim_keeps:
  assumes laws: "lib_laws L" and spared: "\<And>n d. P n d \<Longrightarrow> \<not> harms h_trim_route req n d"
  shows "keeps L P (a_store a) (a_store (fst (h_trim L a req)))"
proof (cases "subject_of req ''/trim/''")
  case (Inr s)
  note ll = lib_lawsD [OF laws]
  obtain a1 i where li: "on_store a (bjm_last_index L (a_store a) s) = (a1, i)"
    by (cases "on_store a (bjm_last_index L (a_store a) s)")
  note k1 = keeps_appends [OF op_appends(2) [OF laws li, of P]]
  obtain st2 v where tr: "bjm_trim L (a_store a1) s (trim_before req i) (query_u64 req ''force'' 0 \<noteq> 0) = (st2, v)"
    by (cases "bjm_trim L (a_store a1) s (trim_before req i) (query_u64 req ''force'' 0 \<noteq> 0)")
  have k2: "keeps L P (a_store a1) st2"
    by (rule keeps_trim [OF ll(3,2) tr]) (use spared Inr in auto)
  obtain st3 j where lj: "bjm_last_index L st2 s = (st3, j)" by (cases "bjm_last_index L st2 s")
  note k3 = keeps_appends [OF appends_queries(2) [OF ll(2,3) lj, of P]]
  have "a_store (fst (h_trim L a req)) \<in> {a_store a1, st2, st3}"
    using li tr lj Inr by (cases v) (auto simp: h_trim_def on_store_def attempt_def Let_def)
  then show ?thesis using k1 keeps_trans [OF k1 k2] keeps_trans [OF keeps_trans [OF k1 k2] k3] by auto
qed (simp add: h_trim_def)

text \<open>Any request, unless it harms.\<close>

lemma dispatch_keeps:
  assumes laws: "lib_laws L" and names: "\<And>n c. P n c \<Longrightarrow> bjm_subject_valid n \<and> bjm_consumer_valid c"
    and spares: "spares P req" and short: "short L P (a_store a)" and disp: "sukkal_dispatch L a req = (a', r)"
  shows "keeps L P (a_store a) (a_store a')"
proof (cases "fst (route_lookup (rq_method req) (rq_path req))")
  case None
  then show ?thesis
    using disp by (auto simp: sukkal_dispatch_def split: prod.splits option.splits bool.splits)
next
  case (Some h)
  have plain: "plain_indices P req" and spared: "\<And>n c. P n c \<Longrightarrow> \<not> harms h req n c"
    using spares Some by (simp_all add: spares_def)
  note adds = publish_appends_only [OF laws plain] push_put_appends [OF laws plain short]
    subscribe_appends [OF laws plain short] ack_appends [OF laws plain] simple_appends [OF laws] config_appends [OF laws]
  have "keeps L P (a_store a) (a_store (fst (run_route L h a req)))"
  proof (cases h)
    case h_trim_route
    then show ?thesis using trim_keeps [OF laws] spared by simp
  next
    case h_unsubscribe_route
    then show ?thesis using unsubscribe_appends [OF laws] names spared by (simp add: keeps_appends)
  next
    case h_push_delete_route
    then show ?thesis using unregister_appends [OF laws] names spared by (simp add: keeps_appends)
  qed (use adds in \<open>simp_all add: keeps_appends h_done_def h_fail_def h_push_list_def h_subjects_def
      h_health_def Let_def split: sum.split\<close>)
  with Some disp show ?thesis by (auto simp: sukkal_dispatch_def split: prod.splits)
qed

end
