(* ===== verification/Broker.thy ===== *)
theory Broker
  imports Host Request_History
begin

text \<open>
  The broker as a whole: runs of the main loop as sequences of events, what they keep of the logs,
  the receipts and the delivery engine, and what becomes of deliveries after a restart.
\<close>

section \<open>Runs as sequences of events\<close>

fun loop_events :: "int \<Rightarrow> serve_turn list \<Rightarrow> broker_event list" where
  "loop_events last_sweep [] = []"
| "loop_events last_sweep (t # ts) =
     turn_events last_sweep t @
     (if tn_poll_ok t then loop_events (if sweep_due last_sweep t then tn_now t else last_sweep) ts else [])"

lemma serve_run_append: "serve_run L (es @ fs) x = serve_run L fs (serve_run L es x)"
  by (simp add: serve_run_def)

lemma serve_loop_run: "serve_loop L w ts x = (a', rs', rc) \<Longrightarrow> serve_run L (loop_events w ts) x = (a', rs')"
proof (induction L w ts x rule: serve_loop.induct)
  case (2 L w t ts a rs)
  obtain a1 rs1 where "serve_run L (turn_events w t) (a, rs) = (a1, rs1)"
    by (cases "serve_run L (turn_events w t) (a, rs)")
  with 2 show ?case by (auto simp: serve_run_append serve_run_def split: if_splits)
qed (simp add: serve_run_def)

section \<open>Logs and receipts\<close>

text \<open>
  An event takes nothing away from the consumers \<open>P\<close> picks out: a request that does not discard
  their receipts or ignore them, no retention pass under a policy that ignores consumers, and no
  index beyond what the encoding keeps exact.
\<close>

fun permitted ::
    "('t, 'l) lib \<Rightarrow> (string \<Rightarrow> string \<Rightarrow> bool) \<Rightarrow> broker_event \<Rightarrow> ('t, 'l) sukkal_app \<Rightarrow> bool" where
  "permitted L P (Sense clock entries) a \<longleftrightarrow> True"
| "permitted L P (Pump tick) a \<longleftrightarrow> low L P (a_store a)"
| "permitted L P (Curl tick e) a \<longleftrightarrow> (\<forall>s \<in> set (p_subs (a_push a)). safe_index P (u_last s))"
| "permitted L P (Call req) a \<longleftrightarrow> spares P (request_of req) \<and> short L P (a_store a)"
| "permitted L P (Sweep now) a \<longleftrightarrow>
     (\<forall>n p c. policy_of L (a_store a) n = Some p \<longrightarrow> p_ignore_consumers p \<longrightarrow> \<not> P n c)"

definition all_permitted ::
    "('t, 'l) lib \<Rightarrow> (string \<Rightarrow> string \<Rightarrow> bool) \<Rightarrow> broker_event list \<Rightarrow> ('t, 'l) sukkal_app \<times> sukkal_res list \<Rightarrow> bool" where
  "all_permitted L P = all_along (\<lambda>e x. permitted L P e (fst x)) (serve_event L)"

lemma keeps_event:
  assumes laws: "lib_laws L" and names: "\<And>n c. P n c \<Longrightarrow> bjm_subject_valid n \<and> bjm_consumer_valid c"
    and ok: "permitted L P e (fst x)"
  shows "keeps L P (a_store (fst x)) (a_store (fst (serve_event L e x)))"
proof -
  note ll = lib_lawsD [OF laws]
  obtain a rs where x: "x = (a, rs)" by (cases x)
  show ?thesis
  proof (cases e)
    case (Sense clock entries)
    then show ?thesis
      by (simp add: x bjm_store_set_listing_def bjm_store_set_clock_def keeps_appends)
  next
    case (Pump tick)
    obtain st p t where pump: "bjm_pusher_pump L (a_store a) (a_push a) tick = (st, p, t)"
      by (cases "bjm_pusher_pump L (a_store a) (a_push a) tick")
    from appends_pump [OF laws _ pump] ok Pump show ?thesis by (simp add: x pump keeps_appends)
  next
    case (Curl tick c)
    obtain st p where step: "curl_step L tick c (a_store a, a_push a) = (st, p)"
      by (cases "curl_step L tick c (a_store a, a_push a)")
    have "appends L P (a_store a) st"
      using step ok Curl appends_delivered [OF laws] by (cases c) (auto simp: x)
    then show ?thesis using step Curl by (simp add: x keeps_appends)
  next
    case (Call req)
    obtain a' r where disp: "sukkal_dispatch L a (request_of req) = (a', r)"
      by (cases "sukkal_dispatch L a (request_of req)")
    from dispatch_keeps [OF laws names _ _ disp] ok Call show ?thesis by (simp add: x disp on_request_def)
  next
    case (Sweep now)
    obtain st r where run: "bjm_retention_run L (a_store a) now = (st, r)"
      by (cases "bjm_retention_run L (a_store a) now")
    have "keeps L P (a_store a) st" by (rule keeps_retention [OF ll(3,2) run]) (use ok Sweep x in auto)
    with run Sweep show ?thesis by (simp add: x on_store_def)
  qed
qed

lemma keeps_run:
  assumes laws: "lib_laws L" and names: "\<And>n c. P n c \<Longrightarrow> bjm_subject_valid n \<and> bjm_consumer_valid c"
  shows "all_permitted L P es x \<Longrightarrow> keeps L P (a_store (fst x)) (a_store (fst (serve_run L es x)))"
  unfolding all_permitted_def serve_run_def
  by (rule keeps_history.run) (rule keeps_event [OF laws names])

text \<open>With nobody to spare, everything is permitted.\<close>

lemma nobody: "all_permitted L (\<lambda>_ _. False) es x"
  unfolding all_permitted_def
proof (rule all_along_true)
  show "permitted L (\<lambda>_ _. False) e (fst x)" for e and x :: "('a, 'b) sukkal_app \<times> sukkal_res list"
    by (cases e) (simp_all add: low_def short_def spares_def plain_indices_def safe_index_def)
qed

text \<open>
  C2: Messages are immutable: whatever the requests, deliveries and retention passes of a run of the
  broker, each subject's log only loses messages at its front and gains messages at its end. The base
  says how many are gone, so that every message that remains keeps its index and its content.
\<close>

theorem messages_immutable:
  assumes "lib_laws L" and "serve_loop L t0 turns (a, rs) = (a', rs', rc)"
  shows "\<exists>k extra. k \<le> length (msgs L (a_store a) n @ extra) \<and>
           msgs L (a_store a') n = drop k (msgs L (a_store a) n @ extra) \<and>
           base_of L (a_store a') n = base_of L (a_store a) n + k"
proof -
  have "keeps L (\<lambda>_ _. False) (a_store a) (a_store a')"
    using keeps_run [OF assms(1) _ nobody, of "(a, rs)" "loop_events t0 turns"] serve_loop_run [OF assms(2)] by simp
  then show ?thesis unfolding keeps_def by blast
qed

lemma msg_kept:
  assumes "msgs L st' n = drop k (msgs L st n @ extra)" and "base_of L st' n = base_of L st n + k"
    and "base_of L st' n < i" and "msg_at L st n i = Some m"
  shows "msg_at L st' n i = Some m"
proof -
  have i: "base_of L st n < i" "i \<le> base_of L st n + length (msgs L st n)" "m = msgs L st n ! (i - base_of L st n - 1)"
    using assms(2-4) by (auto simp: msg_at_def Let_def split: if_splits)
  then have at: "i - base_of L st n - 1 < length (msgs L st n)" by simp
  let ?es = "msgs L st n @ extra"
  have k: "k \<le> length ?es" and bound: "i \<le> base_of L st' n + length (msgs L st' n)"
    using assms(1-3) i by simp_all
  have "msgs L st' n ! (i - base_of L st' n - 1) = ?es ! (k + (i - base_of L st' n - 1))"
    unfolding assms(1) using k by (rule nth_drop)
  also have "k + (i - base_of L st' n - 1) = i - base_of L st n - 1" using assms(2,3) by simp
  also have "?es ! (i - base_of L st n - 1) = m" using i at by (simp add: nth_append)
  finally show ?thesis using assms(3) bound by (simp add: msg_at_def Let_def)
qed

text \<open>
  C1: A consumer loses nothing it has not acknowledged: in any run of the broker in which nobody
  discards its receipt, forces a trim of its subject or lets retention ignore consumers there, its
  receipt stays and never moves back, and every message beyond the receipt is still in the log,
  unchanged, at its index.
\<close>

theorem consumer_loses_nothing:
  assumes "lib_laws L" and "bjm_subject_valid s" and "bjm_consumer_valid c"
    and "serve_loop L t0 turns (a, rs) = (a', rs', rc)"
    and "all_permitted L (\<lambda>n d. n = s \<and> d = c) (loop_events t0 turns) (a, rs)"
    and "receipt L (a_store a) s c = Some j" and "base_of L (a_store a) s \<le> unat j"
  shows "\<exists>j'. receipt L (a_store a') s c = Some j' \<and> j \<le> j' \<and> base_of L (a_store a') s \<le> unat j' \<and>
           (\<forall>i m. unat j' < i \<longrightarrow> msg_at L (a_store a) s i = Some m \<longrightarrow> msg_at L (a_store a') s i = Some m)"
proof -
  let ?P = "\<lambda>n d. n = s \<and> d = c"
  have "keeps L ?P (a_store a) (a_store a')"
    using keeps_run [OF assms(1) _ assms(5)] serve_loop_run [OF assms(4)] assms(2,3) by simp
  from this [unfolded keeps_def, THEN spec, of s] assms(6) obtain k extra
    where k: "msgs L (a_store a') s = drop k (msgs L (a_store a) s @ extra)"
      "base_of L (a_store a') s = base_of L (a_store a) s + k"
      "\<exists>j'. receipt L (a_store a') s c = Some j' \<and> j \<le> j' \<and> (k > 0 \<longrightarrow> base_of L (a_store a') s \<le> unat j')"
    by (elim exE conjE) blast
  then obtain j' where j': "receipt L (a_store a') s c = Some j'" "j \<le> j'"
      "k > 0 \<longrightarrow> base_of L (a_store a') s \<le> unat j'" by blast
  then have "base_of L (a_store a') s \<le> unat j'"
    using k(2) assms(7) by (cases "k > 0") (auto simp: word_le_nat_alt)
  with j' msg_kept [OF k(1,2)] show ?thesis by (intro exI [of _ j']) auto
qed

section \<open>The delivery engine\<close>

text \<open>
  libcurl reports as done only what it was given: a transfer of a subscription with a delivery in
  flight.
\<close>

fun reports_inflight :: "broker_event \<Rightarrow> pusher \<Rightarrow> bool" where
  "reports_inflight (Curl tick (Curl_done sub rc status err)) p \<longleftrightarrow>
     list_ex (\<lambda>s. u_id s = sub \<and> u_inflight s) (p_subs p)"
| "reports_inflight _ p \<longleftrightarrow> True"

definition all_inflight :: "('t, 'l) lib \<Rightarrow> broker_event list \<Rightarrow> ('t, 'l) sukkal_app \<times> sukkal_res list \<Rightarrow> bool" where
  "all_inflight L = all_along (\<lambda>e x. reports_inflight e (a_push (fst x))) (serve_event L)"

text \<open>Each event is a step of the engine, or several calls of a request.\<close>

lemma event_engine:
  assumes "serve_event L e (a, rs) = (a', rs')" and "reports_inflight e (a_push a)"
  shows "engine_calls (a_push a) (a_push a') \<or> engine_step L (a_store a, a_push a) (a_store a', a_push a')"
proof (cases e)
  case (Sense clock entries)
  with assms(1) show ?thesis by (auto intro: engine_calls.none)
next
  case (Pump tick)
  with assms(1) show ?thesis by (auto split: prod.splits intro: engine_step.pump)
next
  case (Curl tick c)
  show ?thesis
  proof (cases c)
    case (Curl_done sub rc status err)
    then obtain s where s: "s \<in> set (p_subs (a_push a))" "u_id s = sub" "u_inflight s"
      using assms(2) Curl by (auto simp: list_ex_iff)
    obtain st p where del: "bjm_pusher_delivered L (a_store a) (a_push a) sub (rc = CURLE_OK)
        (if rc = CURLE_OK then status else 0) (if rc = CURLE_OK then None else Some err) tick = (st, p)"
      by (cases "bjm_pusher_delivered L (a_store a) (a_push a) sub (rc = CURLE_OK)
        (if rc = CURLE_OK then status else 0) (if rc = CURLE_OK then None else Some err) tick")
    from engine_step.delivered [OF s(1,3), unfolded s(2), OF del] show ?thesis
      using assms(1) Curl Curl_done del by auto
  qed (use assms(1) Curl in \<open>auto intro: engine_step.header engine_step.body\<close>)
next
  case (Call req)
  then obtain r where "sukkal_dispatch L a (request_of req) = (a', r)"
    using assms(1) by (auto simp: on_request_def split: prod.splits)
  then show ?thesis using dispatch_stretch [of L a "request_of req" a' r] by (auto simp: stretch_def heard_by_def)
next
  case (Sweep now)
  then have "a' = fst (on_store a (bjm_retention_run L (a_store a) now))" using assms(1) by auto
  then show ?thesis
    using heard_hear by (auto simp: on_store_def heard_by_def split: prod.split)
qed

lemma event_inv:
  assumes "serve_event L e (a, rs) = (a', rs')" and "reports_inflight e (a_push a)" and "engine_inv (a_push a)"
  shows "engine_inv (a_push a')"
  using event_engine [OF assms(1,2)] engine_calls_inv [of "a_push a" "a_push a'"]
    engine_step_inv [of L "(a_store a, a_push a)" "(a_store a', a_push a')"] assms(3) by auto

lemma broker_run_inv:
  "all_inflight L es x \<Longrightarrow> engine_inv (a_push (fst x)) \<Longrightarrow> engine_inv (a_push (fst (serve_run L es x)))"
  unfolding all_inflight_def serve_run_def
proof (rule invariants.run [THEN mp])
  fix e and x :: "('a, 'b) sukkal_app \<times> sukkal_res list"
  assume "reports_inflight e (a_push (fst x))"
  then show "engine_inv (a_push (fst x)) \<longrightarrow> engine_inv (a_push (fst (serve_event L e x)))"
    using event_inv [of L e "fst x" "snd x"] by (cases "serve_event L e x") simp
qed

lemma start_parts:
  assumes "serve_start L opened w t (multi, easy, add) backend conns = Some a"
  obtains st st' p where "bjm_pusher_new L st SUKKAL_DEFAULT_BATCH = (st', Some p)"
    and "a_push a = p\<lparr>p_xfer := curl_transport easy add\<rparr>"
  using assms
  by (auto simp: serve_start_def Let_def bjm_push_curl_new_def bjm_pusher_set_transport_def
      split: option.splits prod.splits if_splits)

text \<open>
  C19: The delivery engine stays consistent as long as the broker runs: from its start on, whatever
  the requests and the responses, every subscription has an address of its own, the counter counts the
  deliveries in flight, and a deleted subscription is kept only while its delivery is in flight.
\<close>

theorem broker_engine_consistent:
  assumes "serve_start L opened w t (multi, easy, add) backend conns = Some a"
    and "serve_loop L t0 turns (a, []) = (a', rs, rc)"
    and "all_inflight L (loop_events t0 turns) (a, [])"
  shows "distinct (map u_id (p_subs (a_push a'))) \<and>
         p_inflight (a_push a') = int (length (filter u_inflight (p_subs (a_push a')))) \<and>
         (\<forall>s \<in> set (p_subs (a_push a')). u_gone s \<longrightarrow> u_inflight s)"
proof -
  have "engine_inv (a_push a)" using start_parts [OF assms(1)] new_inv by (metis inv_work(3))
  with broker_run_inv [OF assms(3)] serve_loop_run [OF assms(2)] have "engine_inv (a_push a')" by simp
  then show ?thesis by (simp add: engine_inv_def list_all_iff)
qed

section \<open>After a restart\<close>

text \<open>Nothing is connected and nothing has been sent.\<close>

definition fresh :: "pusher \<Rightarrow> bool" where
  "fresh p \<longleftrightarrow> p_xfer p = no_transport \<and> p_sent p = [] \<and> list_all (\<lambda>s. u_conn s = None) (p_subs p)"

lemma fresh_names: "fresh (nm_string e p) = fresh p"
  by (cases e) (simp_all add: fresh_def names_add_def)

lemma fresh_load: "fresh p \<Longrightarrow> fresh (fst (load_one p c cfg))"
  by (simp add: fresh_def load_one_def psub_new_def no_transport_def)

lemma fresh_walk: "fresh p \<Longrightarrow> push_walk L load_one es p = (p', b) \<Longrightarrow> fresh p'"
proof (induction es arbitrary: p)
  case (Cons e es)
  obtain k v where e: "e = (k, v)" by (cases e)
  show ?case
    using Cons.prems Cons.IH fresh_load [OF Cons.prems(1)]
    by (auto simp: e load_one_def split: if_splits sum.splits)
qed simp

lemma fresh_new:
  assumes "bjm_pusher_new L st b = (st', Some p)"
  shows "fresh p"
proof -
  define p0 where "p0 = \<lparr>p_xfer = no_transport, p_subs = [], p_names = [], p_work = False, p_inflight = 0,
     p_default_batch = (if b \<noteq> 0 then b else PUSH_DEFAULT_BATCH_BYTES),
     p_next_id = 0, p_sent = [], p_closed = []\<rparr>"
  have "fresh (fold nm_string evs p0)" for evs
  proof -
    have "fresh q \<Longrightarrow> fresh (fold nm_string evs q)" for q
      by (induction evs arbitrary: q) (simp_all add: fresh_names)
    then show ?thesis by (simp add: fresh_def p0_def)
  qed
  then have names: "names_load L st p0 = Inr p1 \<Longrightarrow> fresh p1" for p1
    by (auto simp: names_load_def split: sum.splits)
  obtain p1 st1 p2 where "names_load L st p0 = Inr p1" "bjm_push_each L st load_one p1 = (st1, p2, Inr ())"
      "p = p2\<lparr>p_work := True\<rparr>"
    using assms by (auto simp: bjm_pusher_new_def p0_def [symmetric] Let_def split: sum.splits prod.splits)
  moreover from this names have "fresh p2"
    using fresh_walk by (fastforce simp: bjm_push_each_def split: prod.splits sum.splits option.splits)
  ultimately show ?thesis by (simp add: fresh_def)
qed

text \<open>
  The subscriptions numbered below \<open>N\<close> have no connection, and nothing has been sent for them.
\<close>

definition mute :: "nat option \<Rightarrow> (string \<Rightarrow> string list \<Rightarrow> bytes \<Rightarrow> bool) \<Rightarrow> nat \<Rightarrow> pusher \<Rightarrow> bool" where
  "mute easy add N p \<longleftrightarrow>
     p_xfer p = curl_transport easy add \<and> N \<le> p_next_id p \<and>
     list_all (\<lambda>s. u_id s < N \<longrightarrow> u_conn s = None) (p_subs p) \<and> list_all (\<lambda>e. N \<le> fst e) (p_sent p)"

lemma mute_frame:
  assumes "mute easy add N p" and "p_xfer q = p_xfer p" and "p_next_id q = p_next_id p" and "p_sent q = p_sent p"
    and "\<And>s. s \<in> set (p_subs q) \<Longrightarrow> \<exists>u \<in> set (p_subs p). u_id u = u_id s \<and> u_conn u = u_conn s"
  shows "mute easy add N q"
  using assms by (fastforce simp: mute_def list_all_iff)

lemma mute_sub:
  assumes "mute easy add N p" and "i < length (p_subs p)"
    and "u_id s = u_id (p_subs p ! i)" and "u_conn s = u_conn (p_subs p ! i)"
    and "p_xfer q = p_xfer p" and "p_next_id q = p_next_id p" and "p_sent q = p_sent p"
    and "p_subs q = (p_subs p)[i := s]"
  shows "mute easy add N q"
proof (rule mute_frame [OF assms(1,5,6,7)])
  fix t assume "t \<in> set (p_subs q)"
  then have "t = s \<or> t \<in> set (p_subs p)" using assms(8) set_update_subset_insert by fastforce
  then show "\<exists>u \<in> set (p_subs p). u_id u = u_id t \<and> u_conn u = u_conn t" using assms(2-4) by (metis nth_mem)
qed

lemma mute_swap_out:
  assumes "mute easy add N p" and "i < length (p_subs p)"
    and "p_xfer q = p_xfer p" and "p_next_id q = p_next_id p" and "p_sent q = p_sent p"
    and "p_subs q = swap_out i (p_subs p)"
  shows "mute easy add N q"
proof (rule mute_frame [OF assms(1,3,4,5)])
  fix s assume "s \<in> set (p_subs q)"
  then have "s \<in># mset (p_subs p)" using mset_swap_out [OF assms(2)] assms(6) by (metis in_diffD set_mset_mset)
  then show "\<exists>u \<in> set (p_subs p). u_id u = u_id s \<and> u_conn u = u_conn s" by auto
qed

lemma psub_free_more: "p_xfer (psub_free p s) = p_xfer p" "p_sent (psub_free p s) = p_sent p"
  by (simp_all add: psub_free_def split: option.split)

lemma mute_calls: "engine_calls p q \<Longrightarrow> mute easy add N p \<Longrightarrow> mute easy add N q"
proof (induction rule: engine_calls.induct)
  case (added p q c cfg)
  note q = added.IH [OF added.prems]
  show ?case
  proof (cases "position (\<lambda>s. \<not> u_gone s \<and> u_consumer s = c) (p_subs q)")
    case None
    with q show ?thesis by (auto simp: bjm_pusher_add_def load_one_def psub_new_def psub_zero_def mute_def)
  next
    case (Some i)
    with mute_sub [OF q, of i "(p_subs q ! i)\<lparr>u_cfg := cfg\<rparr>"] position_less [OF Some] show ?thesis
      by (simp add: bjm_pusher_add_def)
  qed
next
  case (removed p q c)
  note q = removed.IH [OF removed.prems]
  show ?case
  proof (cases "position (\<lambda>s. u_consumer s = c) (p_subs q)")
    case (Some i)
    note i = position_less [OF Some, THEN conjunct1]
    show ?thesis
      using Some mute_sub [OF q i, of "(p_subs q ! i)\<lparr>u_gone := True\<rparr>"] mute_swap_out [OF q i]
      by (simp add: bjm_pusher_remove_def Let_def psub_free_frame psub_free_more)
  qed (use q in \<open>simp add: bjm_pusher_remove_def\<close>)
qed (simp_all add: mute_def bjm_pusher_notify_def names_add_def)

lemma mute_pump:
  assumes "mute easy add N p" and "bjm_pusher_pump L st p now = (st', p', t)"
  shows "mute easy add N p'"
proof -
  let ?n = "length (p_subs p)"
  obtain D p1 where pd: "pumped now ?n p p1 D" and p': "p' = p1 \<or> p' = p1\<lparr>p_work := False\<rparr>"
    using pump_pumped [OF assms(2)] by blast
  obtain E where E: "p_sent p1 = p_sent p @ E" "list_all2 (handed p) D E" and D: "set D \<subseteq> {..<?n}"
    using pd by (auto simp: pumped_def)
  have sent: "N \<le> fst e" if e: "e \<in> set E" for e
  proof -
    obtain j where j: "j \<in> set D" "handed p j e"
      using E(2) e by (metis in_set_conv_nth list_all2_conv_all_nth)
    then have "j < ?n" "fst e = u_id (p_subs p ! j)" "u_conn (p_subs p ! j) \<noteq> None"
      using D assms(1)
      by (auto simp: handed_def mute_def curl_transport_def t_send_def split: prod.splits option.splits)
    then show ?thesis using assms(1) by (auto simp: mute_def list_all_length not_less)
  qed
  have subs: "u_id (p_subs p1 ! j) = u_id (p_subs p ! j)" "u_conn (p_subs p1 ! j) = u_conn (p_subs p ! j)"
    if "j < ?n" for j
    using pd that by (auto simp: pumped_def served_def same_sub_def)
  have "list_all (\<lambda>e. N \<le> fst e) (p_sent p1)"
    using assms(1) E(1) sent by (auto simp: mute_def list_all_iff)
  moreover have "list_all (\<lambda>s. u_id s < N \<longrightarrow> u_conn s = None) (p_subs p1)"
    using assms(1) pd subs by (simp add: mute_def pumped_def list_all_length)
  ultimately have "mute easy add N p1" using assms(1) pd by (simp add: mute_def pumped_def)
  with p' show ?thesis by (auto simp: mute_def)
qed

lemma mute_finish:
  assumes p: "mute easy add N p" and i: "i < length (p_subs p)"
    and fin: "finish L st p i reached status err now = (st', p')"
  shows "mute easy add N p'"
proof (cases "u_gone (p_subs p ! i)")
  case True
  with fin mute_swap_out [OF p i] show ?thesis by (auto simp: finish_def Let_def psub_free_frame psub_free_more)
next
  case False
  define s where "s = (p_subs p ! i)\<lparr>u_inflight := False\<rparr>"
  obtain st1 s1 b where f: "(if ps_group (u_cfg s) \<noteq> [] then finish_jobs L st s reached status err now
       else finish_batch L st s reached status err now) = (st1, s1, b)"
    by (metis prod_cases3)
  then have s1: "u_id s1 = u_id s" "u_conn s1 = u_conn s"
    using finish_jobs_frame finish_batch_frame by (metis (no_types, lifting))+
  have "p' = p\<lparr>p_inflight := p_inflight p - 1, p_subs := (p_subs p)[i := s1], p_work := b \<or> p_work p\<rparr>"
    using fin False f by (auto simp: finish_def s_def Let_def split: if_splits)
  with s1 mute_sub [OF p i, of s1] show ?thesis by (simp add: s_def)
qed

lemma mute_on_sub:
  assumes "mute easy add N p" and "\<And>s. u_id (f s) = u_id s \<and> u_conn (f s) = u_conn s"
  shows "mute easy add N (on_sub p i f)"
  by (rule mute_frame [OF assms(1)]) (use assms(2) in \<open>fastforce simp: on_sub_def\<close>)+

lemma mute_curl:
  assumes "mute easy add N p" and "curl_step L now e (st, p) = (st', p')"
  shows "mute easy add N p'"
proof (cases e)
  case (Curl_header sub line)
  with assms(2) mute_on_sub [OF assms(1), of "\<lambda>s. on_hdr s line" sub] show ?thesis
    by (simp add: bjm_pusher_on_header_def on_hdr_def Let_def)
next
  case (Curl_body sub d)
  with assms(2) mute_on_sub [OF assms(1), of "\<lambda>s. on_body s d" sub] show ?thesis
    by (simp add: bjm_pusher_on_body_def on_body_def)
next
  case (Curl_done sub rc status err)
  show ?thesis
  proof (cases "position (\<lambda>s. u_id s = sub) (p_subs p)")
    case None
    with assms Curl_done show ?thesis by (simp add: bjm_pusher_delivered_def)
  next
    case (Some i)
    from mute_finish [OF assms(1) position_less [OF Some, THEN conjunct1]] assms(2) Curl_done Some
    show ?thesis by (simp add: bjm_pusher_delivered_def)
  qed
qed

lemma mute_event:
  assumes "mute easy add N (a_push a)" and "serve_event L e (a, rs) = (a', rs')"
  shows "mute easy add N (a_push a')"
proof (cases e)
  case (Call req)
  then obtain r where "sukkal_dispatch L a (request_of req) = (a', r)"
    using assms(2) by (auto simp: on_request_def split: prod.splits)
  then show ?thesis
    using dispatch_stretch [of L a "request_of req" a' r] mute_calls [OF _ assms(1)]
    by (auto simp: stretch_def heard_by_def)
next
  case (Sweep now)
  then have "a' = fst (on_store a (bjm_retention_run L (a_store a) now))" using assms(2) by auto
  then show ?thesis
    using heard_hear mute_calls [OF _ assms(1)] by (auto simp: on_store_def heard_by_def split: prod.split)
qed (use assms in \<open>auto split: prod.splits intro: mute_pump mute_curl\<close>)

lemma mute_run: "mute easy add N (a_push (fst x)) \<Longrightarrow> mute easy add N (a_push (fst (serve_run L es x)))"
  unfolding serve_run_def
proof (rule invariants.run_free [THEN mp])
  show "mute easy add N (a_push (fst x)) \<longrightarrow> mute easy add N (a_push (fst (serve_event L e x)))" for e x
    using mute_event [of easy add N "fst x" L e "snd x"] by (cases "serve_event L e x") simp
qed

text \<open>
  C20: A broker that has been restarted delivers nothing to the subscriptions it finds: the engine
  loads them before it has a transport, libcurl is never handed a transfer for any of them, and no
  request changes that, not even registering the same consumer again.
\<close>

theorem restart_delivers_nothing:
  assumes "serve_start L opened w t (multi, easy, add) backend conns = Some a"
    and "serve_loop L t0 turns (a, []) = (a', rs, rc)"
  shows "u_id ` set (p_subs (a_push a)) \<inter> fst ` set (p_sent (a_push a')) = {}"
proof -
  obtain st st' p where p: "bjm_pusher_new L st SUKKAL_DEFAULT_BATCH = (st', Some p)"
      "a_push a = p\<lparr>p_xfer := curl_transport easy add\<rparr>"
    using start_parts [OF assms(1)] .
  have ids: "\<forall>s \<in> set (p_subs p). u_id s < p_next_id p"
    using new_inv [OF p(1)] by (simp add: engine_inv_def list_all_iff)
  have "mute easy add (p_next_id p) (a_push a)"
    using fresh_new [OF p(1)] by (simp add: p(2) fresh_def mute_def list_all_iff)
  from mute_run [of easy add "p_next_id p" "(a, [])" L "loop_events t0 turns"] this serve_loop_run [OF assms(2)]
  have "mute easy add (p_next_id p) (a_push a')" by simp
  then have "\<forall>e \<in> set (p_sent (a_push a')). p_next_id p \<le> fst e" by (simp add: mute_def list_all_iff)
  with ids p(2) show ?thesis by fastforce
qed

end
