(* ===== verification/Broker_Runs.thy ===== *)
theory Broker_Runs
  imports Broker Server_Runs Push_Runs
begin

text \<open>
  Concrete runs of the broker's loop, on the reference library: each property of theory Broker applied
  where its hypotheses hold.
\<close>

section \<open>A turn with one request\<close>

definition post :: "string \<Rightarrow> bytes \<Rightarrow> http_request" where
  "post path body =
     \<lparr>hr_method = ''POST'', hr_path = path, hr_body = body,
      hr_content_type = (\<lambda>_. Some SUKKAL_MEDIA_TYPE), hr_query_get = sukkal_query_from_string None\<rparr>"

definition publish_turn :: serve_turn where
  "publish_turn =
     \<lparr>tn_clock = 100, tn_entries = Some [], tn_tick = 100, tn_curl = [],
      tn_calls = [(100, Some [], post ''/pub/a'' null_value)], tn_poll_ok = True, tn_now = 0\<rparr>"

lemma publish_turn_events:
  "loop_events 0 [publish_turn] =
     [Sense 100 (Some []), Pump 100, Sense 100 (Some []), Call (post ''/pub/a'' null_value)]"
  by (simp add: publish_turn_def turn_events_def sweep_due_def RETENTION_SWEEP_SECS_def)

theorem messages_immutable_witness:
  "\<exists>k extra. msgs ref_lib (a_store (fst (serve_loop ref_lib 0 [publish_turn] (broker_at trim_run, [])))) ''a'' =
     drop k (msgs ref_lib trim_run ''a'' @ extra)"
proof -
  obtain a' rs rc where run: "serve_loop ref_lib 0 [publish_turn] (broker_at trim_run, []) = (a', rs, rc)"
    by (rule prod_cases3)
  from messages_immutable [OF ref_lib_laws run, of "''a''"] run show ?thesis
    by (auto simp: broker_at_def)
qed

section \<open>A consumer while somebody publishes\<close>

lemma ref_store_empty [simp]: "base_of ref_lib (ref_store now) n = 0" "msgs ref_lib (ref_store now) n = []"
  by (simp_all add: base_of_def msgs_def log_of_def find_sub_def ref_store_def bjm_store_open_ns_def)

lemma trim_run_logs: "base_of ref_lib trim_run n + length (msgs ref_lib trim_run n) \<le> 2"
proof -
  note ll = lib_lawsD [OF ref_lib_laws]
  obtain st1 r1 where p1: "bjm_publish ref_lib (ref_store 100) ''a'' 1 [7] = (st1, r1)"
    by (cases "bjm_publish ref_lib (ref_store 100) ''a'' 1 [7]")
  obtain st2 r2 where p2: "bjm_publish ref_lib st1 ''a'' 1 [8] = (st2, r2)" by (cases "bjm_publish ref_lib st1 ''a'' 1 [8]")
  have two: "pub_run = st2" by (simp add: pub_run_def p1 p2)
  note l1 = publish_logs [OF ll(3,2) p1]
  note l2 = publish_logs [OF ll(3,2) p2]
  have "base_of ref_lib pub_run n = 0" "length (msgs ref_lib pub_run n) \<le> 2"
    using l1(1,2,5) l2(1,2,5) by (cases "n = ''a''"; auto simp: two)+
  then show ?thesis
    using cursor_set_logs [OF ll(2) surjective_pairing, of pub_run "''a''" "''c''" 1 n] by (simp add: trim_run_def)
qed

theorem consumer_loses_nothing_witness:
  "\<exists>j. receipt ref_lib (a_store (fst (serve_loop ref_lib 0 [publish_turn] (broker_at trim_run, [])))) ''a'' ''c'' = Some j \<and>
     1 \<le> j"
proof -
  let ?P = "\<lambda>n d. n = ''a'' \<and> d = ''c''" and ?req = "post ''/pub/a'' null_value"
  let ?a = "broker_at trim_run"
  obtain a' rs rc where run: "serve_loop ref_lib 0 [publish_turn] (?a, []) = (a', rs, rc)"
    by (rule prod_cases3)
  have valid: "bjm_subject_valid ''a''" "bjm_consumer_valid ''c''" by code_simp+
  have rec: "receipt ref_lib (a_store ?a) ''a'' ''c'' = Some 1" "base_of ref_lib (a_store ?a) ''a'' \<le> unat (1 :: u64)"
    by code_simp+
  let ?st = "bjm_store_set_listing (bjm_store_set_clock trim_run (Some 100)) (Some (posix_listing (Some [])))"
  have short: "short ref_lib ?P st" if "st_subs st = st_subs trim_run" "st_files st = st_files trim_run" for st
  proof -
    have "base_of ref_lib st n + length (msgs ref_lib st n) \<le> 2 ^ 53" for n
      using view_cong [OF that, of ref_lib n] trim_run_logs [of n] by simp
    then show ?thesis by (simp only: short_def) blast
  qed
  have "list_all (\<lambda>k. query_u64 (request_of ?req) k 0 = 0) [''ack'', ''ack_index'', ''index'', ''from'']"
    "fst (route_lookup (rq_method (request_of ?req)) (rq_path (request_of ?req))) = Some h_publish_route"
    by code_simp+
  then have "spares ?P (request_of ?req)" by (simp add: spares_def plain_indices_def)
  then have "all_permitted ref_lib ?P (loop_events 0 [publish_turn]) (?a, [])"
    unfolding publish_turn_events all_permitted_def
    using short_low [OF short]
    by (simp add: bjm_pusher_pump_def broker_at_def bjm_store_set_listing_def bjm_store_set_clock_def short)
  from consumer_loses_nothing [OF ref_lib_laws valid run this rec] run show ?thesis by auto
qed

section \<open>A broker that finds a registration\<close>

definition registered :: "(rtree, rlog) store" where
  "registered = fst (bjm_push_set ref_lib push_store ''c'' a_sub)"

definition start_again :: "(rtree, rlog) sukkal_app option" where
  "start_again = serve_start ref_lib (Some registered) 0 100 (True, Some 1, \<lambda>_ _ _. True) None None"

lemma start_again_some: "\<exists>a. start_again = Some a \<and> length (p_subs (a_push a)) = 1"
proof -
  have "map_option (\<lambda>a. length (p_subs (a_push a))) start_again = Some 1" by code_simp
  then show ?thesis by auto
qed

theorem broker_engine_consistent_witness:
  "\<exists>a. start_again = Some a \<and>
     distinct (map u_id (p_subs (a_push (fst (serve_loop ref_lib 0 [publish_turn] (a, []))))))"
proof -
  obtain a where a: "start_again = Some a" using start_again_some by blast
  obtain a' rs rc where run: "serve_loop ref_lib 0 [publish_turn] (a, []) = (a', rs, rc)" by (rule prod_cases3)
  have "all_inflight ref_lib (loop_events 0 [publish_turn]) (a, [])" by (simp only: publish_turn_events all_inflight_def) simp
  from broker_engine_consistent [OF a [unfolded start_again_def] run this] a show ?thesis
    by (intro exI [of _ a]) (simp only: run fst_conv)
qed

theorem restart_delivers_nothing_witness:
  "\<exists>a. start_again = Some a \<and> p_subs (a_push a) \<noteq> [] \<and>
     u_id ` set (p_subs (a_push a)) \<inter>
     fst ` set (p_sent (a_push (fst (serve_loop ref_lib 0 [publish_turn, publish_turn] (a, []))))) = {}"
proof -
  obtain a where a: "start_again = Some a" "length (p_subs (a_push a)) = 1" using start_again_some by blast
  obtain a' rs rc where run: "serve_loop ref_lib 0 [publish_turn, publish_turn] (a, []) = (a', rs, rc)"
    by (rule prod_cases3)
  have "p_subs (a_push a) \<noteq> []" using a(2) by auto
  with restart_delivers_nothing [OF a(1) [unfolded start_again_def] run] a show ?thesis
    by (intro exI [of _ a]) (simp only: run fst_conv simp_thms)
qed

end
