(* ===== verification/Dead_Listing.thy ===== *)
theory Dead_Listing
  imports Receivers
begin

text \<open>
  The \<open>dead\<close> command (\<open>src/src/client.c\<close>): how it shows a dead-letter channel, one line per job a group
  gave up on. What is printed of a body, or of an envelope, before its decoding fails is left out.
\<close>

section \<open>One envelope\<close>

record dead_scan =
  ds_key :: string
  ds_group :: string
  ds_index :: u64
  ds_attempts :: u64
  ds_line :: "string option"

definition dead_scan_zero :: dead_scan where
  "dead_scan_zero = \<lparr>ds_key = [], ds_group = [], ds_index = 0, ds_attempts = 0, ds_line = None\<rparr>"

definition shown :: "('t, 'l) cli_env \<Rightarrow> bytes \<Rightarrow> string" where
  "shown env payload =
     (case bjm_render (env_lib env) (env_float env) payload of
        Inr s \<Rightarrow> s
      | Inl _ \<Rightarrow> env_front env payload @ ''<undecodable>'')"

definition dead_line :: "('t, 'l) cli_env \<Rightarrow> u64 \<Rightarrow> string \<Rightarrow> u64 \<Rightarrow> u64 \<Rightarrow> bytes \<Rightarrow> string" where
  "dead_line env dlq_index grp index attempts payload =
     dec_signed (sint dlq_index) @ CHR 0x09 # grp @ CHR 0x09 # ''orig='' @ dec_signed (sint index) @
     CHR 0x09 # ''attempts='' @ dec_signed (sint attempts) @ CHR 0x09 # shown env payload @ [CHR 0x0A]"

fun d_step :: "('t, 'l) cli_env \<Rightarrow> u64 \<Rightarrow> ev \<Rightarrow> dead_scan \<Rightarrow> dead_scan" where
  "d_step env dlq_index (EKey k) s = s\<lparr>ds_key := grab_key 16 k\<rparr>"
| "d_step env dlq_index (EStr v) s =
     (if ds_key s \<noteq> ''group'' then s else s\<lparr>ds_group := grab_key (BJM_GROUP_MAX + 1) v\<rparr>)"
| "d_step env dlq_index (EInt v) s =
     (if ds_key s = ''index'' then s\<lparr>ds_index := v\<rparr>
      else if ds_key s = ''attempts'' then s\<lparr>ds_attempts := v\<rparr> else s)"
| "d_step env dlq_index (EBin b) s =
     (if ds_key s \<noteq> ''payload'' \<or> ds_line s \<noteq> None then s
      else s\<lparr>ds_line := Some (dead_line env dlq_index (ds_group s) (ds_index s) (ds_attempts s) b)\<rparr>)"
| "d_step env dlq_index e s = s"

definition d_envelope :: "('t, 'l) cli_env \<Rightarrow> u64 \<Rightarrow> bytes \<Rightarrow> string" where
  "d_envelope env dlq_index b =
     (case (case bj_decode (env_lib env) b of
              Inl _ \<Rightarrow> None
            | Inr evs \<Rightarrow> ds_line (fold (d_step env dlq_index) evs dead_scan_zero)) of
        Some l \<Rightarrow> l
      | None \<Rightarrow> dec_signed (sint dlq_index) @ CHR 0x09 # ''<not a dead-letter envelope>'' @ [CHR 0x0A])"

section \<open>The channel\<close>

record dead_outer =
  dk_key :: string
  dk_index :: u64
  dk_lines :: "string list"

fun o_step :: "('t, 'l) cli_env \<Rightarrow> ev \<Rightarrow> dead_outer \<Rightarrow> dead_outer" where
  "o_step env (EKey k) s = s\<lparr>dk_key := grab_key 16 k\<rparr>"
| "o_step env (EInt v) s = (if dk_key s = ''index'' then s\<lparr>dk_index := v\<rparr> else s)"
| "o_step env (EBin b) s = s\<lparr>dk_lines := dk_lines s @ [d_envelope env (dk_index s) b]\<rparr>"
| "o_step env e s = s"

text \<open>The exit code and the lines, for the answer to the command's request.\<close>

definition dead_run :: "('t, 'l) cli_env \<Rightarrow> int \<Rightarrow> turn list \<Rightarrow> (int \<times> string list) option" where
  "dead_run env retry_ms turns =
     (case client_perform (client_init retry_ms) turns of
        (c, None) \<Rightarrow> None
      | (c, Some (status, _)) \<Rightarrow>
          Some (if status \<noteq> 200 then (1, [])
                else
                  (case bj_decode (env_lib env) (c_body c) of
                     Inl _ \<Rightarrow> (1, [])
                   | Inr evs \<Rightarrow>
                       (0, dk_lines (fold (o_step env) evs \<lparr>dk_key = [], dk_index = 0, dk_lines = []\<rparr>)))))"

section \<open>What it shows\<close>

text \<open>A buried job: subject, group, index, attempts, when, type and payload.\<close>

type_synonym buried = "string \<times> string \<times> u64 \<times> u64 \<times> u64 \<times> int \<times> bytes"

fun buried_as :: "('t, 'l) cli_env \<Rightarrow> int \<times> bytes \<Rightarrow> buried \<Rightarrow> bool" where
  "buried_as env (ety, b) (s, g, i, a, n, ty, p) \<longleftrightarrow>
     bj_decode (env_lib env) b = Inr (dead_envelope s g i a n ty p) \<and> bjm_group_valid g"

fun buried_line :: "('t, 'l) cli_env \<Rightarrow> u64 \<Rightarrow> buried \<Rightarrow> string" where
  "buried_line env at_ix (s, g, i, a, n, ty, p) = dead_line env at_ix g i a p"

lemma dead_keys:
  "grab_key 16 ''subject'' = ''subject''" "grab_key 16 ''group'' = ''group''" "grab_key 16 ''index'' = ''index''"
  "grab_key 16 ''attempts'' = ''attempts''" "grab_key 16 ''failed_ms'' = ''failed_ms''"
  "grab_key 16 ''type'' = ''type''" "grab_key 16 ''payload'' = ''payload''" "grab_key 16 ''term'' = ''term''"
  by code_simp+

lemma group_whole:
  assumes "bjm_group_valid g"
  shows "grab_key (BJM_GROUP_MAX + 1) g = g"
proof -
  have "CHR 0x00 \<notin> set g" "length g \<le> BJM_GROUP_MAX"
    using name_valid_no_special(2) name_validD(2) assms by (auto simp: bjm_group_valid_def)
  then show ?thesis by (simp add: grab_key_def c_str_id)
qed

lemma envelope_line: "buried_as env e d \<Longrightarrow> d_envelope env at_ix (snd e) = buried_line env at_ix d"
  using group_whole
  by (cases e; cases d) (auto simp: d_envelope_def dead_envelope_def bj_object_def dead_keys dead_scan_zero_def)

lemma channel_entry:
  "dk_lines (fold (o_step env)
       (bj_object [(''index'', [EInt i]), (''term'', [EInt t]), (''type'', [EInt ty]), (''payload'', [EBin b])]) s) =
     dk_lines s @ [d_envelope env i b]"
  by (simp add: bj_object_def dead_keys)

lemma channel_lines:
  "length ts = length es \<Longrightarrow> list_all2 (buried_as env) es ds \<Longrightarrow>
     dk_lines (fold (o_step env) (concat (batch_entries i ts es)) s) =
     dk_lines s @ map (\<lambda>(k, d). buried_line env (i + of_nat k) d) (enumerate 0 ds)"
proof (induction i ts es arbitrary: ds s rule: batch_entries.induct)
  case (1 i t ts ty b es)
  from 1(3) obtain d ds' where ds: "ds = d # ds'" and d: "buried_as env (ty, b) d" "list_all2 (buried_as env) es ds'"
    by (auto simp: list_all2_Cons1)
  have shift: "map (\<lambda>(k, d). buried_line env (i + 1 + of_nat k) d) (enumerate 0 ds') =
      map (\<lambda>(k, d). buried_line env (i + of_nat k) d) (enumerate (Suc 0) ds')"
    by (rule nth_equalityI) (simp_all add: nth_enumerate_eq add.assoc)
  show ?case
    using 1(1) [OF _ d(2)] 1(2) envelope_line [OF d(1)] shift
    by (simp add: ds channel_entry del: o_step.simps)
qed auto

text \<open>
  \<open>dead\<close> shows what a group gave up on: for a channel that holds the envelopes the broker buries jobs
  in, it prints one line each, in order, with the entry's own index, the group, the job's index and
  attempts, and its payload as text.
\<close>

theorem dead_shows_buried:
  assumes "client_perform (client_init retry_ms) turns = (c, Some (200, more_turns))"
    and "bj_decode (env_lib env) (c_body c) = Inr (batch_events i ts es)" and "length ts = length es"
    and "list_all2 (buried_as env) es ds"
  shows "dead_run env retry_ms turns =
     Some (0, map (\<lambda>(k, d). buried_line env (i + of_nat k) d) (enumerate 0 ds))"
  using assms(1,2) channel_lines [OF assms(3,4), of i "\<lparr>dk_key = [], dk_index = 0, dk_lines = []\<rparr>"]
  by (simp add: dead_run_def batch_events_def bj_array_def)

end
