(* ===== verification/Spec2Isabelle.thy ===== *)
theory Spec2Isabelle
  imports Push_Runs Server_Runs Policy_Properties Loop_Runs Broker_Runs Dead_Listing
begin

text \<open>
  sukkal-msg, a message broker over files: its storage, its queue groups, its delivery engine, its
  request handlers and its command-line client, modelled from the C sources under \<open>src/\<close>.

  The program. A broker is a \<open>bjm_store\<close> (\<open>src/src/store.c\<close>) of append-only logs, one per subject,
  and a few B+ trees beside them: receipts (how far each consumer has acknowledged each subject),
  queue groups, retention policies, push registrations, and two generations of an idempotency index.
  The delivery engine (\<open>src/src/push.c\<close>) POSTs batches of a subject to registered callbacks and
  settles what they answer. The handlers (\<open>src/src/server.c\<close>) turn a request into calls on both and
  an answer; the native host calls them from sockets, the WASM build (\<open>src/src/sukkal_wasm.c\<close>) from a
  function. Whenever the store appends a message it calls a hook, by which the engine hears of it.
  The client (\<open>src/src/client.c\<close>) makes requests of the broker, and is the other end of its deliveries:
  \<open>sub\<close>, \<open>work\<close>, \<open>request\<close>, \<open>reply\<close> and \<open>pipe\<close> register a callback, serve it, and answer each delivery with
  what they made of it.

  What is a parameter. The logs (elog), the trees (bpt) and the encoding (binjson) are libraries that
  are not in the repository. The record \<open>lib\<close> of theory Library has the calls the broker makes of
  them, and \<open>lib_laws\<close> the documented behaviour the theorems rely on: a tree is an ordered map, a log
  is a list of messages above a base, decoding inverts encoding for values that fit. Theory
  Reference_Library gives one concrete instance and proves that it obeys the laws, so no theorem is
  vacuous, and the witnesses compute with it. The transport of deliveries is a parameter too (record
  \<open>transport\<close>), as are the listing of the directory and the hook that replaces a log file.

  How the code is rendered. A C struct is a record, a function that changes the store takes and
  returns it, an error code is the left side of a sum, and \<open>uint64_t\<close> is \<open>64 word\<close>, so that every
  addition wraps as it does in C. Lazily opened trees and logs are opened by the model where the code
  opens them. Strings are lists of characters without their final NUL; buffers that can cut or reject
  a string do so in the model. Memory is never exhausted and what the program prints to stderr is
  left out.

  The theories, in the order of their dependence, with what they model:
    \<^item> Sukkal_Prelude: words, the events of binjson, sums, the named theorem collections;
    \<^item> Library, Reference_Library: the libraries' interface, its laws, an instance;
    \<^item> Names: names, patterns and keys (\<open>store.c\<close> 108-420, 719-735);
    \<^item> Codec: the records in the trees, written and read back;
    \<^item> Store: opening, the subjects, reading and publishing; Receipts: the cursor tree;
    \<^item> Policies: policies and the sparse time marks; Push_Registry; Dedup: the idempotency index;
    \<^item> Queue_Core: a queue group's record and the steps a take, a release and an expiry make of it;
      Queue: the operations on the store; Queue_Time: runs of a group over time;
    \<^item> Retention: trimming, the bounds a policy implies, a retention pass, discovery;
    \<^item> Decimal, Pusher, Delivery, Settling: \<open>push.c\<close>, from registration to the pump;
    \<^item> Requests, Handlers: \<open>server.c\<close>, one definition per handler, and the dispatch;
    \<^item> Wasm: \<open>sukkal_wasm.c\<close>, with the plan of the files a request may touch;
    \<^item> Host: \<open>store_posix.c\<close>, \<open>push_posix.c\<close>, \<open>server_posix.c\<close> and \<open>main.c\<close>: the native host, with its main
      loop as a sequence of turns;
    \<^item> Text: \<open>bjtext.c\<close>, the printer and the split of an envelope;
    \<^item> Client_Options, Client_Requests, Client_Commands: \<open>client.c\<close>, from the arguments of a command to
      its request or registration, and the loop that repeats a request that failed;
    \<^item> Receivers: \<open>client.c\<close>, what each receiver does with a delivery and what it answers; Client_Loops:
      the loops around them, with the requests they make, and the whole of \<open>request\<close>; Dead_Listing: what
      \<open>dead\<close> prints of a dead-letter channel.

  What is shown. First of all what holds of the broker as a whole, over any run of its main loop
  (Broker): messages are immutable, a consumer loses nothing it has not acknowledged, the engine stays
  consistent. History, Engine_History and Request_History prepare this: every operation of the store,
  every step of the engine and every request is a step of a relation between the stores before and
  after (\<open>appends\<close>, \<open>keeps\<close>), with what a request must not do for it. Broker also has what becomes of
  registrations after a restart.

  The components' own properties are stated over a store by four projections: \<open>msgs\<close> and \<open>base_of\<close> (the
  messages of a subject and how many were trimmed before them), \<open>receipt\<close>, \<open>group_rec\<close>.
    \<^item> Store_Properties, Policy_Properties: publishing appends one message and nothing else; receipts
      are the highest acknowledgement; trimming and retention keep what a consumer or a group is owed;
      the bounds of each policy.
    \<^item> Queue_Time, Queue_Properties: between two takes of a job its lease has run out, whatever other
      operations come between; no job is lost, a finished one never returns, attempts are bounded;
      \<open>bjm_take\<close> refines a step on the group's record; dead letters and requeueing.
    \<^item> Dedup: what the index remembers, and for how long, across rotations.
    \<^item> Push_Engine, Push_Properties, Push_Worker: the engine as a transition system (\<open>engine_reach\<close>:
      registrations, notifications, pumps and responses in any order) with its invariant; a delivery
      follows the receipt; what a response settles; pacing.
    \<^item> Request_Properties, Server_Properties, Server_Engine, Server_Store: parameters and routing, the
      form of every answer, that the engine hears of what requests publish, and what requests do to
      the store, by composing the handlers with the store's lemmas.
    \<^item> Client_Properties, Worker_Properties, Pipe_Properties, Registration: the client and the broker
      together. Answers has what the engine hears of a receiver's answer. A subscriber is given the
      log above its receipt and the receipt moves to what it accepted; a group loses only the jobs a
      worker's command finished; a stage acknowledges only what the next channel has; what a client
      writes into a registration is what the broker reads; when a request is repeated, and when the
      repetitions end.
    \<^item> Loop_Properties, Request_Reply: how long a request waits, what a receiver has asked for when it
      ends, that leaving never makes it hang; a request and its reply from end to end.
    \<^item> Push_Runs, Server_Runs, Client_Runs, Loop_Runs, Broker_Runs: each theorem with hypotheses applied at concrete
      states of the reference instance.

  Interfaces. The locale \<open>record_codec\<close> states what the store relies on in every record it keeps (what
  is written is read back) and is interpreted on each of the six codecs; \<open>receipts\<close> states the
  contract of the cursor operations and is interpreted on the model's own.

  Termination. Loops of the code are structural recursion or have a measure: a pass over leases ends
  because each step moves on or shortens the array, the walk over a tree because keys grow, the search
  for a batch because at most one dead-letter channel can appear per subject while it walks
  (\<open>to_come\<close> in Delivery), reading a query string because each step drops a parameter. There is no fuel
  in any definition of the broker; the reference instance's decoder takes the length of its input. The
  client's retry loop may run forever: it is a function of the list of its turns, \<open>None\<close> when they are
  used up, and \<open>retries_end\<close> says exactly when it is not.

  Not modelled. What the system and libcurl do behind Host: sockets, files, timers, signals; a run of
  the main loop takes what they report as its input. Freeing memory, and what is printed for people.
  Of the client: the processes it starts for \<open>--exec\<close>, which are parameters, and what it prints.
\<close>

end
